(* ===== verification/Prelude.thy ===== *)
theory Prelude
  imports Main "HOL-Library.Char_ord" "HOL-Library.List_Lexorder" "HOL-Library.Signed_Division" "HOL-Library.Multiset"
begin

text \<open>
  Shared vocabulary of the development: Go errors as values, the string and slice helpers of
  the Go standard library that the modelled code calls, and the generic lemmas on lists that
  the component theories use.  Go strings are byte sequences, so they are modelled by
  \<^typ>\<open>string\<close>, and Go's \<open><\<close> on strings is the bytewise lexicographic order that
  List\_Lexorder installs on \<^typ>\<open>string\<close>.
\<close>

named_theorems go_simps \<open>unfolding of small Go library helpers\<close>
named_theorems frame \<open>fields that an operation leaves unchanged\<close>
named_theorems inv_intros \<open>operations that keep a component invariant\<close>

subsection \<open>Errors\<close>

text \<open>
  \<open>BUG m\<close> is an error (or a panic) that the framework itself raises with a message that starts
  with the text \<open>BUG:\<close>, which it uses for states it believes unreachable; keeping it apart from
  ordinary errors lets the theorems say that such an error is never returned.  Errors that come
  from outside the framework are \<open>Errorf\<close> of their message.
\<close>

datatype goerr =
    Errorf string
  | BUG string
  | Wrap string goerr

type_synonym 'a res = "goerr + 'a"

fun is_bug :: "goerr \<Rightarrow> bool" where
  "is_bug (Errorf m) = False"
| "is_bug (BUG m) = True"
| "is_bug (Wrap m e) = is_bug e"

fun err_msg :: "goerr \<Rightarrow> string" where
  "err_msg (Errorf m) = m"
| "err_msg (BUG m) = ''BUG: '' @ m"
| "err_msg (Wrap m e) = m @ '': '' @ err_msg e"

definition bugfree :: "goerr option \<Rightarrow> bool" where
  "bugfree r = (case r of None \<Rightarrow> True | Some e \<Rightarrow> \<not> is_bug e)"

lemma bugfree_simps [simp]: "bugfree None" "bugfree (Some e) = (\<not> is_bug e)"
  by (simp_all add: bugfree_def)

fun is_ok :: "'a res \<Rightarrow> bool" where
  "is_ok (Inl e) = False"
| "is_ok (Inr x) = True"

definition no_bug :: "'a res \<Rightarrow> bool" where
  "no_bug r = (case r of Inl e \<Rightarrow> \<not> is_bug e | Inr x \<Rightarrow> True)"

lemma no_bug_simps [simp]: "no_bug (Inr x)" "no_bug (Inl e) = (\<not> is_bug e)"
  by (simp_all add: no_bug_def)

subsection \<open>Go strings\<close>

text \<open>\<open>strings.HasPrefix\<close>, \<open>strings.HasSuffix\<close>, \<open>strings.Join\<close>, \<open>strings.Contains\<close> and decimal
  formatting (\<open>%d\<close>).\<close>

definition HasPrefix :: "string \<Rightarrow> string \<Rightarrow> bool" where
  "HasPrefix s p = (take (length p) s = p)"

definition HasSuffix :: "string \<Rightarrow> string \<Rightarrow> bool" where
  "HasSuffix s p = HasPrefix (rev s) (rev p)"

fun Join :: "string list \<Rightarrow> string \<Rightarrow> string" where
  "Join [] sep = []"
| "Join [x] sep = x"
| "Join (x # y # xs) sep = x @ sep @ Join (y # xs) sep"

fun ContainsStr :: "string \<Rightarrow> string \<Rightarrow> bool" where
  "ContainsStr [] p = (p = [])"
| "ContainsStr (c # s) p = (HasPrefix (c # s) p \<or> ContainsStr s p)"

definition digit_char :: "nat \<Rightarrow> char" where
  "digit_char d = char_of (48 + d)"

fun show_nat :: "nat \<Rightarrow> string" where
  "show_nat n = (if n < 10 then [digit_char n] else show_nat (n div 10) @ [digit_char (n mod 10)])"

declare show_nat.simps [simp del]

definition show_int :: "int \<Rightarrow> string" where
  "show_int i = (if i < 0 then ''-'' @ show_nat (nat (- i)) else show_nat (nat i))"

lemma HasPrefix_append [simp]: "HasPrefix (p @ s) p"
  by (simp add: HasPrefix_def)

lemma HasPrefix_iff: "HasPrefix s p \<longleftrightarrow> (\<exists>t. s = p @ t)"
  by (metis HasPrefix_def append_eq_conv_conj append_take_drop_id)

lemma HasSuffix_append [simp]: "HasSuffix (s @ p) p"
  by (simp add: HasSuffix_def)

lemma HasSuffix_iff: "HasSuffix s p \<longleftrightarrow> (\<exists>t. s = t @ p)"
  unfolding HasSuffix_def HasPrefix_iff by (metis rev_append rev_rev_ident)

lemma ContainsStr_iff: "ContainsStr s p \<longleftrightarrow> (\<exists>a b. s = a @ p @ b)"
proof (induction s)
  case Nil
  then show ?case by auto
next
  case (Cons c s)
  have "(\<exists>a b. c # s = a @ p @ b) \<longleftrightarrow> HasPrefix (c # s) p \<or> (\<exists>a b. s = a @ p @ b)"
  proof
    assume "\<exists>a b. c # s = a @ p @ b"
    then obtain a b where ab: "c # s = a @ p @ b" by blast
    show "HasPrefix (c # s) p \<or> (\<exists>a b. s = a @ p @ b)"
      using ab by (cases a) (auto simp: HasPrefix_iff)
  next
    assume "HasPrefix (c # s) p \<or> (\<exists>a b. s = a @ p @ b)"
    then show "\<exists>a b. c # s = a @ p @ b"
    proof
      assume "HasPrefix (c # s) p"
      then obtain t where "c # s = [] @ p @ t" by (auto simp: HasPrefix_iff)
      then show ?thesis by blast
    next
      assume "\<exists>a b. s = a @ p @ b"
      then obtain a b where "c # s = (c # a) @ p @ b" by auto
      then show ?thesis by blast
    qed
  qed
  with Cons.IH show ?case by simp
qed

subsection \<open>Lists\<close>

text \<open>\<open>sort.Slice(xs, func(i, j) bool \{ return key(xs[i]) < key(xs[j]) \})\<close>.  Go's sort is not
  stable: on equal keys any order may come out, and the stable order chosen here is one of
  them.\<close>

definition sort_by :: "('a \<Rightarrow> 'k::linorder) \<Rightarrow> 'a list \<Rightarrow> 'a list" where
  "sort_by k xs = sort_key k xs"

lemma mset_sort_by [simp]: "mset (sort_by k xs) = mset xs"
  by (simp add: sort_by_def)

lemma set_sort_by [simp]: "set (sort_by k xs) = set xs"
  by (simp add: sort_by_def)

lemma length_sort_by [simp]: "length (sort_by k xs) = length xs"
  by (simp add: sort_by_def)

lemma sort_by_Nil [simp]: "sort_by k [] = []"
  by (simp add: sort_by_def)

lemma distinct_sort_by [simp]: "distinct (sort_by k xs) = distinct xs"
  by (simp add: sort_by_def)

lemma sorted_sort_by [simp]: "sorted (map k (sort_by k xs))"
  by (simp add: sort_by_def)

lemma filter_partition_length: "length (filter P xs) + length (filter (\<lambda>x. \<not> P x) xs) = length xs"
  by (induction xs) auto

lemma map_nth_filter_Cons:
  "map ((!) (t # ts)) (filter P [0..<length (t # ts)]) =
     (if P 0 then [t] else []) @ map ((!) ts) (filter (\<lambda>k. P (Suc k)) [0..<length ts])"
proof -
  have "[0..<length (t # ts)] = 0 # map Suc [0..<length ts]"
    by (simp add: map_Suc_upt upt_conv_Cons del: upt_Suc)
  then show ?thesis by (simp add: filter_map comp_def)
qed

lemma filter_upt_interval: "filter (\<lambda>k. a \<le> k \<and> k < b) [0..<n] = [a..<min b n]"
proof (induction n)
  case (Suc n)
  then show ?case by (cases "n < b"; cases "a \<le> n") (auto simp: min_def le_Suc_eq)
qed simp

lemma map_nth_upt: "b \<le> length ts \<Longrightarrow> map ((!) ts) [a..<b] = take (b - a) (drop a ts)"
  by (rule nth_equalityI) auto

lemma concat_chunks: "concat (map (\<lambda>i. take s (drop (i * s) ts)) [0..<n]) = take (n * s) ts"
proof (induction n)
  case (Suc n)
  have "take (n * s) ts @ take s (drop (n * s) ts) = take (n * s + s) ts"
    by (simp add: take_add)
  with Suc show ?case by (simp add: add.commute)
qed simp

text \<open>Appending to the slice stored under a key of a Go map (\<open>m[k] = append(m[k], v)\<close>), with the
  map as an association list in insertion order.\<close>

fun mappend :: "('k \<times> 'v list) list \<Rightarrow> 'k \<Rightarrow> 'v \<Rightarrow> ('k \<times> 'v list) list" where
  "mappend [] k v = [(k, [v])]"
| "mappend ((k', vs) # m) k v = (if k' = k then (k', vs @ [v]) # m else (k', vs) # mappend m k v)"

definition mget :: "('k \<times> 'v list) list \<Rightarrow> 'k \<Rightarrow> 'v list" where
  "mget m k = (case map_of m k of None \<Rightarrow> [] | Some vs \<Rightarrow> vs)"

lemma mget_Nil [simp]: "mget [] k = []"
  by (simp add: mget_def)

lemma mget_mappend: "mget (mappend m k v) k' = (if k' = k then mget m k @ [v] else mget m k')"
  by (induction m k v rule: mappend.induct) (auto simp: mget_def)

lemma fst_set_mappend: "fst ` set (mappend m k v) = insert k (fst ` set m)"
  by (induction m k v rule: mappend.induct) auto

lemma distinct_mappend: "distinct (map fst m) \<Longrightarrow> distinct (map fst (mappend m k v))"
proof (induction m k v rule: mappend.induct)
  case (2 k' vs m k v)
  then show ?case using fst_set_mappend [of m k v] by (auto simp: image_iff)
qed simp

lemma mget_nonempty: "(k, vs) \<in> set m \<Longrightarrow> distinct (map fst m) \<Longrightarrow> mget m k = vs"
  by (simp add: mget_def)

subsection \<open>File paths\<close>

text \<open>\<open>strings.Split\<close> at one character, and \<open>filepath.Clean\<close> and \<open>filepath.Join\<close> on Unix.\<close>

fun split_on :: "char \<Rightarrow> string \<Rightarrow> string list" where
  "split_on c [] = [[]]"
| "split_on c (x # xs) =
     (if x = c then [] # split_on c xs
      else case split_on c xs of [] \<Rightarrow> [[x]] | y # ys \<Rightarrow> (x # y) # ys)"

fun clean_comps :: "bool \<Rightarrow> string list \<Rightarrow> string list \<Rightarrow> string list" where
  "clean_comps rooted st [] = rev st"
| "clean_comps rooted st (c # cs) =
     (if c = [] \<or> c = ''.'' then clean_comps rooted st cs
      else if c = ''..'' then
        (case st of
           [] \<Rightarrow> clean_comps rooted (if rooted then [] else [''..'']) cs
         | t # st' \<Rightarrow> if t = ''..'' then clean_comps rooted (''..'' # st) cs else clean_comps rooted st' cs)
      else clean_comps rooted (c # st) cs)"

definition Clean :: "string \<Rightarrow> string" where
  "Clean path =
     (let rooted = HasPrefix path ''/'';
          body = Join (clean_comps rooted [] (split_on (CHR ''/'') path)) ''/''
      in if rooted then ''/'' @ body else if body = [] then ''.'' else body)"

definition path_Join :: "string list \<Rightarrow> string" where
  "path_Join elems =
     (let es = filter (\<lambda>e. e \<noteq> []) elems in if es = [] then [] else Clean (Join es ''/''))"

lemma split_on_nonempty [simp]: "split_on c s \<noteq> []"
  by (cases s) (auto split: list.splits)

lemma split_on_no_sep: "x \<in> set (split_on c s) \<Longrightarrow> c \<notin> set x"
proof (induction s arbitrary: x)
  case (Cons a s)
  then show ?case by (cases "split_on c s") (auto split: if_splits)
qed simp

lemma split_on_word: "c \<notin> set x \<Longrightarrow> split_on c x = [x]"
  by (induction x) auto

lemma split_on_append: "c \<notin> set x \<Longrightarrow> split_on c (x @ c # s) = x # split_on c s"
  by (induction x) auto

lemma split_on_Join:
  "xs \<noteq> [] \<Longrightarrow> (\<And>x. x \<in> set xs \<Longrightarrow> c \<notin> set x) \<Longrightarrow> split_on c (Join xs [c]) = xs"
  by (induction xs "[c]" rule: Join.induct) (auto simp: split_on_word split_on_append)

lemma clean_comps_rooted:
  "''..'' \<notin> set st \<Longrightarrow> x \<in> set (clean_comps True st cs) \<Longrightarrow>
     x \<noteq> ''..'' \<and> (x \<in> set st \<or> x \<in> set cs)"
proof (induction True st cs rule: clean_comps.induct)
  case (2 st c cs)
  then show ?case by (auto split: if_splits list.splits)
qed auto

lemma HasPrefix_slash: "HasPrefix s ''/'' \<longleftrightarrow> (\<exists>t. s = CHR ''/'' # t)"
  by (auto simp: HasPrefix_iff)

lemma Clean_rooted: "HasPrefix p ''/'' \<Longrightarrow> HasPrefix (Clean p) ''/''"
  by (simp add: Clean_def HasPrefix_slash Let_def)

lemma path_Join_rooted: "HasPrefix d ''/'' \<Longrightarrow> HasPrefix (path_Join (d # ds)) ''/''"
proof -
  assume d: "HasPrefix d ''/''"
  then obtain t where t: "d = CHR ''/'' # t" by (auto simp: HasPrefix_slash)
  let ?es = "filter (\<lambda>e. e \<noteq> []) (d # ds)"
  have "HasPrefix (Join ?es ''/'') ''/''"
    by (cases "filter (\<lambda>e. e \<noteq> []) ds") (auto simp: t HasPrefix_slash)
  then show ?thesis using Clean_rooted by (simp add: path_Join_def Let_def t)
qed

lemma mset_concat_map: "mset (concat (map f xs)) = (\<Sum>x\<leftarrow>xs. mset (f x))"
  by (induction xs) auto

lemma mset_concat_perm: "mset xs = mset ys \<Longrightarrow> mset (concat (map f xs)) = mset (concat (map f ys))"
  by (metis mset_concat_map mset_map sum_mset_sum_list)

end
