(* ===== verification/Sharding.thy ===== *)
theory Sharding
  imports Prelude
begin

text \<open>
  Test sharding, \<open>cmd/tast/internal/run/sharding/sharding.go\<close>.  A \<open>*driver.BundleEntity\<close> is an
  arbitrary value; only its name is read, by \<open>ComputeHash\<close>.  A Go \<open>int\<close> is an \<^typ>\<open>int\<close>: the
  values are list lengths and shard numbers.  \<open>None\<close> is the run-time panic of an integer
  division by zero.
\<close>

record 'e Shard =
  Included :: "'e list"
  Excluded :: "'e list"

text \<open>\<open>shardSpan\<close>, with Go's truncating \<open>/\<close> and \<open>%\<close>.\<close>

definition shardSpan :: "nat \<Rightarrow> int \<Rightarrow> int" where
  "shardSpan len totalShards =
     (if int len smod totalShards > 0 then int len sdiv totalShards + 1
      else int len sdiv totalShards)"

fun split_range :: "'e list \<Rightarrow> int \<Rightarrow> int \<Rightarrow> int \<Rightarrow> 'e Shard" where
  "split_range [] i lo hi = \<lparr>Included = [], Excluded = []\<rparr>"
| "split_range (t # ts) i lo hi =
     (let s = split_range ts (i + 1) lo hi in
      if i \<ge> lo \<and> i \<le> hi then s\<lparr>Included := t # Included s\<rparr>
      else s\<lparr>Excluded := t # Excluded s\<rparr>)"

definition ComputeAlpha :: "'e list \<Rightarrow> int \<Rightarrow> int \<Rightarrow> 'e Shard option" where
  "ComputeAlpha tests shardIndex totalShards =
     (if totalShards = 0 then None
      else
        let span = shardSpan (length tests) totalShards;
            startIdx = shardIndex * span;
            endIdx = (if shardIndex + 1 = totalShards then int (length tests) - 1
                      else (shardIndex + 1) * span - 1)
        in Some (split_range tests 0 startIdx endIdx))"

text \<open>\<open>big.Int.SetBytes\<close>: the bytes of the digest as a big-endian number.\<close>

definition SetBytes :: "nat list \<Rightarrow> nat" where
  "SetBytes bs = foldl (\<lambda>a b. a * 256 + b) 0 bs"

text \<open>\<open>big.Int.Mod\<close> is Euclidean and panics for a zero modulus; \<open>sha256\<close> is the digest
  function.\<close>

fun hash_split :: "(string \<Rightarrow> nat list) \<Rightarrow> ('e \<Rightarrow> string) \<Rightarrow> int \<Rightarrow> int \<Rightarrow> 'e list \<Rightarrow> 'e Shard" where
  "hash_split sha256 name shardIndex totalShards [] = \<lparr>Included = [], Excluded = []\<rparr>"
| "hash_split sha256 name shardIndex totalShards (t # ts) =
     (let s = hash_split sha256 name shardIndex totalShards ts in
      if int (SetBytes (sha256 (name t))) mod \<bar>totalShards\<bar> = shardIndex
      then s\<lparr>Included := t # Included s\<rparr>
      else s\<lparr>Excluded := t # Excluded s\<rparr>)"

definition ComputeHash ::
  "(string \<Rightarrow> nat list) \<Rightarrow> ('e \<Rightarrow> string) \<Rightarrow> 'e list \<Rightarrow> int \<Rightarrow> int \<Rightarrow> 'e Shard option" where
  "ComputeHash sha256 name tests shardIndex totalShards =
     (if totalShards = 0 \<and> tests \<noteq> [] then None
      else Some (hash_split sha256 name shardIndex totalShards tests))"

subsection \<open>The interface of a sharding scheme\<close>

text \<open>
  What the \<open>tast run\<close> command relies on, whichever scheme \<open>-shardmethod\<close> selects: each shard
  splits the request in two without reordering, and the shard a test belongs to does not depend
  on which shard asks.
\<close>

locale sharder =
  fixes shard :: "'e list \<Rightarrow> int \<Rightarrow> int \<Rightarrow> 'e Shard option"
    and owner :: "'e list \<Rightarrow> int \<Rightarrow> nat \<Rightarrow> int"
  assumes shard_defined: "0 < n \<Longrightarrow> \<exists>s. shard ts i n = Some s"
    and shard_included: "0 < n \<Longrightarrow> 0 \<le> i \<Longrightarrow> i < n \<Longrightarrow> shard ts i n = Some s \<Longrightarrow>
      Included s = map ((!) ts) (filter (\<lambda>k. owner ts n k = i) [0..<length ts])"
    and shard_excluded: "0 < n \<Longrightarrow> 0 \<le> i \<Longrightarrow> i < n \<Longrightarrow> shard ts i n = Some s \<Longrightarrow>
      Excluded s = map ((!) ts) (filter (\<lambda>k. owner ts n k \<noteq> i) [0..<length ts])"
    and owner_range: "0 < n \<Longrightarrow> k < length ts \<Longrightarrow> 0 \<le> owner ts n k \<and> owner ts n k < n"
begin

lemma shard_lengths:
  assumes "0 < n" "0 \<le> i" "i < n" "shard ts i n = Some s"
  shows "length (Included s) + length (Excluded s) = length ts"
  using shard_included [OF assms] shard_excluded [OF assms]
    filter_partition_length [of "\<lambda>k. owner ts n k = i" "[0..<length ts]"]
  by simp

text \<open>Over all shards, every position of the request is included exactly once.\<close>

lemma shard_exactly_once:
  assumes n: "0 < n" and k: "k < length ts"
  shows "\<exists>!i. 0 \<le> i \<and> i < n \<and> k \<in> set (filter (\<lambda>k. owner ts n k = i) [0..<length ts])"
  using owner_range [OF n k] k by (intro ex1I [of _ "owner ts n k"]) auto

lemma shard_count_sum:
  assumes n: "0 < n"
  shows "(\<Sum>i = 0..<n. length (filter (\<lambda>k. owner ts n k = i) [0..<length ts])) = length ts"
proof -
  have "(\<Sum>i = 0..<n. length (filter (\<lambda>k. owner ts n k = i) [0..<m])) = m"
    if "m \<le> length ts" for m
    using that
  proof (induction m)
    case 0
    then show ?case by simp
  next
    case (Suc m)
    have r: "0 \<le> owner ts n m \<and> owner ts n m < n"
      using owner_range [OF n] Suc.prems by simp
    have "(\<Sum>i = 0..<n. length (filter (\<lambda>k. owner ts n k = i) [0..<Suc m])) =
      (\<Sum>i = 0..<n. length (filter (\<lambda>k. owner ts n k = i) [0..<m]) + of_bool (owner ts n m = i))"
      by (intro sum.cong) auto
    also have "\<dots> = m + (\<Sum>i = 0..<n. of_bool (owner ts n m = i))"
      using Suc by (simp add: sum.distrib)
    also have "(\<Sum>i = 0..<n. of_bool (owner ts n m = i)) = (1 :: nat)"
      using r by (simp add: of_bool_def sum.delta)
    finally show ?case by simp
  qed
  then show ?thesis by simp
qed

end

subsection \<open>The two schemes implement the interface\<close>

lemma Included_split_range:
  "Included (split_range ts i lo hi) =
     map ((!) ts) (filter (\<lambda>k. lo \<le> i + int k \<and> i + int k \<le> hi) [0..<length ts])"
proof (induction ts i lo hi rule: split_range.induct)
  case (2 t ts i lo hi)
  then show ?case
    by (subst map_nth_filter_Cons) (auto simp: Let_def add.assoc)
qed simp

lemma Excluded_split_range:
  "Excluded (split_range ts i lo hi) =
     map ((!) ts) (filter (\<lambda>k. \<not> (lo \<le> i + int k \<and> i + int k \<le> hi)) [0..<length ts])"
proof (induction ts i lo hi rule: split_range.induct)
  case (2 t ts i lo hi)
  then show ?case
    by (subst map_nth_filter_Cons) (auto simp: Let_def add.assoc)
qed simp

lemma Included_hash_split:
  "Included (hash_split sha256 name i n ts) =
     map ((!) ts) (filter (\<lambda>k. int (SetBytes (sha256 (name (ts ! k)))) mod \<bar>n\<bar> = i) [0..<length ts])"
proof (induction sha256 name i n ts rule: hash_split.induct)
  case (2 sha256 name i n t ts)
  then show ?case by (subst map_nth_filter_Cons) (auto simp: Let_def)
qed simp

lemma Excluded_hash_split:
  "Excluded (hash_split sha256 name i n ts) =
     map ((!) ts) (filter (\<lambda>k. int (SetBytes (sha256 (name (ts ! k)))) mod \<bar>n\<bar> \<noteq> i) [0..<length ts])"
proof (induction sha256 name i n ts rule: hash_split.induct)
  case (2 sha256 name i n t ts)
  then show ?case by (subst map_nth_filter_Cons) (auto simp: Let_def)
qed simp

definition span_nat :: "nat \<Rightarrow> nat \<Rightarrow> nat" where
  "span_nat len n = (if len mod n > 0 then len div n + 1 else len div n)"

lemma shardSpan_nat: "shardSpan len (int n) = int (span_nat len n)"
proof -
  have "int len smod int n = int len mod int n" "int len sdiv int n = int len div int n"
    by (simp_all add: signed_modulo_int_def signed_divide_int_def sgn_if)
  then show ?thesis by (simp add: shardSpan_def span_nat_def flip: of_nat_mod of_nat_div)
qed

lemma span_covers: "0 < n \<Longrightarrow> len \<le> n * span_nat len n"
proof -
  assume n: "0 < n"
  have 1: "len = n * (len div n) + len mod n" by simp
  have 2: "len mod n < n" using n by simp
  have "len \<le> n + n * (len div n)" using 1 2 by linarith
  moreover have "len \<le> n * (len div n)" if "len mod n = 0" using 1 that by linarith
  ultimately show "len \<le> n * span_nat len n"
    unfolding span_nat_def by (cases "len mod n > 0") (simp_all add: algebra_simps)
qed

lemma span_pos: "0 < n \<Longrightarrow> k < len \<Longrightarrow> 0 < span_nat len n"
  using span_covers [of n len] by (cases "span_nat len n") auto

definition alpha_owner :: "'e list \<Rightarrow> int \<Rightarrow> nat \<Rightarrow> int" where
  "alpha_owner ts n k = int k div shardSpan (length ts) n"

lemma alpha_owner_range:
  assumes "0 < n" "k < length ts"
  shows "0 \<le> alpha_owner ts n k \<and> alpha_owner ts n k < n"
proof -
  obtain m where m: "n = int m" "0 < m" using assms(1) by (metis of_nat_0_less_iff zero_less_imp_eq_int)
  let ?s = "span_nat (length ts) m"
  have "k < m * ?s" using span_covers [of m "length ts"] m assms(2) by simp
  then have "k div ?s < m" by (simp add: less_mult_imp_div_less)
  then show ?thesis using m by (simp add: alpha_owner_def shardSpan_nat flip: of_nat_div)
qed

lemma alpha_window:
  assumes "0 < n" "0 \<le> i" "i < n" "k < length ts"
  shows "(i * shardSpan (length ts) n \<le> int k \<and>
          int k \<le> (if i + 1 = n then int (length ts) - 1 else (i + 1) * shardSpan (length ts) n - 1))
         \<longleftrightarrow> alpha_owner ts n k = i"
proof -
  obtain m j where m: "n = int m" "0 < m" and j: "i = int j"
    using assms(1,2) by (metis nonneg_int_cases of_nat_0_less_iff order_less_le)
  let ?s = "span_nat (length ts) m"
  have s: "0 < ?s" using span_pos m(2) assms(4) .
  have own: "alpha_owner ts n k = int (k div ?s)"
    by (simp add: alpha_owner_def m shardSpan_nat flip: of_nat_div)
  have up: "k div ?s < m" using alpha_owner_range [OF assms(1,4)] own m by simp
  have div: "k div ?s = j \<longleftrightarrow> j * ?s \<le> k \<and> k < (j + 1) * ?s"
    using s by (metis Suc_eq_plus1 div_nat_eqI dividend_less_div_times div_times_less_eq_dividend
        mult.commute mult_Suc)
  show ?thesis
  proof (cases "i + 1 = n")
    case True
    then have "j + 1 = m" using m j by simp
    then have "k div ?s = j \<longleftrightarrow> j * ?s \<le> k"
      using up s by (metis Suc_eq_plus1 Suc_leI div_le_mono div_mult_self_is_m leD le_less_Suc_eq
          div_times_less_eq_dividend le_antisym less_Suc_eq_le mult.commute)
    then show ?thesis using True own assms(4) j m
      by (simp add: shardSpan_nat flip: of_nat_mult)
  next
    case False
    have "int k \<le> (int j + 1) * int ?s - 1 \<longleftrightarrow> k < (j + 1) * ?s"
    proof -
      have "(int j + 1) * int ?s = int ((j + 1) * ?s)" by (simp add: algebra_simps)
      then show ?thesis by linarith
    qed
    moreover have "int j * int ?s \<le> int k \<longleftrightarrow> j * ?s \<le> k"
      by (simp flip: of_nat_mult)
    ultimately show ?thesis using False own j m div by (simp add: shardSpan_nat)
  qed
qed

definition hash_owner :: "(string \<Rightarrow> nat list) \<Rightarrow> ('e \<Rightarrow> string) \<Rightarrow> 'e list \<Rightarrow> int \<Rightarrow> nat \<Rightarrow> int" where
  "hash_owner sha256 name ts n k = int (SetBytes (sha256 (name (ts ! k)))) mod \<bar>n\<bar>"

lemma ComputeAlpha_window:
  assumes "0 < n" "0 \<le> i" "i < n" "ComputeAlpha ts i n = Some s"
  shows "Included s = map ((!) ts) (filter (\<lambda>k. alpha_owner ts n k = i) [0..<length ts])"
    and "Excluded s = map ((!) ts) (filter (\<lambda>k. alpha_owner ts n k \<noteq> i) [0..<length ts])"
proof -
  let ?W = "\<lambda>k. i * shardSpan (length ts) n \<le> int k \<and> int k \<le>
      (if i + 1 = n then int (length ts) - 1 else (i + 1) * shardSpan (length ts) n - 1)"
  have W: "?W k \<longleftrightarrow> alpha_owner ts n k = i" if "k \<in> set [0..<length ts]" for k
    using alpha_window [of n i k ts] assms that by auto
  have s: "s = split_range ts 0 (i * shardSpan (length ts) n)
      (if i + 1 = n then int (length ts) - 1 else (i + 1) * shardSpan (length ts) n - 1)"
    using assms by (simp add: ComputeAlpha_def Let_def)
  show "Included s = map ((!) ts) (filter (\<lambda>k. alpha_owner ts n k = i) [0..<length ts])"
    unfolding s Included_split_range using W by (simp cong: filter_cong del: set_upt)
  show "Excluded s = map ((!) ts) (filter (\<lambda>k. alpha_owner ts n k \<noteq> i) [0..<length ts])"
    unfolding s Excluded_split_range using W by (simp cong: filter_cong del: set_upt)
qed

interpretation alpha: sharder ComputeAlpha alpha_owner
proof (unfold_locales, goal_cases)
  case (2 n i ts s)
  then show ?case by (rule ComputeAlpha_window(1))
next
  case (3 n i ts s)
  then show ?case by (rule ComputeAlpha_window(2))
qed (use alpha_owner_range in \<open>auto simp: ComputeAlpha_def Let_def\<close>)

interpretation hash: sharder "ComputeHash sha256 name" "hash_owner sha256 name"
  for sha256 :: "string \<Rightarrow> nat list" and name :: "'e \<Rightarrow> string"
  by unfold_locales
    (auto simp: ComputeHash_def hash_owner_def Included_hash_split Excluded_hash_split)

lemma filter_div_block:
  "0 < s \<Longrightarrow> filter (\<lambda>k. k div s = j) [0..<len] = [j * s..<min ((j + 1) * s) len]"
proof -
  assume s: "0 < s"
  have "k div s = j \<longleftrightarrow> j * s \<le> k \<and> k < (j + 1) * s" for k
    using s by (metis Suc_eq_plus1 div_nat_eqI dividend_less_div_times div_times_less_eq_dividend
        mult.commute mult_Suc)
  then show ?thesis by (simp add: filter_upt_interval del: mult_Suc add_mult_distrib)
qed

lemma alpha_chunk:
  assumes "j < n" "ComputeAlpha ts (int j) (int n) = Some s"
  shows "Included s = take (span_nat (length ts) n) (drop (j * span_nat (length ts) n) ts)"
proof (cases "ts = []")
  case True
  then show ?thesis using alpha.shard_included [OF _ _ _ assms(2)] assms(1) by simp
next
  case False
  let ?s = "span_nat (length ts) n"
  have s: "0 < ?s" using span_pos [of n 0 "length ts"] False assms(1) by simp
  have own: "alpha_owner ts (int n) k = int (k div ?s)" for k
    by (simp add: alpha_owner_def shardSpan_nat flip: of_nat_div)
  have "Included s = map ((!) ts) (filter (\<lambda>k. k div ?s = j) [0..<length ts])"
    using alpha.shard_included [OF _ _ _ assms(2)] assms(1) by (simp add: own)
  also have "\<dots> = map ((!) ts) [j * ?s..<min ((j + 1) * ?s) (length ts)]"
    using s by (simp only: filter_div_block)
  also have "\<dots> = take (min ((j + 1) * ?s) (length ts) - j * ?s) (drop (j * ?s) ts)"
    by (rule map_nth_upt) simp
  also have "\<dots> = take ?s (drop (j * ?s) ts)"
    by (cases "(j + 1) * ?s \<le> length ts") (auto simp: min_def algebra_simps)
  finally show ?thesis .
qed

text \<open>C16: The lexicographic shards tile the request: for every positive shard count, running
  \<open>ComputeAlpha\<close> for shard 0, 1, \<open>\<dots>\<close> and concatenating the included tests gives back exactly
  the requested list, in order, so no test is lost or run by two shards.\<close>

theorem ComputeAlpha_tiles:
  assumes "0 < n"
  shows "concat (map (\<lambda>j. case ComputeAlpha ts (int j) (int n) of Some s \<Rightarrow> Included s | None \<Rightarrow> [])
           [0..<n]) = ts"
proof -
  let ?s = "span_nat (length ts) n"
  have "(case ComputeAlpha ts (int j) (int n) of Some s \<Rightarrow> Included s | None \<Rightarrow> []) =
      take ?s (drop (j * ?s) ts)" if "j < n" for j
    using alpha.shard_defined [of "int n" ts "int j"] alpha_chunk [OF that] assms by auto
  then have "concat (map (\<lambda>j. case ComputeAlpha ts (int j) (int n) of Some s \<Rightarrow> Included s | None \<Rightarrow> [])
      [0..<n]) = concat (map (\<lambda>j. take ?s (drop (j * ?s) ts)) [0..<n])"
    by (intro arg_cong [where f = concat] map_cong) auto
  also have "\<dots> = ts" using span_covers [OF assms, of "length ts"] by (simp add: concat_chunks)
  finally show ?thesis .
qed

theorem ComputeAlpha_tiles_witness:
  "concat (map (\<lambda>j. case ComputeAlpha [''A'', ''B'', ''C'', ''D'', ''E'', ''F'', ''G''] (int j) (int 3) of
       Some s \<Rightarrow> Included s | None \<Rightarrow> []) [0..<3]) = [''A'', ''B'', ''C'', ''D'', ''E'', ''F'', ''G''] \<and>
   map_option Included (ComputeAlpha [''A'', ''B'', ''C'', ''D'', ''E'', ''F'', ''G''] 2 3) = Some [''G'']"
proof
  show "map_option Included (ComputeAlpha [''A'', ''B'', ''C'', ''D'', ''E'', ''F'', ''G''] 2 3) = Some [''G'']"
    by (simp add: ComputeAlpha_def shardSpan_def Let_def)
qed (rule ComputeAlpha_tiles, simp)

lemma map_nth_filter: "map ((!) ts) (filter (\<lambda>k. P (ts ! k)) [0..<length ts]) = filter P ts"
  by (metis (mono_tags, lifting) comp_apply filter_cong filter_map map_nth)

lemma sum_mset_filter:
  fixes f :: "'e \<Rightarrow> int"
  assumes "\<And>t. 0 \<le> f t \<and> f t < n"
  shows "(\<Sum>i = 0..<n. mset (filter (\<lambda>t. f t = i) ts)) = mset ts"
proof (induction ts)
  case (Cons t ts)
  have "(\<Sum>i = 0..<n. mset (filter (\<lambda>t. f t = i) (t # ts))) =
      (\<Sum>i = 0..<n. (if f t = i then {#t#} else {#}) + mset (filter (\<lambda>t. f t = i) ts))"
    by (intro sum.cong) auto
  also have "\<dots> = {#t#} + mset ts"
    using Cons assms [of t] by (simp add: sum.distrib sum.delta)
  finally show ?case by simp
qed simp

text \<open>C17: Hash sharding assigns every requested test to exactly one shard: for every digest
  function and positive shard count, the shards' included lists together hold every test of the
  request exactly as often as the request does, and each shard's excluded list is the rest of
  the request.\<close>

theorem ComputeHash_partition:
  assumes "0 < n"
  shows "(\<Sum>i = 0..<n. case ComputeHash sha256 name ts i n of
             Some s \<Rightarrow> mset (Included s) | None \<Rightarrow> {#}) = mset ts \<and>
         (\<forall>i s. 0 \<le> i \<longrightarrow> i < n \<longrightarrow> ComputeHash sha256 name ts i n = Some s \<longrightarrow>
             mset (Included s) + mset (Excluded s) = mset ts)"
proof -
  let ?h = "\<lambda>t. int (SetBytes (sha256 (name t))) mod n"
  have i: "Included s = filter (\<lambda>t. ?h t = i) ts" and e: "Excluded s = filter (\<lambda>t. ?h t \<noteq> i) ts"
    if "0 \<le> i" "i < n" "ComputeHash sha256 name ts i n = Some s" for i s
    using hash.shard_included [OF assms that] hash.shard_excluded [OF assms that] assms
    by (simp_all add: hash_owner_def map_nth_filter [of ts "\<lambda>t. ?h t = i"]
        map_nth_filter [of ts "\<lambda>t. ?h t \<noteq> i"])
  have "(case ComputeHash sha256 name ts i n of Some s \<Rightarrow> mset (Included s) | None \<Rightarrow> {#}) =
      mset (filter (\<lambda>t. ?h t = i) ts)" if "i \<in> {0..<n}" for i
    using hash.shard_defined [OF assms, of sha256 name ts i] i [of i] that by auto
  then have "(\<Sum>i = 0..<n. case ComputeHash sha256 name ts i n of Some s \<Rightarrow> mset (Included s) | None \<Rightarrow> {#}) =
      (\<Sum>i = 0..<n. mset (filter (\<lambda>t. ?h t = i) ts))"
    by (rule sum.cong [OF refl])
  also have "\<dots> = mset ts" using assms by (intro sum_mset_filter) simp
  finally show ?thesis using i e by (auto simp: multiset_partition [symmetric])
qed

theorem ComputeHash_partition_witness:
  "(\<Sum>i = 0..<2. case ComputeHash (map of_char) id [''ui.A'', ''ui.B'', ''ui.D''] i 2 of
      Some s \<Rightarrow> mset (Included s) | None \<Rightarrow> {#}) = mset [''ui.A'', ''ui.B'', ''ui.D''] \<and>
   map_option Included (ComputeHash (map of_char) id [''ui.A'', ''ui.B'', ''ui.D''] 0 2) = Some [''ui.B'', ''ui.D'']"
proof
  show "map_option Included (ComputeHash (map of_char) id [''ui.A'', ''ui.B'', ''ui.D''] 0 2) = Some [''ui.B'', ''ui.D'']"
    by (simp add: ComputeHash_def SetBytes_def)
qed (rule ComputeHash_partition [THEN conjunct1], simp)

end
