(* ===== verification/Output.thy ===== *)
theory Output
  imports Prelude
begin

text \<open>
  Entities and the per-entity output stream, \<open>internal/planner/internal/output/output.go\<close>.
  A \<open>Stream\<close> is the sink shared by all entities of a run.  It is modelled by the events sent so
  far and by the error its transport returns for an event (a parameter of the state, since the
  sink is a network connection).  Timestamps, log levels and timing logs are not carried.
\<close>

datatype entity_type = TEST | FIXTURE

record Entity =
  EType :: entity_type
  EName :: string
  EPackage :: string
  EFixture :: string
  EDataFiles :: "string list"

record ErrorLocation =
  LFile :: string
  LLine :: int

record PError =
  Reason :: string
  Location :: "ErrorLocation option"

datatype out_event =
    EntityStart Entity string
  | EntityLog Entity string
  | EntityError Entity PError
  | EntityEnd Entity "string list"

record Stream =
  sent :: "out_event list"
  send_err :: "out_event \<Rightarrow> goerr option"

definition send :: "out_event \<Rightarrow> Stream \<Rightarrow> goerr option \<times> Stream" where
  "send ev out = (send_err out ev, out\<lparr>sent := sent out @ [ev]\<rparr>)"

record EntityStream =
  ei :: Entity
  errs :: "PError list"
  ended :: bool

definition NewEntityStream :: "Entity \<Rightarrow> EntityStream" where
  "NewEntityStream e = \<lparr>ei = e, errs = [], ended = False\<rparr>"

definition errAlreadyEnded :: goerr where
  "errAlreadyEnded = Errorf ''test has already ended''"

type_synonym es_result = "goerr option \<times> EntityStream \<times> Stream"

definition es_Start :: "string \<Rightarrow> EntityStream \<Rightarrow> Stream \<Rightarrow> es_result" where
  "es_Start outDir w out =
     (if ended w then (Some errAlreadyEnded, w, out)
      else if EName (ei w) = [] then (None, w, out)
      else (let (e, out') = send (EntityStart (ei w) outDir) out in (e, w, out')))"

definition es_Log :: "string \<Rightarrow> EntityStream \<Rightarrow> Stream \<Rightarrow> es_result" where
  "es_Log msg w out =
     (if ended w then (Some errAlreadyEnded, w, out)
      else if EName (ei w) = [] then (None, w, out)
      else (let (e, out') = send (EntityLog (ei w) msg) out in (e, w, out')))"

definition es_Error :: "PError \<Rightarrow> EntityStream \<Rightarrow> Stream \<Rightarrow> es_result" where
  "es_Error pe w out =
     (if ended w then (Some errAlreadyEnded, w, out)
      else
        let w' = w\<lparr>errs := errs w @ [pe]\<rparr> in
        if EName (ei w) = [] then (None, w', out)
        else (let (e, out') = send (EntityError (ei w) pe) out in (e, w', out')))"

definition es_End :: "string list \<Rightarrow> EntityStream \<Rightarrow> Stream \<Rightarrow> es_result" where
  "es_End skipReasons w out =
     (if ended w then (Some errAlreadyEnded, w, out)
      else if EName (ei w) = [] then (None, w, out)
      else
        let w' = w\<lparr>ended := True\<rparr>;
            (e, out') = send (EntityEnd (ei w) skipReasons) out
        in (e, w', out'))"

definition es_Errors :: "EntityStream \<Rightarrow> PError list" where
  "es_Errors w = errs w"

lemmas es_defs = es_Start_def es_Log_def es_Error_def es_End_def es_Errors_def send_def Let_def

subsection \<open>Callers that ignore the error\<close>

text \<open>Almost every caller drops the error a stream method returns; these keep the two states.\<close>

abbreviation es_start :: "string \<Rightarrow> EntityStream \<times> Stream \<Rightarrow> EntityStream \<times> Stream" where
  "es_start d p \<equiv> snd (es_Start d (fst p) (snd p))"

abbreviation es_log :: "string \<Rightarrow> EntityStream \<times> Stream \<Rightarrow> EntityStream \<times> Stream" where
  "es_log m p \<equiv> snd (es_Log m (fst p) (snd p))"

abbreviation es_error :: "PError \<Rightarrow> EntityStream \<times> Stream \<Rightarrow> EntityStream \<times> Stream" where
  "es_error e p \<equiv> snd (es_Error e (fst p) (snd p))"

abbreviation es_end :: "string list \<Rightarrow> EntityStream \<times> Stream \<Rightarrow> EntityStream \<times> Stream" where
  "es_end rs p \<equiv> snd (es_End rs (fst p) (snd p))"

subsection \<open>Programs over one stream\<close>

datatype es_op = OStart string | OLog string | OError PError | OEnd "string list"

fun es_step :: "es_op \<Rightarrow> EntityStream \<times> Stream \<Rightarrow> EntityStream \<times> Stream" where
  "es_step (OStart d) p = es_start d p"
| "es_step (OLog m) p = es_log m p"
| "es_step (OError e) p = es_error e p"
| "es_step (OEnd rs) p = es_end rs p"

fun event_of :: "Entity \<Rightarrow> es_op \<Rightarrow> out_event" where
  "event_of e (OStart d) = EntityStart e d"
| "event_of e (OLog m) = EntityLog e m"
| "event_of e (OError pe) = EntityError e pe"
| "event_of e (OEnd rs) = EntityEnd e rs"

fun is_end :: "es_op \<Rightarrow> bool" where
  "is_end (OEnd rs) = True"
| "is_end op = False"

fun error_of :: "es_op \<Rightarrow> PError list" where
  "error_of (OError e) = [e]"
| "error_of op = []"

text \<open>What a stream promises: the operations up to and including the first \<open>End\<close>.\<close>

fun up_to_end :: "es_op list \<Rightarrow> es_op list" where
  "up_to_end [] = []"
| "up_to_end (op # ops) = (if is_end op then [op] else op # up_to_end ops)"

definition es_run :: "es_op list \<Rightarrow> EntityStream \<times> Stream \<Rightarrow> EntityStream \<times> Stream" where
  "es_run ops p = fold es_step ops p"

lemma es_run_simps [simp]: "es_run [] p = p" "es_run (op # ops) p = es_run ops (es_step op p)"
  by (simp_all add: es_run_def)

lemma es_step_frame [frame, simp]:
  "ei (fst (es_step op p)) = ei (fst p)"
  "send_err (snd (es_step op p)) = send_err (snd p)"
  by (cases op; simp add: es_defs)+

lemma es_step_ended: "ended (fst p) \<Longrightarrow> es_step op p = p"
  by (cases op) (simp_all add: es_defs)

lemma es_run_ended: "ended (fst p) \<Longrightarrow> es_run ops p = p"
  by (induction ops) (simp_all add: es_step_ended)

lemma es_step_named:
  "\<not> ended (fst p) \<Longrightarrow> EName (ei (fst p)) \<noteq> [] \<Longrightarrow>
     sent (snd (es_step op p)) = sent (snd p) @ [event_of (ei (fst p)) op] \<and>
     ended (fst (es_step op p)) = is_end op \<and>
     errs (fst (es_step op p)) = errs (fst p) @ error_of op"
  by (cases op) (simp_all add: es_defs)

lemma es_step_unnamed:
  "\<not> ended (fst p) \<Longrightarrow> EName (ei (fst p)) = [] \<Longrightarrow>
     snd (es_step op p) = snd p \<and> \<not> ended (fst (es_step op p)) \<and>
     errs (fst (es_step op p)) = errs (fst p) @ error_of op"
  by (cases op) (simp_all add: es_defs)

text \<open>C15: A named entity's stream sends exactly the operations performed on it up to and including
  the first \<open>End\<close>, in order, each once and all tagged with the entity, and nothing afterwards: a
  log or error that a leaked goroutine reports after the entity ended never reaches the output.
  \<open>Errors\<close> returns exactly the errors reported before that point.\<close>

theorem entity_stream_trace:
  assumes "EName e \<noteq> []"
  shows "sent (snd (es_run ops (NewEntityStream e, out))) = sent out @ map (event_of e) (up_to_end ops) \<and>
         es_Errors (fst (es_run ops (NewEntityStream e, out))) = concat (map error_of (up_to_end ops))"
proof -
  have "sent (snd (es_run ops p)) = sent (snd p) @ map (event_of e) (up_to_end ops) \<and>
        errs (fst (es_run ops p)) = errs (fst p) @ concat (map error_of (up_to_end ops))"
    if "\<not> ended (fst p)" "ei (fst p) = e" for p
    using that
  proof (induction ops arbitrary: p)
    case (Cons op ops)
    note step = es_step_named [OF Cons.prems(1), of op]
    show ?case
    proof (cases "is_end op")
      case True
      with step Cons.prems assms have "ended (fst (es_step op p))" by simp
      with True step Cons.prems assms show ?thesis by (simp add: es_run_ended)
    next
      case False
      with step Cons.prems assms have "\<not> ended (fst (es_step op p))" "ei (fst (es_step op p)) = e"
        by simp_all
      from Cons.IH [OF this] False step Cons.prems assms show ?thesis by simp
    qed
  qed simp
  then show ?thesis by (simp add: NewEntityStream_def es_Errors_def)
qed

theorem entity_stream_trace_witness:
  "let e = \<lparr>EType = TEST, EName = ''ui.A'', EPackage = '''', EFixture = '''', EDataFiles = []\<rparr>;
       ops = [OStart ''/o'', OLog ''hi'', OEnd [], OLog ''late'']
   in sent (snd (es_run ops (NewEntityStream e, \<lparr>sent = [], send_err = Map.empty\<rparr>))) =
        [EntityStart e ''/o'', EntityLog e ''hi'', EntityEnd e []]"
  unfolding Let_def by (subst entity_stream_trace [THEN conjunct1]) simp_all

text \<open>An unnamed entity (the start fixture) never sends anything and cannot be ended, but it
  still collects its errors.\<close>

lemma es_run_unnamed:
  assumes "EName (ei (fst p)) = []" "\<not> ended (fst p)"
  shows "snd (es_run ops p) = snd p \<and> \<not> ended (fst (es_run ops p)) \<and>
    errs (fst (es_run ops p)) = errs (fst p) @ concat (map error_of ops)"
  using assms
proof (induction ops arbitrary: p)
  case (Cons op ops)
  note step = es_step_unnamed [OF Cons.prems(2,1), of op]
  with Cons.IH [of "es_step op p"] Cons.prems show ?case by simp
qed simp

subsection \<open>Sessions\<close>

text \<open>
  The protocol an entity's events follow in the output of a run: sessions that open with
  \<open>EntityStart\<close>, hold logs and errors and close with \<open>EntityEnd\<close>.  \<open>session e evs\<close> is
  \<open>Some open\<close> when the events of \<open>e\<close> in \<open>evs\<close> follow it, and \<open>None\<close> when they do not.
\<close>

fun ev_entity :: "out_event \<Rightarrow> Entity" where
  "ev_entity (EntityStart e d) = e"
| "ev_entity (EntityLog e m) = e"
| "ev_entity (EntityError e pe) = e"
| "ev_entity (EntityEnd e rs) = e"

fun session_step :: "Entity \<Rightarrow> bool option \<Rightarrow> out_event \<Rightarrow> bool option" where
  "session_step e st (EntityStart e' d) = (if e' = e then (if st = Some False then Some True else None) else st)"
| "session_step e st (EntityLog e' m) = (if e' = e then (if st = Some True then Some True else None) else st)"
| "session_step e st (EntityError e' pe) = (if e' = e then (if st = Some True then Some True else None) else st)"
| "session_step e st (EntityEnd e' rs) = (if e' = e then (if st = Some True then Some False else None) else st)"

definition session :: "Entity \<Rightarrow> out_event list \<Rightarrow> bool option" where
  "session e evs = foldl (session_step e) (Some False) evs"

lemma session_Nil [simp]: "session e [] = Some False"
  by (simp add: session_def)

lemma session_snoc [simp]: "session e (evs @ [ev]) = session_step e (session e evs) ev"
  by (simp add: session_def)

text \<open>Logging and reporting errors through an open stream leaves every session as it is.\<close>

definition stream_open :: "EntityStream \<Rightarrow> Stream \<Rightarrow> bool" where
  "stream_open es out \<longleftrightarrow> \<not> ended es \<and> (EName (ei es) \<noteq> [] \<longrightarrow> session (ei es) (sent out) = Some True)"

definition same_sessions :: "Stream \<Rightarrow> Stream \<Rightarrow> bool" where
  "same_sessions out out' \<longleftrightarrow> (\<forall>e. session e (sent out') = session e (sent out))"

lemma same_sessions_refl [simp]: "same_sessions out out"
  by (simp add: same_sessions_def)

lemma same_sessions_trans [trans]:
  "same_sessions a b \<Longrightarrow> same_sessions b c \<Longrightarrow> same_sessions a c"
  by (simp add: same_sessions_def)

lemma stream_open_same: "stream_open es out \<Longrightarrow> same_sessions out out' \<Longrightarrow> stream_open es out'"
  by (simp add: stream_open_def same_sessions_def)

lemma es_report_open:
  assumes "stream_open (fst p) (snd p)" and "op = OLog m \<or> op = OError pe"
  shows "stream_open (fst (es_step op p)) (snd (es_step op p)) \<and>
     same_sessions (snd p) (snd (es_step op p)) \<and>
     errs (fst (es_step op p)) = errs (fst p) @ error_of op"
  using assms by (cases "EName (ei (fst p)) = []") (auto simp: es_defs stream_open_def same_sessions_def)

lemma es_start_session:
  assumes "\<not> ended es" "EName (ei es) \<noteq> [] \<longrightarrow> session (ei es) (sent out) = Some False"
  shows "stream_open (fst (es_start d (es, out))) (snd (es_start d (es, out)))"
    and "EName e \<noteq> [] \<Longrightarrow> session e (sent (snd (es_start d (es, out)))) =
           (if e = ei es then Some True else session e (sent out))"
    and "fst (es_start d (es, out)) = es"
  using assms by (cases "EName (ei es) = []"; auto simp: es_defs stream_open_def)+

lemma es_end_session:
  assumes "stream_open es out"
  shows "EName e \<noteq> [] \<Longrightarrow> session e (sent (snd (es_end rs (es, out)))) =
           (if e = ei es then Some False else session e (sent out))"
    and "ended (fst (es_end rs (es, out))) = (EName (ei es) \<noteq> [])"
    and "ei (fst (es_end rs (es, out))) = ei es"
    and "errs (fst (es_end rs (es, out))) = errs es"
  using assms by (cases "EName (ei es) = []"; auto simp: es_defs stream_open_def)+

text \<open>The events of the entities of one type, and that a stream only adds to those of its own.\<close>

definition trace_of :: "entity_type \<Rightarrow> Stream \<Rightarrow> out_event list" where
  "trace_of T out = filter (\<lambda>ev. EType (ev_entity ev) = T) (sent out)"

lemma session_filter: "(\<And>ev. ev_entity ev = e \<Longrightarrow> P ev) \<Longrightarrow> session e (filter P evs) = session e evs"
proof (induction evs rule: rev_induct)
  case (snoc ev evs)
  have "session_step e st ev = st" if "ev_entity ev \<noteq> e" for st
    using that by (cases ev) auto
  with snoc show ?case by (cases "P ev"; cases "ev_entity ev = e") auto
qed simp

lemma session_trace_of: "session e (trace_of (EType e) out) = session e (sent out)"
  unfolding trace_of_def by (rule session_filter) auto

lemma es_step_trace: "EType (ei (fst p)) \<noteq> T \<Longrightarrow> trace_of T (snd (es_step op p)) = trace_of T (snd p)"
  by (cases op) (simp_all add: es_defs trace_of_def)

lemmas es_trace = es_step_trace [of _ _ "OStart d" for d, unfolded es_step.simps]
  es_step_trace [of _ _ "OLog m" for m, unfolded es_step.simps]
  es_step_trace [of _ _ "OError pe" for pe, unfolded es_step.simps]
  es_step_trace [of _ _ "OEnd rs" for rs, unfolded es_step.simps]

lemma session_same_trace:
  "trace_of (EType e) out' = trace_of (EType e) out \<Longrightarrow> session e (sent out') = session e (sent out)"
  by (metis session_trace_of)

text \<open>A stream only ever adds to the output.\<close>

definition extends :: "Stream \<Rightarrow> Stream \<Rightarrow> bool" where
  "extends out out' \<longleftrightarrow> (\<exists>evs. sent out' = sent out @ evs)"

lemma extends_refl [simp]: "extends out out"
  by (simp add: extends_def)

lemma extends_trans [trans]: "extends a b \<Longrightarrow> extends b c \<Longrightarrow> extends a c"
  by (auto simp: extends_def)

lemma extends_mem: "extends a b \<Longrightarrow> ev \<in> set (sent a) \<Longrightarrow> ev \<in> set (sent b)"
  by (auto simp: extends_def)

lemma es_step_extends: "extends (snd p) (snd (es_step op p))"
  by (cases op) (simp_all add: es_defs extends_def)

lemmas es_extends = es_step_extends [of _ "OStart d" for d, unfolded es_step.simps]
  es_step_extends [of _ "OLog m" for m, unfolded es_step.simps]
  es_step_extends [of _ "OError pe" for pe, unfolded es_step.simps]
  es_step_extends [of _ "OEnd rs" for rs, unfolded es_step.simps]

text \<open>The names of the tests that were started, in order.\<close>

fun start_of :: "out_event \<Rightarrow> string list" where
  "start_of (EntityStart e d) = (if EType e = TEST then [EName e] else [])"
| "start_of ev = []"

definition starts :: "Stream \<Rightarrow> string list" where
  "starts out = concat (map start_of (sent out))"

lemma starts_trace: "trace_of TEST out' = trace_of TEST out \<Longrightarrow> starts out' = starts out"
proof -
  have "start_of ev = []" if "EType (ev_entity ev) \<noteq> TEST" for ev using that by (cases ev) auto
  then have "concat (map start_of evs) = concat (map start_of (filter (\<lambda>ev. EType (ev_entity ev) = TEST) evs))" for evs
    by (induction evs) auto
  then have "starts o' = concat (map start_of (trace_of TEST o'))" for o' by (simp add: starts_def trace_of_def)
  then show "trace_of TEST out' = trace_of TEST out \<Longrightarrow> starts out' = starts out" by simp
qed

lemma starts_log [simp]: "starts (snd (es_log m p)) = starts (snd p)"
  by (simp add: es_defs starts_def)

lemma starts_error [simp]: "starts (snd (es_error e p)) = starts (snd p)"
  by (simp add: es_defs starts_def)

lemma starts_end [simp]: "starts (snd (es_end rs p)) = starts (snd p)"
  by (simp add: es_defs starts_def)

lemma starts_start:
  "\<not> ended es \<Longrightarrow> EName (ei es) \<noteq> [] \<Longrightarrow> EType (ei es) = TEST \<Longrightarrow> starts (snd (es_start d (es, out))) = starts out @ [EName (ei es)]"
  by (simp add: es_defs starts_def)

end
