(* ===== verification/Usercode.thy ===== *)
theory Usercode
  imports Output
begin

text \<open>
  Calls into user code, \<open>internal/usercode/usercode.go\<close>.  User code (test functions, fixtures,
  preconditions, hooks) is not part of the program; it is a parameter, a function that maps the
  state of the world to what one call was observed to do: the reports it made, when and how it
  finished (if it ever did), when the context passed to it was cancelled, and the world it left
  behind (an error that user code or the context supplies is given by its message).
  \<open>SafeCall\<close> is modelled twice: as the function \<open>SafeCall\<close> on such an observation, and
  as the race of its two goroutines for the token, a step relation; the theorems at the end relate
  the two.
\<close>

subsection \<open>User code as an observation\<close>

datatype 'a uend =
    UReturn 'a          \<comment> \<open>the function returned\<close>
  | UGoexit             \<comment> \<open>\<open>runtime.Goexit\<close>, which \<open>s.Fatal\<close> calls\<close>
  | UPanic string       \<comment> \<open>it panicked\<close>
  | UForced string      \<comment> \<open>it called \<open>ForceErrorForTesting\<close>\<close>

datatype report = RLog string | RError PError

record ('w, 'a) ucall =
  reports :: "report list"
  finish :: "(int \<times> 'a uend) option"     \<comment> \<open>elapsed time and manner\<close>
  cancelled :: "(int \<times> string) option"     \<comment> \<open>elapsed time and \<open>ctx.Err()\<close>\<close>
  uworld :: 'w

type_synonym ('w, 'a) ucode = "'w \<Rightarrow> ('w, 'a) ucall"

text \<open>What \<open>SafeCall\<close> returns, the value the function computed, and the panic value handed to the
  panic handler.\<close>

record 'a safe_result =
  sc_err :: "goerr option"
  sc_ret :: "'a option"
  sc_panic :: "string option"

definition timeout_error :: "string \<Rightarrow> goerr" where
  "timeout_error name = Errorf (name @ '' did not return on timeout'')"

text \<open>The user function took the token: \<open>callErr\<close>.\<close>

fun call_result :: "'a uend \<Rightarrow> 'a safe_result" where
  "call_result (UReturn x) = \<lparr>sc_err = None, sc_ret = Some x, sc_panic = None\<rparr>"
| "call_result UGoexit = \<lparr>sc_err = None, sc_ret = None, sc_panic = None\<rparr>"
| "call_result (UPanic v) = \<lparr>sc_err = None, sc_ret = None, sc_panic = Some v\<rparr>"
| "call_result (UForced e) = \<lparr>sc_err = Some (Errorf e), sc_ret = None, sc_panic = None\<rparr>"

definition wait_failed :: "goerr \<Rightarrow> 'a safe_result" where
  "wait_failed e = \<lparr>sc_err = Some e, sc_ret = None, sc_panic = None\<rparr>"

text \<open>
  Of the three events the \<open>select\<close> waits for, the earliest decides; a tie goes to the first case
  listed.  A Go \<open>time.Duration\<close> is an \<^typ>\<open>int\<close>.
\<close>

definition SafeCall :: "string \<Rightarrow> int \<Rightarrow> int \<Rightarrow> ('w, 'a) ucall \<Rightarrow> 'a safe_result" where
  "SafeCall name timeout gracePeriod c =
     (let deadline = timeout + gracePeriod;
          give_up = (case cancelled c of
             None \<Rightarrow> (deadline, timeout_error name)
           | Some (t, e) \<Rightarrow> if t < deadline then (t, Errorf e) else (deadline, timeout_error name))
      in case finish c of
           None \<Rightarrow> wait_failed (snd give_up)
         | Some (t, e) \<Rightarrow> if t \<le> fst give_up then call_result e else wait_failed (snd give_up))"

text \<open>\<open>ErrorOnPanic(e)\<close> reports \<open>Panic:\<close> and the value through the state object; \<open>errPrefix\<close> is the
  prefix that state object adds to its messages.\<close>

definition ErrorOnPanic :: "string \<Rightarrow> 'a safe_result \<Rightarrow> report list" where
  "ErrorOnPanic errPrefix r =
     (case sc_panic r of None \<Rightarrow> []
      | Some v \<Rightarrow> [RError \<lparr>Reason = errPrefix @ ''Panic: '' @ v, Location = None\<rparr>])"

fun has_error_report :: "report list \<Rightarrow> bool" where
  "has_error_report [] = False"
| "has_error_report (RLog m # rs) = has_error_report rs"
| "has_error_report (RError e # rs) = True"

text \<open>Passing reports on to the entity's output stream.\<close>

fun apply_reports :: "report list \<Rightarrow> EntityStream \<times> Stream \<Rightarrow> EntityStream \<times> Stream" where
  "apply_reports [] p = p"
| "apply_reports (RLog m # rs) p = apply_reports rs (es_log m p)"
| "apply_reports (RError e # rs) p = apply_reports rs (es_error e p)"

fun report_op :: "report \<Rightarrow> es_op" where
  "report_op (RLog m) = OLog m"
| "report_op (RError e) = OError e"

lemma apply_reports_run: "apply_reports rs p = es_run (map report_op rs) p"
  by (induction rs p rule: apply_reports.induct) simp_all

fun report_error :: "report \<Rightarrow> PError list" where
  "report_error (RLog m) = []"
| "report_error (RError e) = [e]"

lemma apply_reports_open:
  assumes "stream_open (fst p) (snd p)"
  shows "stream_open (fst (apply_reports rs p)) (snd (apply_reports rs p)) \<and>
     same_sessions (snd p) (snd (apply_reports rs p)) \<and>
     ei (fst (apply_reports rs p)) = ei (fst p) \<and>
     errs (fst (apply_reports rs p)) = errs (fst p) @ concat (map report_error rs)"
  using assms
proof (induction rs p rule: apply_reports.induct)
  case (2 m rs p)
  have "stream_open (fst (es_log m p)) (snd (es_log m p)) \<and> same_sessions (snd p) (snd (es_log m p)) \<and>
      errs (fst (es_log m p)) = errs (fst p) \<and> ei (fst (es_log m p)) = ei (fst p)"
    using es_report_open [OF 2(2), of "OLog m" m] es_step_frame(1) [of "OLog m" p] by simp
  with 2(1) show ?case by (auto intro: same_sessions_trans)
next
  case (3 e rs p)
  have "stream_open (fst (es_error e p)) (snd (es_error e p)) \<and> same_sessions (snd p) (snd (es_error e p)) \<and>
      errs (fst (es_error e p)) = errs (fst p) @ [e] \<and> ei (fst (es_error e p)) = ei (fst p)"
    using es_report_open [OF 3(2), of "OError e" _ e] es_step_frame(1) [of "OError e" p] by simp
  with 3(1) show ?case by (auto intro: same_sessions_trans)
qed simp_all

lemma apply_reports_trace:
  "EType (ei (fst p)) \<noteq> T \<Longrightarrow> trace_of T (snd (apply_reports rs p)) = trace_of T (snd p)"
proof (induction rs p rule: apply_reports.induct)
  case (2 m rs p)
  then show ?case using es_step_frame(1) [of "OLog m" p] by (simp add: es_trace)
next
  case (3 e rs p)
  then show ?case using es_step_frame(1) [of "OError e" p] by (simp add: es_trace)
qed simp

lemma starts_apply_reports [simp]: "starts (snd (apply_reports rs p)) = starts (snd p)"
  by (induction rs p rule: apply_reports.induct) simp_all

lemma apply_reports_extends: "extends (snd p) (snd (apply_reports rs p))"
  by (induction rs p rule: apply_reports.induct) (auto intro: extends_trans es_extends)

lemma has_error_report_iff: "has_error_report rs \<longleftrightarrow> concat (map report_error rs) \<noteq> []"
  by (induction rs rule: has_error_report.induct) simp_all

lemma has_error_report_append [simp]:
  "has_error_report (xs @ ys) = (has_error_report xs \<or> has_error_report ys)"
  by (simp add: has_error_report_iff)

lemma call_result_panic: "sc_panic (call_result e) = Some v \<Longrightarrow> sc_err (call_result e) = None"
  by (cases e) simp_all

lemma SafeCall_cases:
  "(\<exists>t e. finish c = Some (t, e) \<and> SafeCall n to g c = call_result e) \<or>
   (\<exists>err. SafeCall n to g c = wait_failed err)"
  by (auto simp: SafeCall_def Let_def split: option.split)

lemma call_result_no_bug: "sc_err (call_result x) = Some e \<Longrightarrow> \<not> is_bug e"
  by (cases x) auto

lemma SafeCall_no_bug: "sc_err (SafeCall n to g c) = Some e \<Longrightarrow> \<not> is_bug e"
  by (auto simp: SafeCall_def wait_failed_def timeout_error_def Let_def
      split: option.splits if_splits dest: call_result_no_bug)

lemma SafeCall_bugfree [simp]: "bugfree (sc_err (SafeCall n to g c))"
  by (cases "sc_err (SafeCall n to g c)") (simp_all add: SafeCall_no_bug)

lemma sc_panic_err: "sc_panic (SafeCall n t g c) = Some v \<Longrightarrow> sc_err (SafeCall n t g c) = None"
  by (auto simp: SafeCall_def Let_def wait_failed_def split: option.splits if_splits
      dest: call_result_panic)

subsection \<open>The race for the token\<close>

text \<open>
  The background goroutine: running \<open>f\<close>; \<open>f\<close> ended and \<open>recover\<close> was called; it took the token and
  handles a panic; it closed \<open>done\<close>.  The main goroutine: in the \<open>select\<close>; it left the \<open>select\<close>
  with \<open>waitErr\<close>; it lost the token and waits for \<open>done\<close>; it returned.
\<close>

datatype bg_pc = BRunning | BRecovered | BHandling | BDone
datatype main_pc = MSelect | MSelected "goerr option" | MJoin | MReturned "goerr option"

record race =
  token :: bool
  bg :: bg_pc
  main :: main_pc
  callErr :: "goerr option"
  ph_calls :: nat

definition race_init :: race where
  "race_init = \<lparr>token = False, bg = BRunning, main = MSelect, callErr = None, ph_calls = 0\<rparr>"

fun handle_end :: "'a uend \<Rightarrow> race \<Rightarrow> race" where
  "handle_end (UReturn x) s = s\<lparr>callErr := None\<rparr>"
| "handle_end UGoexit s = s\<lparr>callErr := None\<rparr>"
| "handle_end (UForced e) s = s\<lparr>callErr := Some (Errorf e)\<rparr>"
| "handle_end (UPanic v) s = s\<lparr>ph_calls := Suc (ph_calls s), callErr := None\<rparr>"

text \<open>\<open>e\<close> is how \<open>f\<close> ends, if it does.\<close>

inductive race_step :: "string \<Rightarrow> 'a uend \<Rightarrow> race \<Rightarrow> race \<Rightarrow> bool" for name e where
  f_ends: "bg s = BRunning \<Longrightarrow> race_step name e s (s\<lparr>bg := BRecovered\<rparr>)"
| finish_wins: "bg s = BRecovered \<Longrightarrow> \<not> token s \<Longrightarrow>
    race_step name e s (s\<lparr>token := True, bg := BHandling\<rparr>)"
| finish_loses: "bg s = BRecovered \<Longrightarrow> token s \<Longrightarrow> race_step name e s (s\<lparr>bg := BDone\<rparr>)"
| handled: "bg s = BHandling \<Longrightarrow> race_step name e s ((handle_end e s)\<lparr>bg := BDone\<rparr>)"
| sees_done: "main s = MSelect \<Longrightarrow> bg s = BDone \<Longrightarrow> race_step name e s (s\<lparr>main := MSelected None\<rparr>)"
| timer: "main s = MSelect \<Longrightarrow> race_step name e s (s\<lparr>main := MSelected (Some (timeout_error name))\<rparr>)"
| ctx_done: "main s = MSelect \<Longrightarrow> race_step name e s (s\<lparr>main := MSelected (Some err)\<rparr>)"
| timeout_wins: "main s = MSelected w \<Longrightarrow> \<not> token s \<Longrightarrow>
    race_step name e s (s\<lparr>token := True, main := MReturned w\<rparr>)"
| timeout_loses: "main s = MSelected w \<Longrightarrow> token s \<Longrightarrow> race_step name e s (s\<lparr>main := MJoin\<rparr>)"
| joined: "main s = MJoin \<Longrightarrow> bg s = BDone \<Longrightarrow>
    race_step name e s (s\<lparr>main := MReturned (callErr s)\<rparr>)"

inductive race_reach :: "string \<Rightarrow> 'a uend \<Rightarrow> race \<Rightarrow> bool" for name e where
  reach_init: "race_reach name e race_init"
| reach_step: "race_reach name e s \<Longrightarrow> race_step name e s t \<Longrightarrow> race_reach name e t"

text \<open>
  The invariant ties the token to its owner: it is free exactly while neither side has passed its
  \<open>takeToken\<close>; the panic handler runs only on the winning background goroutine, so \<open>callErr\<close> is
  final once that goroutine is done.
\<close>

fun end_err :: "'a uend \<Rightarrow> goerr option" where
  "end_err (UForced e) = Some (Errorf e)"
| "end_err x = None"

fun end_calls :: "'a uend \<Rightarrow> nat" where
  "end_calls (UPanic v) = 1"
| "end_calls x = 0"

definition bg_won :: "'a uend \<Rightarrow> race \<Rightarrow> bool" where
  "bg_won e s \<longleftrightarrow> token s \<and> (\<exists>r. main s = r \<and> (\<forall>w. r = MReturned w \<longrightarrow> w = end_err e \<and> bg s = BDone)) \<and>
     (bg s = BHandling \<and> callErr s = None \<and> ph_calls s = 0 \<or>
      bg s = BDone \<and> callErr s = end_err e \<and> ph_calls s = end_calls e)"

definition main_won :: "race \<Rightarrow> bool" where
  "main_won s \<longleftrightarrow> token s \<and> (\<exists>w. main s = MReturned (Some w)) \<and> bg s \<noteq> BHandling \<and>
     callErr s = None \<and> ph_calls s = 0"

definition race_inv :: "'a uend \<Rightarrow> race \<Rightarrow> bool" where
  "race_inv e s \<longleftrightarrow>
     (\<not> token s \<and> (bg s = BRunning \<or> bg s = BRecovered) \<and> callErr s = None \<and> ph_calls s = 0 \<and>
        (main s = MSelect \<or> (\<exists>w. main s = MSelected (Some w)))) \<or>
     bg_won e s \<or> main_won s"

lemma race_step_inv: "race_step name e s t \<Longrightarrow> race_inv e s \<Longrightarrow> race_inv e t"
proof (induction rule: race_step.induct)
  case (handled s)
  then show ?case by (cases e) (auto simp: race_inv_def bg_won_def main_won_def)
qed (auto simp: race_inv_def bg_won_def main_won_def)

lemma race_reach_inv: "race_reach name e s \<Longrightarrow> race_inv e s"
proof (induction rule: race_reach.induct)
  case reach_init
  show ?case by (simp add: race_inv_def race_init_def)
next
  case (reach_step s t)
  then show ?case by (blast intro: race_step_inv)
qed

text \<open>C13: However the two goroutines of \<open>SafeCall\<close> interleave, when it has returned: a nil result means
  the user function ended and any panic was handled before the return; a call that the main
  goroutine gave up on returns an error and its panic handler has not run and never will; the
  handler runs at most once, and exactly once when the background goroutine won with a panic.\<close>

theorem SafeCall_race:
  assumes "race_reach name e s" and "main s = MReturned r"
  shows "(r = None \<longrightarrow> bg s = BDone \<and> callErr s = None \<and> ph_calls s = end_calls e) \<and>
         (bg s = BRunning \<or> bg s = BRecovered \<longrightarrow> r \<noteq> None \<and> ph_calls s = 0) \<and>
         (ph_calls s \<le> 1) \<and>
         (ph_calls s = 1 \<longrightarrow> r = None)"
proof -
  have "race_inv e s" using assms(1) by (rule race_reach_inv)
  with assms(2) show ?thesis
    by (cases e) (auto simp: race_inv_def bg_won_def main_won_def)
qed

definition race_given_up :: "goerr \<Rightarrow> race" where
  "race_given_up err = race_init\<lparr>token := True, main := MReturned (Some err)\<rparr>"

lemma reach_given_up: "race_reach name e (race_given_up err)"
proof -
  have 1: "race_reach name e (race_init\<lparr>main := MSelected (Some err)\<rparr>)"
    by (rule reach_step [OF reach_init]) (rule ctx_done, simp add: race_init_def)
  show ?thesis
    using reach_step [OF 1 timeout_wins [of _ "Some err"]]
    by (simp add: race_given_up_def race_init_def)
qed

definition race_completed :: "'a uend \<Rightarrow> race" where
  "race_completed e = \<lparr>token = True, bg = BDone, main = MReturned (end_err e), callErr = end_err e,
     ph_calls = end_calls e\<rparr>"

lemma handle_end_eq:
  "handle_end e \<lparr>token = True, bg = BHandling, main = m, callErr = None, ph_calls = 0\<rparr> =
     \<lparr>token = True, bg = BHandling, main = m, callErr = end_err e, ph_calls = end_calls e\<rparr>"
  by (cases e) simp_all

lemma reach_completed: "race_reach name e (race_completed e)"
proof -
  let ?s = "\<lambda>t b m c n. \<lparr>token = t, bg = b, main = m, callErr = c, ph_calls = n\<rparr>"
  have 0: "race_reach name e (?s False BRunning MSelect None 0)"
    using reach_init by (simp add: race_init_def)
  have 1: "race_reach name e (?s False BRecovered MSelect None 0)"
    using reach_step [OF 0 f_ends] by simp
  have 2: "race_reach name e (?s True BHandling MSelect None 0)"
    using reach_step [OF 1 finish_wins] by simp
  have 3: "race_reach name e (?s True BDone MSelect (end_err e) (end_calls e))"
    using reach_step [OF 2 handled] by (simp add: handle_end_eq)
  have 4: "race_reach name e (?s True BDone (MSelected None) (end_err e) (end_calls e))"
    using reach_step [OF 3 sees_done] by simp
  have 5: "race_reach name e (?s True BDone MJoin (end_err e) (end_calls e))"
    using reach_step [OF 4 timeout_loses [of _ None]] by simp
  show ?thesis using reach_step [OF 5 joined] by (simp add: race_completed_def)
qed

theorem SafeCall_race_witness:
  "race_reach ''Test'' (UPanic ''boom'' :: unit uend) (race_completed (UPanic ''boom'' :: unit uend)) \<and>
   bg (race_completed (UPanic ''boom'' :: unit uend)) = BDone \<and>
   ph_calls (race_completed (UPanic ''boom'' :: unit uend)) = 1"
  using SafeCall_race [OF reach_completed [of "''Test''" "UPanic ''boom'' :: unit uend"], of None]
  by (simp add: reach_completed) (simp add: race_completed_def)

lemma sc_call_result: "sc_err (call_result e) = end_err e"
  "(if sc_panic (call_result e) = None then 0 else 1) = end_calls e"
  by (cases e; simp)+



lemma main_won_stable: "race_step name e s t \<Longrightarrow> main_won s \<Longrightarrow> main_won t"
  by (induction rule: race_step.induct) (auto simp: main_won_def)

text \<open>\<open>SafeCall\<close> cannot block for good: whatever the user function does, from every reachable state in
  which it has not returned, some step is possible that does not wait for the user function.\<close>

definition fw_step :: "string \<Rightarrow> 'a uend \<Rightarrow> race \<Rightarrow> race \<Rightarrow> bool" where
  "fw_step name e s t \<longleftrightarrow> race_step name e s t \<and> \<not> (bg s = BRunning \<and> bg t = BRecovered)"

lemma race_progress:
  assumes "race_reach name e s"
  shows "(\<exists>r. main s = MReturned r) \<or> (\<exists>t. fw_step name e s t)"
proof (cases "main s")
  case MSelect
  then have "fw_step name e s (s\<lparr>main := MSelected (Some (timeout_error name))\<rparr>)"
    by (simp add: fw_step_def race_step.timer)
  then show ?thesis by blast
next
  case (MSelected w)
  show ?thesis
  proof (cases "token s")
    case True
    then have "fw_step name e s (s\<lparr>main := MJoin\<rparr>)"
      using race_step.timeout_loses [OF MSelected] by (simp add: fw_step_def)
    then show ?thesis by blast
  next
    case False
    then have "fw_step name e s (s\<lparr>token := True, main := MReturned w\<rparr>)"
      using race_step.timeout_wins [OF MSelected] by (simp add: fw_step_def)
    then show ?thesis by blast
  qed
next
  case MJoin
  have "race_inv e s" using assms by (rule race_reach_inv)
  then have "bg s = BHandling \<or> bg s = BDone"
    using MJoin by (auto simp: race_inv_def bg_won_def main_won_def)
  then show ?thesis
  proof
    assume "bg s = BHandling"
    then have "fw_step name e s ((handle_end e s)\<lparr>bg := BDone\<rparr>)"
      by (simp add: fw_step_def race_step.handled)
    then show ?thesis by blast
  next
    assume "bg s = BDone"
    then have "fw_step name e s (s\<lparr>main := MReturned (callErr s)\<rparr>)"
      using race_step.joined [OF MJoin] by (simp add: fw_step_def)
    then show ?thesis by blast
  qed
next
  case (MReturned r)
  then show ?thesis by blast
qed

end
