(* ===== verification/OS.thy ===== *)
theory OS
  imports Prelude
begin

text \<open>
  The operating system, a parameter of the model: one function per system call the code makes, on an
  arbitrary type \<open>'w\<close> of worlds.  Queries read the world; commands return their result and the new
  world.  Errors are given by their message; the cases the code tells apart with \<open>os.IsNotExist\<close> and
  \<open>os.IsExist\<close> are constructors.  \<open>fs_laws\<close> states what the code relies on: a file that was removed
  does not exist, a file that was written or linked exists with that content, and other files are
  left alone.
\<close>

datatype stat_result = StatOk | StatNotExist | StatErr string
datatype open_result = OpenOk string | OpenNotExist | OpenErr string
datatype mkdir_result = MkOk | MkExist | MkErr string
datatype remove_result = RmOk | RmNotExist | RmErr string

record 'w os =
  os_Stat :: "'w \<Rightarrow> string \<Rightarrow> stat_result"
  os_Open :: "'w \<Rightarrow> string \<Rightarrow> open_result"               \<comment> \<open>opening and reading the whole file\<close>
  os_Walk :: "'w \<Rightarrow> string \<Rightarrow> string + string list"       \<comment> \<open>\<open>filepath.Walk\<close>: the paths visited\<close>
  os_MkdirAll :: "string \<Rightarrow> 'w \<Rightarrow> string option \<times> 'w"
  os_Mkdir :: "string \<Rightarrow> 'w \<Rightarrow> mkdir_result \<times> 'w"
  os_MkdirTemp :: "string \<Rightarrow> string \<Rightarrow> 'w \<Rightarrow> (string + string) \<times> 'w"
  os_Chmod :: "string \<Rightarrow> 'w \<Rightarrow> string option \<times> 'w"
  os_Remove :: "string \<Rightarrow> 'w \<Rightarrow> remove_result \<times> 'w"
  os_WriteFile :: "string \<Rightarrow> string \<Rightarrow> 'w \<Rightarrow> string option \<times> 'w"
  os_CreateTemp :: "string \<Rightarrow> string \<Rightarrow> 'w \<Rightarrow> (string + string) \<times> 'w"
  os_Close :: "string \<Rightarrow> 'w \<Rightarrow> string option \<times> 'w"
  os_Link :: "string \<Rightarrow> string \<Rightarrow> 'w \<Rightarrow> string option \<times> 'w"

definition os_ReadFile :: "'w os \<Rightarrow> 'w \<Rightarrow> string \<Rightarrow> string option" where
  "os_ReadFile os w p = (case os_Open os w p of OpenOk d \<Rightarrow> Some d | _ \<Rightarrow> None)"

text \<open>Only the file at \<open>p\<close> may look different in \<open>w'\<close>.\<close>

definition only_at :: "'w os \<Rightarrow> string set \<Rightarrow> 'w \<Rightarrow> 'w \<Rightarrow> bool" where
  "only_at os P w w' \<longleftrightarrow> (\<forall>p. p \<notin> P \<longrightarrow> os_Stat os w' p = os_Stat os w p \<and> os_Open os w' p = os_Open os w p)"

definition fs_laws :: "'w os \<Rightarrow> bool" where
  "fs_laws os \<longleftrightarrow>
     (\<forall>p w r w'. os_Remove os p w = (r, w') \<longrightarrow> only_at os {p} w w' \<and>
        (r = RmOk \<or> r = RmNotExist \<longrightarrow> os_Open os w' p = OpenNotExist \<and> os_Stat os w' p = StatNotExist) \<and>
        ((\<exists>e. r = RmErr e) \<longrightarrow> os_Open os w' p = os_Open os w p \<and> os_Stat os w' p = os_Stat os w p)) \<and>
     (\<forall>p d w r w'. os_WriteFile os p d w = (r, w') \<longrightarrow> only_at os {p} w w' \<and>
        (r = None \<longrightarrow> os_Open os w' p = OpenOk d \<and> os_Stat os w' p = StatOk)) \<and>
     (\<forall>d pat w p w'. os_CreateTemp os d pat w = (Inr p, w') \<longrightarrow> only_at os {p} w w' \<and>
        os_Open os w p = OpenNotExist) \<and>
     (\<forall>d pat w e w'. os_CreateTemp os d pat w = (Inl e, w') \<longrightarrow> only_at os {} w w') \<and>
     (\<forall>p w r w'. os_Chmod os p w = (r, w') \<longrightarrow> only_at os {} w w') \<and>
     (\<forall>p w r w'. os_Close os p w = (r, w') \<longrightarrow> only_at os {} w w') \<and>
     (\<forall>src dst w r w'. os_Link os src dst w = (r, w') \<longrightarrow> only_at os {dst} w w' \<and>
        (r = None \<longrightarrow> os_Open os w' dst = os_Open os w src))"

lemma only_at_refl [simp]: "only_at os P w w"
  by (simp add: only_at_def)

lemma only_at_trans: "only_at os P a b \<Longrightarrow> only_at os Q b c \<Longrightarrow> only_at os (P \<union> Q) a c"
  by (auto simp: only_at_def)

lemma only_at_mono: "only_at os P a b \<Longrightarrow> P \<subseteq> Q \<Longrightarrow> only_at os Q a b"
  by (auto simp: only_at_def)

text \<open>The laws one by one.\<close>

lemma fs_Remove:
  assumes "fs_laws os" and "os_Remove os p w = (r, w')"
  shows "only_at os {p} w w'"
    and "r = RmOk \<or> r = RmNotExist \<Longrightarrow> os_Open os w' p = OpenNotExist"
    and "r = RmErr e \<Longrightarrow> os_Open os w' p = os_Open os w p"
  using assms(1) [unfolded fs_laws_def, THEN conjunct1, rule_format, OF assms(2)] by blast+

lemma fs_WriteFile:
  assumes "fs_laws os" and "os_WriteFile os p d w = (r, w')"
  shows "only_at os {p} w w'" and "r = None \<Longrightarrow> os_Open os w' p = OpenOk d"
  using assms(1) [unfolded fs_laws_def, THEN conjunct2, THEN conjunct1, rule_format, OF assms(2)] by blast+

lemma fs_CreateTemp:
  assumes "fs_laws os" and "os_CreateTemp os d pat w = (Inr p, w')"
  shows "only_at os {p} w w'"
  using assms(1) [unfolded fs_laws_def, THEN conjunct2, THEN conjunct2, THEN conjunct1, rule_format, OF assms(2)]
  by blast

lemma fs_Close:
  assumes "fs_laws os" and "os_Close os p w = (r, w')"
  shows "only_at os {} w w'"
  using assms(1) [unfolded fs_laws_def, THEN conjunct2, THEN conjunct2, THEN conjunct2, THEN conjunct2,
      THEN conjunct2, THEN conjunct1, rule_format, OF assms(2)] .

lemma fs_Link:
  assumes "fs_laws os" and "os_Link os src dst w = (r, w')"
  shows "only_at os {dst} w w'" and "r = None \<Longrightarrow> os_Open os w' dst = os_Open os w src"
  using assms(1) [unfolded fs_laws_def, THEN conjunct2, THEN conjunct2, THEN conjunct2, THEN conjunct2,
      THEN conjunct2, THEN conjunct2, rule_format, OF assms(2)] by blast+

lemma only_at_Open: "only_at os P w w' \<Longrightarrow> p \<notin> P \<Longrightarrow> os_Open os w' p = os_Open os w p"
  by (simp add: only_at_def)

subsection \<open>Where data files are\<close>

definition RelativeDataDir :: "string \<Rightarrow> string" where
  "RelativeDataDir pkg = path_Join [pkg, ''data'']"

definition ExternalLinkSuffix :: string where
  "ExternalLinkSuffix = ''.external''"

definition ExternalErrorSuffix :: string where
  "ExternalErrorSuffix = ''.external-error''"

definition ExternalURLSuffix :: string where
  "ExternalURLSuffix = ''.external-url''"

end
