(* ===== verification/FixtStack.thy ===== *)
theory FixtStack
  imports Usercode OS
begin

text \<open>
  The fixture stack of a bundle, \<open>internal/planner/internal/fixture/internal_stack.go\<close> and
  \<open>stack.go\<close>, with the entity helpers of \<open>internal/planner/internal/entity/entity.go\<close>.

  A Go value of type \<open>interface\{\}\<close> that user code hands to the framework is a handle into the world
  (\<open>None\<close> is \<open>nil\<close>).  The operating system is a parameter (theory OS).  A method that mutates
  its receiver returns the new receiver; every method returns first the error it returns in Go
  (\<open>None\<close> is \<open>nil\<close>).  A \<open>panic\<close> of the framework itself, whose message starts with \<open>BUG:\<close>, is the
  error \<^const>\<open>BUG\<close>.
\<close>

type_synonym val = "nat option"

record 'w sys =
  world :: 'w
  out :: Stream

subsection \<open>Entities: \<open>PreCheck\<close> and \<open>CreateOutDir\<close>\<close>

text \<open>\<open>DataPath\<close> of a state object: the file in the data directory (the name is one of the declared
  ones, since \<open>PreCheck\<close> is called with exactly those).\<close>

definition DataPath :: "string \<Rightarrow> string \<Rightarrow> string" where
  "DataPath dataDir p = path_Join [dataDir, p]"

fun PreCheck :: "'w os \<Rightarrow> 'w \<Rightarrow> string \<Rightarrow> string list \<Rightarrow> report list" where
  "PreCheck os w dataDir [] = []"
| "PreCheck os w dataDir (fn # fns) =
     (let fp = DataPath dataDir fn in
      if os_Stat os w fp = StatOk then PreCheck os w dataDir fns
      else
        let ep = fp @ ExternalErrorSuffix;
            msg = (case os_ReadFile os w ep of
                Some d \<Rightarrow> ''Required data file '' @ fn @ '' missing: '' @ d
              | None \<Rightarrow> ''Required data file '' @ fn @ '' missing'')
        in RError \<lparr>Reason = msg, Location = None\<rparr> # PreCheck os w dataDir fns)"

definition CreateOutDir :: "'w os \<Rightarrow> string \<Rightarrow> string \<Rightarrow> 'w \<Rightarrow> string res \<times> 'w" where
  "CreateOutDir os baseDir name w =
     (if baseDir = [] then (Inr [], w)
      else case os_MkdirAll os baseDir w of
        (Some e, w1) \<Rightarrow> (Inl (Errorf e), w1)
      | (None, w1) \<Rightarrow>
          let (dir, w2) =
            (case os_Mkdir os (path_Join [baseDir, name]) w1 of
               (MkOk, w2) \<Rightarrow> (Inr (path_Join [baseDir, name]), w2)
             | (MkExist, w2) \<Rightarrow> os_MkdirTemp os baseDir (name @ ''.'') w2
             | (MkErr e, w2) \<Rightarrow> (Inl e, w2))
          in case dir of
               Inl e \<Rightarrow> (Inl (Errorf e), w2)
             | Inr outDir \<Rightarrow>
                 (case os_Chmod os outDir w2 of
                    (Some e, w3) \<Rightarrow> (Inl (Errorf e), w3)
                  | (None, w3) \<Rightarrow> (Inr outDir, w3)))"

subsection \<open>Fixtures\<close>

datatype Status = StatusRed | StatusGreen | StatusYellow

fun Status_String :: "Status \<Rightarrow> string" where
  "Status_String StatusRed = ''red''"
| "Status_String StatusGreen = ''green''"
| "Status_String StatusYellow = ''yellow''"

text \<open>The part of \<open>testing.RuntimeConfig\<close> that the framework computes; variables, features and
  clients are passed through to user code unchanged and are part of its world.\<close>

record RuntimeConfig =
  rDataDir :: string
  rOutDir :: string
  rFixtValue :: val

record 'w FixtureImpl =
  iSetUp :: "RuntimeConfig \<Rightarrow> ('w, val) ucode"
  iReset :: "('w, goerr option) ucode"
  iPreTest :: "RuntimeConfig \<Rightarrow> string \<Rightarrow> ('w, unit) ucode"
  iPostTest :: "RuntimeConfig \<Rightarrow> string \<Rightarrow> ('w, unit) ucode"
  iTearDown :: "RuntimeConfig \<Rightarrow> ('w, unit) ucode"

record 'w FixtureInstance =
  fPkg :: string
  fName :: string
  fParent :: string
  fImpl :: "'w FixtureImpl"
  fSetUpTimeout :: int
  fResetTimeout :: int
  fPreTestTimeout :: int
  fPostTestTimeout :: int
  fTearDownTimeout :: int
  fData :: "string list"

definition fixt_EntityProto :: "'w FixtureInstance \<Rightarrow> Entity" where
  "fixt_EntityProto f = \<lparr>EType = FIXTURE, EName = fName f, EPackage = fPkg f, EFixture = fParent f,
     EDataFiles = fData f\<rparr>"

record FixtConfig =
  cDataDir :: string
  cOutDir :: string
  cStartFixtureName :: string
  cGracePeriod :: int

record 'w statefulFixture =
  fixt :: "'w FixtureInstance"
  root_cfg :: RuntimeConfig
  root_err :: bool            \<comment> \<open>\<open>root.condition\<close>\<close>
  fout :: EntityStream
  status :: Status
  sf_errs :: "PError list"
  sf_val :: val

definition newStatefulFixture :: "'w FixtureInstance \<Rightarrow> RuntimeConfig \<Rightarrow> EntityStream \<Rightarrow> 'w statefulFixture" where
  "newStatefulFixture fi root fo =
     \<lparr>fixt = fi, root_cfg = root, root_err = False, fout = fo, status = StatusRed, sf_errs = [],
      sf_val = None\<rparr>"

definition FixtureFailure :: string where
  "FixtureFailure = ''[Fixture failure]''"

definition rewriteErrorsForTest :: "PError list \<Rightarrow> string \<Rightarrow> PError list" where
  "rewriteErrorsForTest es fixtureName =
     map (\<lambda>e. let reason = Reason e in
       \<lparr>Reason = (if \<not> HasPrefix reason FixtureFailure
           then FixtureFailure @ '' '' @ fixtureName @ '': '' @ reason else reason),
        Location = Location e\<rparr>) es"

text \<open>\<open>usercode.SafeCall(ctx, name, timeout, grace, usercode.ErrorOnPanic(s), f)\<close> where the state
  object \<open>s\<close> reports to an entity stream: the result, whether \<open>s\<close> recorded an error, and the new
  states.\<close>

definition run_user ::
  "string \<Rightarrow> int \<Rightarrow> int \<Rightarrow> string \<Rightarrow> ('w, 'a) ucall \<Rightarrow> EntityStream \<Rightarrow> 'w sys \<Rightarrow>
     'a safe_result \<times> bool \<times> EntityStream \<times> 'w sys" where
  "run_user name timeout grace errPrefix c es s =
     (let r = SafeCall name timeout grace c;
          rs = reports c @ ErrorOnPanic errPrefix r;
          (es', out') = apply_reports rs (es, out s)
      in (r, has_error_report rs, es', s\<lparr>world := uworld c, out := out'\<rparr>))"

subsubsection \<open>Life cycle methods\<close>

definition setup_name :: "FixtConfig \<Rightarrow> 'w FixtureInstance \<Rightarrow> string" where
  "setup_name cfg fi = (if fName fi = [] then cStartFixtureName cfg else fName fi)"

definition setup_call :: "'w os \<Rightarrow> 'w statefulFixture \<Rightarrow> 'w \<Rightarrow> ('w, val) ucall" where
  "setup_call os f w =
     (let pre = PreCheck os w (rDataDir (root_cfg f)) (fData (fixt f)) in
      if root_err f \<or> has_error_report pre
      then \<lparr>reports = pre, finish = Some (0, UReturn None), cancelled = None, uworld = w\<rparr>
      else let c = iSetUp (fImpl (fixt f)) (root_cfg f) w in c\<lparr>reports := pre @ reports c\<rparr>)"

definition RunSetUp ::
  "'w os \<Rightarrow> FixtConfig \<Rightarrow> 'w statefulFixture \<Rightarrow> 'w sys \<Rightarrow> goerr option \<times> 'w statefulFixture \<times> 'w sys" where
  "RunSetUp os cfg f s =
     (if status f \<noteq> StatusRed then (Some (BUG ''RunSetUp called for a non-red fixture''), f, s)
      else
        let name = fName (fixt f) @ '':SetUp'';
            (fo1, o1) = es_start (rOutDir (root_cfg f)) (fout f, out s);
            (r, he, fo2, s2) = run_user name (fSetUpTimeout (fixt f)) (cGracePeriod cfg) []
               (setup_call os f (world s)) fo1 (s\<lparr>out := o1\<rparr>);
            f2 = f\<lparr>fout := fo2, root_err := root_err f \<or> he\<rparr>
        in case sc_err r of
             Some e \<Rightarrow> (Some e, f2, s2)
           | None \<Rightarrow>
               let es = rewriteErrorsForTest (es_Errors fo2) (setup_name cfg (fixt f));
                   f3 = f2\<lparr>sf_errs := es\<rparr>
               in if es \<noteq> [] then
                    let (fo4, o4) = es_end [] (fo2, out s2) in (None, f3\<lparr>fout := fo4\<rparr>, s2\<lparr>out := o4\<rparr>)
                  else
                    (None, f3\<lparr>status := StatusGreen,
                              sf_val := (case sc_ret r of Some v \<Rightarrow> v | None \<Rightarrow> None)\<rparr>, s2))"

definition RunTearDown ::
  "FixtConfig \<Rightarrow> 'w statefulFixture \<Rightarrow> 'w sys \<Rightarrow> goerr option \<times> 'w statefulFixture \<times> 'w sys" where
  "RunTearDown cfg f s =
     (if status f = StatusRed then (Some (BUG ''RunTearDown called for a red fixture''), f, s)
      else
        let name = fName (fixt f) @ '':TearDown'';
            (r, he, fo2, s2) = run_user name (fTearDownTimeout (fixt f)) (cGracePeriod cfg) []
               (iTearDown (fImpl (fixt f)) (root_cfg f) (world s)) (fout f) s;
            f2 = f\<lparr>fout := fo2, root_err := root_err f \<or> he\<rparr>
        in case sc_err r of
             Some e \<Rightarrow> (Some e, f2, s2)
           | None \<Rightarrow>
               let (fo3, o3) = es_end [] (fo2, out s2)
               in (None, f2\<lparr>fout := fo3, status := StatusRed, sf_val := None\<rparr>, s2\<lparr>out := o3\<rparr>))"

text \<open>\<open>Reset\<close> gets no state object: its error is its return value, or the panic value.  Log messages it
  emits through its context reach the fixture's stream.\<close>

definition log_reports :: "report list \<Rightarrow> report list" where
  "log_reports rs = filter (\<lambda>r. case r of RLog m \<Rightarrow> True | RError e \<Rightarrow> False) rs"

definition RunReset ::
  "FixtConfig \<Rightarrow> 'w statefulFixture \<Rightarrow> 'w sys \<Rightarrow> goerr option \<times> 'w statefulFixture \<times> 'w sys" where
  "RunReset cfg f s =
     (if status f \<noteq> StatusGreen then (Some (BUG ''RunReset called for a non-green fixture''), f, s)
      else
        let name = fName (fixt f) @ '':Reset'';
            c = iReset (fImpl (fixt f)) (world s);
            r = SafeCall name (fResetTimeout (fixt f)) (cGracePeriod cfg) c;
            (fo1, o1) = apply_reports (log_reports (reports c)) (fout f, out s);
            f1 = f\<lparr>fout := fo1\<rparr>;
            s1 = s\<lparr>world := uworld c, out := o1\<rparr>;
            resetErr = (case sc_panic r of Some v \<Rightarrow> Some (Errorf (''panic: '' @ v))
              | None \<Rightarrow> (case sc_ret r of Some e \<Rightarrow> e | None \<Rightarrow> None))
        in case sc_err r of
             Some e \<Rightarrow> (Some e, f1, s1)
           | None \<Rightarrow>
               (case resetErr of
                  Some e \<Rightarrow>
                    let (fo2, o2) = es_log (''Fixture failed to reset: '' @ err_msg e @ ''; recovering'')
                        (fo1, out s1)
                    in (None, f1\<lparr>fout := fo2, status := StatusYellow\<rparr>, s1\<lparr>out := o2\<rparr>)
                | None \<Rightarrow> (None, f1, s1)))"

text \<open>The state shared by the pre-test and post-test hooks of one test: the test's stream, its
  \<open>EntityCondition\<close> and the system.\<close>

record 'w trun =
  tout :: EntityStream
  condition :: bool
  tsys :: "'w sys"

definition run_test_user ::
  "string \<Rightarrow> int \<Rightarrow> int \<Rightarrow> string \<Rightarrow> ('w, 'a) ucode \<Rightarrow> 'w trun \<Rightarrow> 'a safe_result \<times> 'w trun" where
  "run_test_user name timeout grace errPrefix f t =
     (let (r, he, to, s) = run_user name timeout grace errPrefix (f (world (tsys t))) (tout t) (tsys t)
      in (r, t\<lparr>tout := to, condition := condition t \<or> he, tsys := s\<rparr>))"

text \<open>The closure \<open>RunPreTest\<close> returns: nothing to do, or \<open>runPostTest\<close> with the captured config.\<close>

datatype hook = DoNothing | PostTest RuntimeConfig string

definition RunPreTest ::
  "FixtConfig \<Rightarrow> 'w statefulFixture \<Rightarrow> RuntimeConfig \<Rightarrow> string \<Rightarrow> 'w trun \<Rightarrow> hook res \<times> 'w trun" where
  "RunPreTest cfg f rcfg testName t =
     (if status f \<noteq> StatusGreen then (Inl (BUG (''RunPreTest called for a '' @ Status_String (status f) @ '' fixture'')), t)
      else if condition t then (Inr DoNothing, t)
      else
        let (r, t1) = run_test_user (fName (fixt f) @ '':PreTest'') (fPreTestTimeout (fixt f))
               (cGracePeriod cfg) [] (iPreTest (fImpl (fixt f)) rcfg testName) t
        in case sc_err r of
             Some e \<Rightarrow> (Inl e, t1)
           | None \<Rightarrow> if condition t1 then (Inr DoNothing, t1) else (Inr (PostTest rcfg testName), t1))"

definition runPostTest ::
  "FixtConfig \<Rightarrow> 'w statefulFixture \<Rightarrow> RuntimeConfig \<Rightarrow> string \<Rightarrow> 'w trun \<Rightarrow> goerr option \<times> 'w trun" where
  "runPostTest cfg f rcfg testName t =
     (if status f \<noteq> StatusGreen then (Some (BUG (''RunPostTest called for a '' @ Status_String (status f) @ '' fixture'')), t)
      else
        let (r, t1) = run_test_user (fName (fixt f) @ '':PostTest'') (fPostTestTimeout (fixt f))
               (cGracePeriod cfg) [] (iPostTest (fImpl (fixt f)) rcfg testName) t
        in (sc_err r, t1))"

fun run_hook :: "FixtConfig \<Rightarrow> 'w statefulFixture \<Rightarrow> hook \<Rightarrow> 'w trun \<Rightarrow> goerr option \<times> 'w trun" where
  "run_hook cfg f DoNothing t = (None, t)"
| "run_hook cfg f (PostTest rcfg testName) t = runPostTest cfg f rcfg testName t"

subsection \<open>The stack\<close>

record 'w InternalStack =
  stack :: "'w statefulFixture list"       \<comment> \<open>root to leaf\<close>
  dirty :: bool

definition NewInternalStack :: "'w InternalStack" where
  "NewInternalStack = \<lparr>stack = [], dirty = False\<rparr>"

fun first_not_green :: "'w statefulFixture list \<Rightarrow> Status" where
  "first_not_green [] = StatusGreen"
| "first_not_green (f # fs) = (if status f \<noteq> StatusGreen then status f else first_not_green fs)"

definition is_Status :: "'w InternalStack \<Rightarrow> Status" where
  "is_Status st = first_not_green (stack st)"

fun first_red_errors :: "'w statefulFixture list \<Rightarrow> PError list" where
  "first_red_errors [] = []"
| "first_red_errors (f # fs) = (if status f = StatusRed then sf_errs f else first_red_errors fs)"

definition is_Errors :: "'w InternalStack \<Rightarrow> PError list" where
  "is_Errors st = first_red_errors (stack st)"

definition is_Val :: "'w InternalStack \<Rightarrow> val" where
  "is_Val st =
     (if stack st = [] then None
      else if is_Status st = StatusRed then None
      else sf_val (last (stack st)))"

text \<open>\<open>json.Marshal\<close> is a parameter: it reads the value in the world.\<close>

definition is_SerializedVal ::
  "('w \<Rightarrow> val \<Rightarrow> string res) \<Rightarrow> 'w \<Rightarrow> 'w InternalStack \<Rightarrow> string option res" where
  "is_SerializedVal marshal w st =
     (if stack st = [] then Inr None
      else if is_Status st = StatusRed then Inr None
      else case marshal w (sf_val (last (stack st))) of
             Inl e \<Rightarrow> Inl (Wrap (''failed to serialize value from fixture '' @
                 fName (fixt (last (stack st)))) e)
           | Inr d \<Rightarrow> Inr (Some d))"

text \<open>\<open>strings.Split(s, sep)[0]\<close>: what precedes the first occurrence of the separator.\<close>

fun before :: "string \<Rightarrow> string \<Rightarrow> string" where
  "before sep [] = []"
| "before sep (c # s) = (if HasPrefix (c # s) sep then [] else c # before sep s)"

definition newRuntimeConfig ::
  "FixtConfig \<Rightarrow> 'w InternalStack \<Rightarrow> string \<Rightarrow> 'w FixtureInstance \<Rightarrow> RuntimeConfig" where
  "newRuntimeConfig cfg st outDir fi =
     (let dataDir =
        (if ContainsStr (cDataDir cfg) ''/src/platform/'' \<and> ContainsStr (cDataDir cfg) ''private'' \<and>
            ContainsStr (fPkg fi) ''go.chromium.org/tast-tests/cros/''
         then path_Join [before ''/src/platform/'' (cDataDir cfg), ''src/platform/tast-tests/src'']
         else cDataDir cfg)
      in \<lparr>rDataDir = path_Join [dataDir, RelativeDataDir (fPkg fi)], rOutDir = outDir,
          rFixtValue = is_Val st\<rparr>)"

definition is_Push ::
  "'w os \<Rightarrow> FixtConfig \<Rightarrow> 'w FixtureInstance \<Rightarrow> 'w InternalStack \<Rightarrow> 'w sys \<Rightarrow>
     goerr option \<times> 'w InternalStack \<times> 'w sys" where
  "is_Push os cfg fi st s =
     (if is_Status st = StatusYellow
      then (Some (BUG ''fixture must not be pushed to a yellow stack''), st, s)
      else
        let (dir, w1) = (if fName fi \<noteq> [] then CreateOutDir os (cOutDir cfg) (fName fi) (world s)
                         else (Inr [], world s));
            s1 = s\<lparr>world := w1\<rparr>
        in case dir of
             Inl e \<Rightarrow> (Some e, st, s1)
           | Inr outDir \<Rightarrow>
               let f = newStatefulFixture fi (newRuntimeConfig cfg st outDir fi)
                         (NewEntityStream (fixt_EntityProto fi))
               in if is_Status st = StatusGreen then
                    let (e, f', s') = RunSetUp os cfg f s1
                    in (e, st\<lparr>stack := stack st @ [f']\<rparr>, s')
                  else (None, st\<lparr>stack := stack st @ [f]\<rparr>, s1))"

definition is_Pop ::
  "FixtConfig \<Rightarrow> 'w InternalStack \<Rightarrow> 'w sys \<Rightarrow> goerr option \<times> 'w InternalStack \<times> 'w sys" where
  "is_Pop cfg st s =
     (if stack st = [] then (Some (BUG ''top called for an empty stack''), st, s)
      else
        let f = last (stack st); st' = st\<lparr>stack := butlast (stack st)\<rparr> in
        if status f \<noteq> StatusRed then
          let (e, f', s') = RunTearDown cfg f s in (e, st', s')
        else (None, st', s))"

fun reset_fixtures ::
  "FixtConfig \<Rightarrow> 'w statefulFixture list \<Rightarrow> 'w sys \<Rightarrow> goerr option \<times> 'w statefulFixture list \<times> 'w sys" where
  "reset_fixtures cfg [] s = (None, [], s)"
| "reset_fixtures cfg (f # fs) s =
     (case RunReset cfg f s of
        (Some e, f', s') \<Rightarrow> (Some e, f' # fs, s')
      | (None, f', s') \<Rightarrow>
          (case status f' of
             StatusGreen \<Rightarrow> (let (e, fs', s'') = reset_fixtures cfg fs s' in (e, f' # fs', s''))
           | StatusRed \<Rightarrow> (Some (BUG ''fixture is red after calling Reset''), f' # fs, s')
           | StatusYellow \<Rightarrow> (None, f' # fs, s')))"

definition is_Reset ::
  "FixtConfig \<Rightarrow> 'w InternalStack \<Rightarrow> 'w sys \<Rightarrow> goerr option \<times> 'w InternalStack \<times> 'w sys" where
  "is_Reset cfg st s =
     (let st1 = st\<lparr>dirty := False\<rparr> in
      case is_Status st1 of
        StatusGreen \<Rightarrow>
          (let (e, fs, s') = reset_fixtures cfg (stack st1) s in (e, st1\<lparr>stack := fs\<rparr>, s'))
      | StatusRed \<Rightarrow> (None, st1, s)
      | StatusYellow \<Rightarrow> (Some (BUG ''Reset called for a yellow fixture stack''), st1, s))"

fun pre_tests ::
  "FixtConfig \<Rightarrow> ('w FixtureInstance \<Rightarrow> RuntimeConfig) \<Rightarrow> string \<Rightarrow> 'w statefulFixture list \<Rightarrow> 'w trun \<Rightarrow>
     hook list res \<times> 'w trun" where
  "pre_tests cfg rc testName [] t = (Inr [], t)"
| "pre_tests cfg rc testName (f # fs) t =
     (case RunPreTest cfg f (rc (fixt f)) testName t of
        (Inl e, t1) \<Rightarrow> (Inl e, t1)
      | (Inr h, t1) \<Rightarrow>
          (case pre_tests cfg rc testName fs t1 of
             (Inl e, t2) \<Rightarrow> (Inl e, t2)
           | (Inr hs, t2) \<Rightarrow> (Inr (h # hs), t2)))"

definition is_PreTest ::
  "FixtConfig \<Rightarrow> string \<Rightarrow> string \<Rightarrow> 'w InternalStack \<Rightarrow> 'w trun \<Rightarrow> hook list res \<times> 'w trun" where
  "is_PreTest cfg outDir testName st t =
     (if is_Status st \<noteq> StatusGreen then (Inl (BUG (''PreTest called for a '' @ Status_String (is_Status st) @ '' fixture'')), t)
      else pre_tests cfg (newRuntimeConfig cfg st outDir) testName (stack st) t)"

text \<open>The returned closure: post-test hooks run in the reverse order of the pre-test hooks.\<close>

fun post_tests :: "FixtConfig \<Rightarrow> ('w statefulFixture \<times> hook) list \<Rightarrow> 'w trun \<Rightarrow> goerr option \<times> 'w trun" where
  "post_tests cfg [] t = (None, t)"
| "post_tests cfg ((f, h) # fhs) t =
     (case run_hook cfg f h t of
        (Some e, t1) \<Rightarrow> (Some e, t1)
      | (None, t1) \<Rightarrow> post_tests cfg fhs t1)"

definition is_PostTest ::
  "FixtConfig \<Rightarrow> hook list \<Rightarrow> 'w InternalStack \<Rightarrow> 'w trun \<Rightarrow> goerr option \<times> 'w trun" where
  "is_PostTest cfg hooks st t =
     (if is_Status st \<noteq> StatusGreen then (Some (BUG (''PostTest called for a '' @ Status_String (is_Status st) @ '' fixture'')), t)
      else post_tests cfg (rev (zip (stack st) hooks)) t)"

definition is_MarkDirty :: "'w InternalStack \<Rightarrow> goerr option \<times> 'w InternalStack" where
  "is_MarkDirty st =
     (if dirty st then (Some (BUG ''MarkDirty called for a dirty stack''), st)
      else (None, st\<lparr>dirty := True\<rparr>))"

subsection \<open>Calls of user code through a stream\<close>

lemma run_user_open:
  assumes "run_user n to g pre c es s = (r, he, es', s')" and "stream_open es (out s)"
  shows "r = SafeCall n to g c" and "stream_open es' (out s')" and "same_sessions (out s) (out s')"
    and "ei es' = ei es" and "\<exists>pes. errs es' = errs es @ pes \<and> (he \<longleftrightarrow> pes \<noteq> [])"
    and "EType (ei es) \<noteq> T \<Longrightarrow> trace_of T (out s') = trace_of T (out s)"
  using assms apply_reports_open [of "(es, out s)" "reports c @ ErrorOnPanic pre (SafeCall n to g c)"]
    apply_reports_trace [of "(es, out s)" T "reports c @ ErrorOnPanic pre (SafeCall n to g c)"]
  by (auto simp: run_user_def Let_def has_error_report_iff split: prod.splits)

lemma run_user_res: "fst (run_user n to g pre c es s) = SafeCall n to g c"
  by (simp add: run_user_def Let_def split: prod.splits)

lemma run_user_starts: "run_user n to g pre c es s = (r, he, es', s') \<Longrightarrow> starts (out s') = starts (out s)"
  using starts_apply_reports [of "reports c @ ErrorOnPanic pre (SafeCall n to g c)" "(es, out s)"]
  by (auto simp: run_user_def Let_def simp del: starts_apply_reports split: prod.splits)

lemma run_user_extends: "run_user n to g pre c es s = (r, he, es', s') \<Longrightarrow> extends (out s) (out s')"
  using apply_reports_extends [of "(es, out s)" "reports c @ ErrorOnPanic pre (SafeCall n to g c)"]
  by (auto simp: run_user_def Let_def split: prod.splits)

lemma CreateOutDir_no_bug: "CreateOutDir os b n w = (Inl e, w') \<Longrightarrow> \<not> is_bug e"
  by (auto simp: CreateOutDir_def Let_def split: if_splits prod.splits option.splits sum.splits)

subsection \<open>Invariant of one fixture\<close>

definition proto :: "'w statefulFixture \<Rightarrow> Entity" where
  "proto f = fixt_EntityProto (fixt f)"

lemma proto_simps [simp]: "EType (fixt_EntityProto fi) = FIXTURE" "EName (fixt_EntityProto fi) = fName fi"
  by (simp_all add: fixt_EntityProto_def)

definition fixture_ok :: "Stream \<Rightarrow> 'w statefulFixture \<Rightarrow> bool" where
  "fixture_ok sn f \<longleftrightarrow> ei (fout f) = proto f \<and>
     (status f \<noteq> StatusRed \<longrightarrow> stream_open (fout f) sn \<and> sf_errs f = []) \<and>
     (status f = StatusRed \<longrightarrow> sf_val f = None)"

text \<open>Setting up a new fixture: it becomes green with an open session, or stays red with errors to
  report and a session that was opened and closed; other sessions are untouched.\<close>

definition set_session :: "Entity \<Rightarrow> bool \<Rightarrow> Stream \<Rightarrow> Stream \<Rightarrow> bool" where
  "set_session p b sn sn' \<longleftrightarrow>
     (\<forall>e. EName e \<noteq> [] \<longrightarrow> session e (sent sn') = (if e = p then Some b else session e (sent sn)))"

lemma RunSetUp_new:
  assumes "RunSetUp os cfg (newStatefulFixture fi root (NewEntityStream (fixt_EntityProto fi))) s = (err, f', s')"
    and "fName fi \<noteq> [] \<longrightarrow> session (fixt_EntityProto fi) (sent (out s)) = Some False"
  shows "bugfree err" and "fixt f' = fi" and "trace_of TEST (out s') = trace_of TEST (out s)"
    and "err \<noteq> None \<Longrightarrow> status f' = StatusRed"
    and "err = None \<Longrightarrow> fixture_ok (out s') f' \<and> (status f' = StatusRed \<longrightarrow> sf_errs f' \<noteq> []) \<and>
           status f' \<noteq> StatusYellow \<and>
           set_session (fixt_EntityProto fi) (status f' = StatusGreen) (out s) (out s')"
proof -
  let ?f = "newStatefulFixture fi root (NewEntityStream (fixt_EntityProto fi))"
  let ?es = "NewEntityStream (fixt_EntityProto fi)"
  let ?p1 = "es_start (rOutDir root) (?es, out s)"
  have es: "\<not> ended ?es" "ei ?es = fixt_EntityProto fi" by (simp_all add: NewEntityStream_def)
  note start = es_start_session [where es = ?es and out = "out s" and d = "rOutDir root", simplified es proto_simps,
      simplified, OF assms(2)]
  obtain r he fo2 s2 where ru: "run_user (fName fi @ '':SetUp'') (fSetUpTimeout fi) (cGracePeriod cfg) []
      (setup_call os ?f (world s)) (fst ?p1) (s\<lparr>out := snd ?p1\<rparr>) = (r, he, fo2, s2)"
    by (metis prod_cases4)
  have op1: "stream_open (fst ?p1) (out (s\<lparr>out := snd ?p1\<rparr>))" using start(1) by simp
  note u = run_user_open [OF ru op1]
  have tr: "trace_of TEST (out s2) = trace_of TEST (out s)"
    using u(6) [of TEST] start(3) es es_trace(1) [of "(?es, out s)" TEST "rOutDir root"] by simp
  have ei2: "ei fo2 = fixt_EntityProto fi" using u(4) start(3) es by simp
  note eu = es_end_session [OF u(2), where rs = "[]"]
  have res: "(err, f', s') = (let f2 = ?f\<lparr>fout := fo2, root_err := root_err ?f \<or> he\<rparr> in case sc_err r of
             Some e \<Rightarrow> (Some e, f2, s2)
           | None \<Rightarrow>
               let es = rewriteErrorsForTest (es_Errors fo2) (setup_name cfg fi);
                   f3 = f2\<lparr>sf_errs := es\<rparr>
               in if es \<noteq> [] then
                    let (fo4, o4) = es_end [] (fo2, out s2) in (None, f3\<lparr>fout := fo4\<rparr>, s2\<lparr>out := o4\<rparr>)
                  else
                    (None, f3\<lparr>status := StatusGreen,
                              sf_val := (case sc_ret r of Some v \<Rightarrow> v | None \<Rightarrow> None)\<rparr>, s2))"
    unfolding assms(1) [symmetric] using ru
    by (simp add: RunSetUp_def newStatefulFixture_def Let_def split_beta cong: option.case_cong)
  show "bugfree err" using res u(1)
    by (cases "sc_err r") (auto simp: Let_def SafeCall_no_bug split_beta split: if_splits)
  show "fixt f' = fi" using res
    by (cases "sc_err r") (auto simp: Let_def newStatefulFixture_def split_beta split: if_splits)
  show "trace_of TEST (out s') = trace_of TEST (out s)"
    using res tr es_trace(4) [of "(fo2, out s2)" TEST "[]"] ei2
    by (cases "sc_err r") (auto simp: Let_def split_beta split: if_splits)
  show "err \<noteq> None \<Longrightarrow> status f' = StatusRed"
    using res by (cases "sc_err r") (auto simp: Let_def newStatefulFixture_def split_beta split: if_splits)
  show "err = None \<Longrightarrow> fixture_ok (out s') f' \<and> (status f' = StatusRed \<longrightarrow> sf_errs f' \<noteq> []) \<and>
           status f' \<noteq> StatusYellow \<and>
           set_session (fixt_EntityProto fi) (status f' = StatusGreen) (out s) (out s')"
    using res u(2,3) ei2 eu start(2)
    by (cases "sc_err r")
      (auto simp: Let_def split_beta newStatefulFixture_def fixture_ok_def proto_def set_session_def same_sessions_def
        split: if_splits)
qed

text \<open>\<open>RunSetUp\<close> of a named fixture always reports the start of the fixture.\<close>

lemma RunSetUp_starts:
  assumes "RunSetUp os cfg f s = (err, f', s')" and "status f = StatusRed" and "\<not> ended (fout f)"
    and "EName (ei (fout f)) \<noteq> []"
  shows "EntityStart (ei (fout f)) (rOutDir (root_cfg f)) \<in> set (sent (out s'))"
proof -
  let ?p1 = "es_start (rOutDir (root_cfg f)) (fout f, out s)"
  obtain r he fo2 s2 where ru: "run_user (fName (fixt f) @ '':SetUp'') (fSetUpTimeout (fixt f)) (cGracePeriod cfg) []
      (setup_call os f (world s)) (fst ?p1) (s\<lparr>out := snd ?p1\<rparr>) = (r, he, fo2, s2)"
    by (metis prod_cases4)
  have start: "EntityStart (ei (fout f)) (rOutDir (root_cfg f)) \<in> set (sent (snd ?p1))"
    using assms(3,4) by (simp add: es_defs)
  have "extends (snd ?p1) (out s2)" using run_user_extends [OF ru] by simp
  moreover have "extends (out s2) (out s')"
    using assms(1,2) ru es_extends(4) [of "(fo2, out s2)" "[]"]
    by (auto simp: RunSetUp_def Let_def split_beta split: option.splits if_splits)
  ultimately show ?thesis using start extends_mem by blast
qed

lemma RunTearDown_spec:
  assumes "RunTearDown cfg f s = (err, f', s')" and "fixture_ok (out s) f" and "status f \<noteq> StatusRed"
  shows "bugfree err" and "trace_of TEST (out s') = trace_of TEST (out s)"
    and "err = None \<Longrightarrow> set_session (proto f) False (out s) (out s') \<and> status f' = StatusRed"
proof -
  obtain r he fo2 s2 where ru: "run_user (fName (fixt f) @ '':TearDown'') (fTearDownTimeout (fixt f))
      (cGracePeriod cfg) [] (iTearDown (fImpl (fixt f)) (root_cfg f) (world s)) (fout f) s = (r, he, fo2, s2)"
    by (metis prod_cases4)
  have op: "stream_open (fout f) (out s)" "ei (fout f) = proto f"
    using assms(2,3) by (simp_all add: fixture_ok_def)
  note u = run_user_open [OF ru op(1)]
  have tr: "trace_of TEST (out s2) = trace_of TEST (out s)" "ei fo2 = proto f"
    using u(6) [of TEST] u(4) op(2) by (simp_all add: proto_def)
  note eu = es_end_session [OF u(2), where rs = "[]"]
  note res = assms(1) [unfolded RunTearDown_def Let_def, simplified assms(3) ru split_beta, simplified]
  show "bugfree err" using res u(1)
    by (cases "sc_err r") (auto simp: SafeCall_no_bug)
  show "trace_of TEST (out s') = trace_of TEST (out s)"
    using res tr es_trace(4) [of "(fo2, out s2)" TEST "[]"]
    by (cases "sc_err r") (auto simp: proto_def)
  show "err = None \<Longrightarrow> set_session (proto f) False (out s) (out s') \<and> status f' = StatusRed"
    using res u(3) eu tr by (cases "sc_err r") (auto simp: set_session_def same_sessions_def)
qed

lemma fixture_ok_same: "same_sessions a b \<Longrightarrow> fixture_ok a f \<Longrightarrow> fixture_ok b f"
  by (auto simp: fixture_ok_def intro: stream_open_same)

lemma log_reports_no_error: "concat (map report_error (log_reports rs)) = []"
  by (induction rs) (auto simp: log_reports_def split: report.splits)

lemma RunReset_spec:
  assumes "RunReset cfg f s = (err, f', s')" and "fixture_ok (out s) f" and "status f = StatusGreen"
  shows "bugfree err" and "trace_of TEST (out s') = trace_of TEST (out s)"
    and "same_sessions (out s) (out s')" and "fixture_ok (out s') f'" and "fixt f' = fixt f"
    and "status f' = StatusGreen \<or> status f' = StatusYellow \<and> err = None"
proof -
  let ?c = "iReset (fImpl (fixt f)) (world s)"
  let ?r = "SafeCall (fName (fixt f) @ '':Reset'') (fResetTimeout (fixt f)) (cGracePeriod cfg) ?c"
  let ?p1 = "apply_reports (log_reports (reports ?c)) (fout f, out s)"
  have op: "stream_open (fout f) (out s)" "ei (fout f) = proto f" "sf_errs f = []"
    using assms(2,3) by (simp_all add: fixture_ok_def)
  note a = apply_reports_open [of "(fout f, out s)" "log_reports (reports ?c)", simplified fst_conv snd_conv, OF op(1)]
    apply_reports_trace [of "(fout f, out s)" TEST "log_reports (reports ?c)"]
  have l: "stream_open (fst (es_log m ?p1)) (snd (es_log m ?p1)) \<and> same_sessions (snd ?p1) (snd (es_log m ?p1)) \<and>
      trace_of TEST (snd (es_log m ?p1)) = trace_of TEST (out s) \<and> ei (fst (es_log m ?p1)) = proto f" for m
    using es_report_open [of ?p1 "OLog m" m] es_step_frame(1) [of "OLog m" ?p1] a op(2)
      es_trace(2) [of ?p1 TEST m] by (simp add: proto_def)
  note res = assms(1) [unfolded RunReset_def Let_def, simplified assms(3) split_beta, simplified]
  have cases: "(err = sc_err ?r \<and> f' = f\<lparr>fout := fst ?p1\<rparr> \<and> s' = s\<lparr>world := uworld ?c, out := snd ?p1\<rparr>) \<or>
     (\<exists>m. err = None \<and> f' = f\<lparr>fout := fst (es_log m ?p1), status := StatusYellow\<rparr> \<and>
        s' = s\<lparr>world := uworld ?c, out := snd (es_log m ?p1)\<rparr>)"
    using res by (auto split: option.splits)
  show "bugfree err" using cases by auto
  show "trace_of TEST (out s') = trace_of TEST (out s)" using cases a(2) l op(2) by (auto simp: proto_def)
  show "same_sessions (out s) (out s')" using cases a(1) l by (auto intro: same_sessions_trans)
  show "fixture_ok (out s') f'"
    using cases a(1) l op assms(3) by (auto simp: fixture_ok_def proto_def)
  show "fixt f' = fixt f" using cases by auto
  show "status f' = StatusGreen \<or> status f' = StatusYellow \<and> err = None" using cases assms(3) by auto
qed

subsection \<open>Invariant of the stack\<close>

text \<open>The statuses of a stack, bottom first: green ones, then red ones; or, after a failed reset, one
  yellow fixture among green ones.\<close>

definition statuses_ok :: "Status list \<Rightarrow> bool" where
  "statuses_ok ss \<longleftrightarrow> (\<exists>k m. ss = replicate k StatusGreen @ replicate m StatusRed \<or>
     ss = replicate k StatusGreen @ StatusYellow # replicate m StatusGreen)"

lemma statuses_okI:
  "statuses_ok (replicate k StatusGreen @ replicate m StatusRed)"
  "statuses_ok (replicate k StatusGreen @ StatusYellow # replicate m StatusGreen)"
  by (auto simp: statuses_ok_def)

lemma statuses_ok_Nil [simp]: "statuses_ok []"
  using statuses_okI(1) [of 0 0] by simp

lemma statuses_ok_greens: "\<forall>x\<in>set ss. x = StatusGreen \<Longrightarrow> statuses_ok ss"
  using statuses_okI(1) [of "length ss" 0] by (simp add: replicate_length_same)

lemma statuses_ok_Cons: "statuses_ok (StatusGreen # ss) = statuses_ok ss"
proof
  assume "statuses_ok (StatusGreen # ss)"
  then obtain k m where "StatusGreen # ss = replicate k StatusGreen @ replicate m StatusRed \<or>
     StatusGreen # ss = replicate k StatusGreen @ StatusYellow # replicate m StatusGreen"
    by (auto simp: statuses_ok_def)
  then show "statuses_ok ss"
  proof (cases k)
    case 0
    then show ?thesis using \<open>StatusGreen # ss = _ \<or> _\<close> by (cases m) auto
  next
    case (Suc n)
    then show ?thesis using \<open>StatusGreen # ss = _ \<or> _\<close> by (auto simp: statuses_okI)
  qed
next
  assume "statuses_ok ss"
  then show "statuses_ok (StatusGreen # ss)"
    unfolding statuses_ok_def by (metis append_Cons replicate_Suc)
qed

lemma statuses_ok_reds: "statuses_ok (StatusRed # ss) \<longleftrightarrow> (\<forall>x\<in>set ss. x = StatusRed)"
proof
  assume "statuses_ok (StatusRed # ss)"
  then obtain k m where "StatusRed # ss = replicate k StatusGreen @ replicate m StatusRed \<or>
     StatusRed # ss = replicate k StatusGreen @ StatusYellow # replicate m StatusGreen"
    by (auto simp: statuses_ok_def)
  then show "\<forall>x\<in>set ss. x = StatusRed" by (cases k; cases m) auto
next
  assume "\<forall>x\<in>set ss. x = StatusRed"
  then have "StatusRed # ss = replicate (Suc (length ss)) StatusRed" by (simp add: replicate_length_same)
  then show "statuses_ok (StatusRed # ss)" using statuses_okI(1) [of 0 "Suc (length ss)"] by simp
qed

lemma statuses_ok_yellow: "statuses_ok (StatusYellow # ss) \<longleftrightarrow> (\<forall>x\<in>set ss. x = StatusGreen)"
proof
  assume "statuses_ok (StatusYellow # ss)"
  then obtain k m where "StatusYellow # ss = replicate k StatusGreen @ replicate m StatusRed \<or>
     StatusYellow # ss = replicate k StatusGreen @ StatusYellow # replicate m StatusGreen"
    by (auto simp: statuses_ok_def)
  then show "\<forall>x\<in>set ss. x = StatusGreen" by (cases k; cases m) auto
next
  assume "\<forall>x\<in>set ss. x = StatusGreen"
  then have "ss = replicate (length ss) StatusGreen" by (simp add: replicate_length_same)
  then show "statuses_ok (StatusYellow # ss)" using statuses_okI(2) [of 0 "length ss"] by simp
qed

lemmas statuses_ok_simps = statuses_ok_Cons statuses_ok_reds statuses_ok_yellow

lemma statuses_ok_butlast: "statuses_ok ss \<Longrightarrow> statuses_ok (butlast ss)"
proof (induction ss)
  case (Cons x ss)
  then show ?case by (cases x) (auto simp: statuses_ok_simps dest: in_set_butlastD)
qed simp

lemma first_not_green_Green: "first_not_green fs = StatusGreen \<longleftrightarrow> (\<forall>f\<in>set fs. status f = StatusGreen)"
  by (induction fs) auto

lemma first_not_green_Yellow:
  "statuses_ok (map status fs) \<Longrightarrow> first_not_green fs = StatusYellow \<longleftrightarrow> (\<exists>f\<in>set fs. status f = StatusYellow)"
proof (induction fs)
  case (Cons f fs)
  then show ?case by (cases "status f") (auto simp: statuses_ok_simps)
qed simp

lemma first_not_green_Red:
  "statuses_ok (map status fs) \<Longrightarrow> first_not_green fs = StatusRed \<longleftrightarrow> (\<exists>f\<in>set fs. status f = StatusRed)"
proof (induction fs)
  case (Cons f fs)
  then show ?case by (cases "status f") (auto simp: statuses_ok_simps)
qed simp

lemma first_not_green_append:
  "first_not_green (xs @ ys) = (if first_not_green xs = StatusGreen then first_not_green ys else first_not_green xs)"
  by (induction xs) auto

lemma first_red_errors_append:
  "first_red_errors (xs @ ys) = (if \<exists>f\<in>set xs. status f = StatusRed then first_red_errors xs else first_red_errors ys)"
  by (induction xs) auto

text \<open>Pushing on a green or red stack, as the list of statuses sees it.\<close>

lemma statuses_ok_push:
  assumes "statuses_ok (map status fs)" and "first_not_green fs \<noteq> StatusYellow"
    and "first_not_green fs = StatusRed \<longrightarrow> x = StatusRed" and "x \<noteq> StatusYellow"
  shows "statuses_ok (map status fs @ [x])"
  using assms
proof (induction fs)
  case Nil
  then show ?case by (cases x) (simp_all add: statuses_ok_simps)
next
  case (Cons g fs)
  then show ?case by (cases "status g") (auto simp: statuses_ok_simps)
qed

definition open_ents :: "'w statefulFixture list \<Rightarrow> Entity set" where
  "open_ents fs = proto ` {f \<in> set fs. status f \<noteq> StatusRed}"

definition sessions_match :: "Stream \<Rightarrow> Entity set \<Rightarrow> bool" where
  "sessions_match sn E \<longleftrightarrow>
     (\<forall>e. EType e = FIXTURE \<longrightarrow> EName e \<noteq> [] \<longrightarrow> session e (sent sn) = Some (e \<in> E))"

definition fixt_names :: "'w InternalStack \<Rightarrow> string list" where
  "fixt_names st = map (\<lambda>f. fName (fixt f)) (stack st)"

definition stack_inv :: "Stream \<Rightarrow> 'w InternalStack \<Rightarrow> bool" where
  "stack_inv sn st \<longleftrightarrow>
     statuses_ok (map status (stack st)) \<and>
     (\<forall>f\<in>set (stack st). fixture_ok sn f) \<and>
     distinct (fixt_names st) \<and>
     (is_Status st = StatusRed \<longrightarrow> is_Errors st \<noteq> []) \<and>
     sessions_match sn (open_ents (stack st))"

lemma stack_inv_new: "sessions_match sn {} \<Longrightarrow> stack_inv sn NewInternalStack"
  by (simp add: stack_inv_def NewInternalStack_def fixt_names_def open_ents_def is_Status_def)

lemma stack_inv_statuses: "stack_inv sn st \<Longrightarrow> statuses_ok (map status (stack st))"
  by (simp add: stack_inv_def)

lemma sessions_match_set:
  assumes "sessions_match sn E" and "set_session p b sn sn'"
  shows "sessions_match sn' (if b then insert p E else E - {p})"
  using assms by (auto simp: sessions_match_def set_session_def)

lemma sessions_match_same: "sessions_match sn E \<Longrightarrow> same_sessions sn sn' \<Longrightarrow> sessions_match sn' E"
  by (simp add: sessions_match_def same_sessions_def)

lemma fixture_ok_set:
  assumes "fixture_ok sn f" and "set_session p b sn sn'" and "fName (fixt f) \<noteq> EName p"
  shows "fixture_ok sn' f"
proof -
  have "proto f \<noteq> p" using assms(3) by (auto simp: proto_def)
  with assms(1,2) show ?thesis by (auto simp: fixture_ok_def stream_open_def set_session_def)
qed

lemma open_ents_append: "open_ents (fs @ gs) = open_ents fs \<union> open_ents gs"
  by (auto simp: open_ents_def)

lemma open_ents_single: "open_ents [f] = (if status f = StatusRed then {} else {proto f})"
  by (auto simp: open_ents_def)

lemma open_ents_names: "e \<in> open_ents fs \<Longrightarrow> EName e \<in> (\<lambda>f. fName (fixt f)) ` set fs"
  by (auto simp: open_ents_def proto_def)

lemma stack_inv_push:
  assumes inv: "stack_inv sn st" and new: "fName (fixt f) \<notin> set (fixt_names st)"
    and ny: "is_Status st \<noteq> StatusYellow" and fy: "status f \<noteq> StatusYellow"
    and ok: "fixture_ok sn' f"
    and red: "is_Status st = StatusRed \<longrightarrow> status f = StatusRed"
    and errs: "is_Status st = StatusGreen \<longrightarrow> status f = StatusRed \<longrightarrow> sf_errs f \<noteq> []"
    and set: "set_session (proto f) (status f = StatusGreen) sn sn' \<or> status f = StatusRed \<and> sn' = sn"
  shows "stack_inv sn' (st\<lparr>stack := stack st @ [f]\<rparr>)"
  unfolding stack_inv_def
proof (intro conjI)
  note inv' = inv [unfolded stack_inv_def]
  have p: "proto f \<notin> open_ents (stack st)"
    using open_ents_names new by (fastforce simp: proto_def fixt_names_def)
  show "statuses_ok (map status (stack (st\<lparr>stack := stack st @ [f]\<rparr>)))"
    using statuses_ok_push [of "stack st" "status f"] inv' ny fy red by (simp add: is_Status_def)
  have "fixture_ok sn' g" if "g \<in> set (stack st)" for g
  proof -
    have "fName (fixt g) \<in> set (fixt_names st)" using that by (simp add: fixt_names_def)
    then have g: "fixture_ok sn g" "fName (fixt g) \<noteq> fName (fixt f)"
      using inv' that new by auto
    with set show ?thesis by (auto intro: fixture_ok_set simp: proto_def)
  qed
  then show "\<forall>g\<in>set (stack (st\<lparr>stack := stack st @ [f]\<rparr>)). fixture_ok sn' g" using ok by simp
  show "distinct (fixt_names (st\<lparr>stack := stack st @ [f]\<rparr>))"
    using inv' new by (simp add: fixt_names_def)
  show "is_Status (st\<lparr>stack := stack st @ [f]\<rparr>) = StatusRed \<longrightarrow> is_Errors (st\<lparr>stack := stack st @ [f]\<rparr>) \<noteq> []"
    using inv' first_not_green_Green [of "stack st"] first_not_green_Red [of "stack st"] errs
    by (auto simp: is_Status_def is_Errors_def first_not_green_append first_red_errors_append split: if_splits)
  show "sessions_match sn' (open_ents (stack (st\<lparr>stack := stack st @ [f]\<rparr>)))"
    using set inv' sessions_match_set [of sn "open_ents (stack st)" "proto f" "status f = StatusGreen" sn'] p fy
    by (cases "status f") (auto simp: open_ents_append open_ents_single)
qed

lemma is_Push_spec:
  assumes push: "is_Push os cfg fi st s = (err, st', s')" and inv: "stack_inv (out s) st"
    and new: "fName fi \<notin> set (fixt_names st)" and ny: "is_Status st \<noteq> StatusYellow"
  shows "bugfree err" and "trace_of TEST (out s') = trace_of TEST (out s)" and "dirty st' = dirty st"
    and "err = None \<Longrightarrow> stack_inv (out s') st' \<and> map fixt (stack st') = map fixt (stack st) @ [fi] \<and>
      is_Status st' \<noteq> StatusYellow \<and> (is_Status st = StatusRed \<longrightarrow> is_Status st' = StatusRed)"
proof -
  let ?pr = "fixt_EntityProto fi"
  obtain dir w1 where dir: "(if fName fi \<noteq> [] then CreateOutDir os (cOutDir cfg) (fName fi) (world s)
      else (Inr [], world s)) = (dir, w1)" by fastforce
  have goal: "bugfree err \<and> trace_of TEST (out s') = trace_of TEST (out s) \<and> dirty st' = dirty st \<and>
     (err = None \<longrightarrow> stack_inv (out s') st' \<and> map fixt (stack st') = map fixt (stack st) @ [fi] \<and>
      is_Status st' \<noteq> StatusYellow \<and> (is_Status st = StatusRed \<longrightarrow> is_Status st' = StatusRed))"
  proof (cases dir)
    case (Inl e)
    with push dir ny have "err = Some e" "st' = st" "s' = s\<lparr>world := w1\<rparr>" by (auto simp: is_Push_def)
    with Inl dir show ?thesis by (auto dest: CreateOutDir_no_bug split: if_splits)
  next
    case (Inr outDir)
    let ?f = "newStatefulFixture fi (newRuntimeConfig cfg st outDir fi) (NewEntityStream ?pr)"
    show ?thesis
    proof (cases "is_Status st")
      case StatusGreen
      obtain f' where r: "RunSetUp os cfg ?f (s\<lparr>world := w1\<rparr>) = (err, f', s')"
        and st': "st' = st\<lparr>stack := stack st @ [f']\<rparr>"
        using push dir Inr StatusGreen by (auto simp: is_Push_def Let_def split: prod.splits)
      have "fName fi \<noteq> [] \<longrightarrow> session ?pr (sent (out s)) = Some False"
        using inv new open_ents_names [of ?pr "stack st"]
        by (auto simp: stack_inv_def sessions_match_def fixt_names_def)
      then have hyp: "fName fi \<noteq> [] \<longrightarrow> session ?pr (sent (out (s\<lparr>world := w1\<rparr>))) = Some False" by simp
      note su = RunSetUp_new [OF r hyp]
      have pf: "proto f' = ?pr" using su(2) by (simp add: proto_def)
      have "stack_inv (out s') st'" if "err = None"
        unfolding st' by (rule stack_inv_push [OF inv])
          (use su(2) su(5) [OF that] new ny StatusGreen pf in auto)
      moreover have "is_Status st' \<noteq> StatusYellow" if "err = None"
        using su(5) [OF that] StatusGreen by (simp add: st' is_Status_def first_not_green_append)
      ultimately show ?thesis using su(1,2,3) StatusGreen by (simp add: st')
    next
      case StatusRed
      then have r: "err = None" "st' = st\<lparr>stack := stack st @ [?f]\<rparr>" "s' = s\<lparr>world := w1\<rparr>"
        using push dir Inr by (auto simp: is_Push_def Let_def)
      have "stack_inv (out s) (st\<lparr>stack := stack st @ [?f]\<rparr>)"
        by (rule stack_inv_push [OF inv])
          (use new StatusRed in \<open>auto simp: newStatefulFixture_def fixture_ok_def NewEntityStream_def proto_def\<close>)
      with r StatusRed show ?thesis
        by (simp add: is_Status_def first_not_green_append newStatefulFixture_def)
    next
      case StatusYellow
      with ny show ?thesis by simp
    qed
  qed
  from goal show "bugfree err" "trace_of TEST (out s') = trace_of TEST (out s)" "dirty st' = dirty st"
    "err = None \<Longrightarrow> stack_inv (out s') st' \<and> map fixt (stack st') = map fixt (stack st) @ [fi] \<and>
      is_Status st' \<noteq> StatusYellow \<and> (is_Status st = StatusRed \<longrightarrow> is_Status st' = StatusRed)"
    by simp_all
qed

lemma stack_inv_pop:
  assumes inv: "stack_inv sn st" and st: "stack st = fs @ [f]"
    and set: "if status f = StatusRed then sn' = sn else set_session (proto f) False sn sn'"
  shows "stack_inv sn' (st\<lparr>stack := fs\<rparr>)"
  unfolding stack_inv_def
proof (intro conjI)
  note inv' = inv [unfolded stack_inv_def]
  have names: "fName (fixt f) \<notin> (\<lambda>f. fName (fixt f)) ` set fs" "distinct (map (\<lambda>f. fName (fixt f)) fs)"
    using inv' st by (simp_all add: fixt_names_def)
  then have p: "proto f \<notin> open_ents fs"
    using open_ents_names [of "proto f" fs] by (auto simp: proto_def)
  show "statuses_ok (map status (stack (st\<lparr>stack := fs\<rparr>)))"
    using statuses_ok_butlast [of "map status (stack st)"] inv' st by simp
  have "fixture_ok sn' g" if "g \<in> set fs" for g
  proof -
    have "fName (fixt g) \<noteq> fName (fixt f)"
      using names(1) imageI [OF that, of "\<lambda>f. fName (fixt f)"] by auto
    moreover have "fixture_ok sn g" using inv' that st by simp
    ultimately show ?thesis using set by (cases "status f = StatusRed") (auto intro: fixture_ok_set simp: proto_def)
  qed
  then show "\<forall>g\<in>set (stack (st\<lparr>stack := fs\<rparr>)). fixture_ok sn' g" by simp
  show "distinct (fixt_names (st\<lparr>stack := fs\<rparr>))" using names by (simp add: fixt_names_def)
  have "statuses_ok (map status fs)" using statuses_ok_butlast [of "map status (stack st)"] inv' st by simp
  then show "is_Status (st\<lparr>stack := fs\<rparr>) = StatusRed \<longrightarrow> is_Errors (st\<lparr>stack := fs\<rparr>) \<noteq> []"
    using inv' first_not_green_Red [of fs]
    by (auto simp: is_Status_def is_Errors_def st first_not_green_append first_red_errors_append split: if_splits)
  show "sessions_match sn' (open_ents (stack (st\<lparr>stack := fs\<rparr>)))"
    using set inv' sessions_match_set [of sn "open_ents (stack st)" "proto f" False sn'] p
    by (cases "status f = StatusRed") (auto simp: st open_ents_append open_ents_single)
qed

lemma is_Pop_spec:
  assumes pop: "is_Pop cfg st s = (err, st', s')" and inv: "stack_inv (out s) st" and ne: "stack st \<noteq> []"
  shows "bugfree err" and "trace_of TEST (out s') = trace_of TEST (out s)"
    and "st' = st\<lparr>stack := butlast (stack st)\<rparr>"
    and "err = None \<Longrightarrow> stack_inv (out s') st'"
proof -
  obtain fs f where st: "stack st = fs @ [f]" using ne by (metis rev_exhaust)
  show st': "st' = st\<lparr>stack := butlast (stack st)\<rparr>"
    using pop st by (auto simp: is_Pop_def Let_def split: if_splits prod.splits)
  have ok: "fixture_ok (out s) f" using inv st by (simp add: stack_inv_def)
  have "bugfree err \<and> trace_of TEST (out s') = trace_of TEST (out s) \<and>
      (err = None \<longrightarrow> (if status f = StatusRed then out s' = out s else set_session (proto f) False (out s) (out s')))"
  proof (cases "status f = StatusRed")
    case True
    then show ?thesis using pop st by (simp add: is_Pop_def)
  next
    case False
    then obtain f' where "RunTearDown cfg f s = (err, f', s')"
      using pop st by (auto simp: is_Pop_def Let_def split: prod.splits)
    from RunTearDown_spec [OF this ok False] False show ?thesis by simp
  qed
  note g = this
  from g show "bugfree err" "trace_of TEST (out s') = trace_of TEST (out s)" by simp_all
  show "err = None \<Longrightarrow> stack_inv (out s') st'"
    using stack_inv_pop [OF inv st, of "out s'"] g by (simp add: st' st)
qed

lemma reset_fixtures_spec:
  assumes "reset_fixtures cfg fs s = (err, fs', s')"
    and "\<forall>f\<in>set fs. status f = StatusGreen \<and> fixture_ok (out s) f"
  shows "bugfree err \<and> trace_of TEST (out s') = trace_of TEST (out s) \<and> same_sessions (out s) (out s') \<and>
    map fixt fs' = map fixt fs \<and> (\<forall>f\<in>set fs'. status f \<noteq> StatusRed \<and> fixture_ok (out s') f) \<and>
    statuses_ok (map status fs') \<and> (err \<noteq> None \<longrightarrow> (\<forall>f\<in>set fs'. status f = StatusGreen))"
  using assms
proof (induction fs arbitrary: s err fs' s')
  case (Cons f fs)
  obtain e1 f1 s1 where r: "RunReset cfg f s = (e1, f1, s1)" by (metis prod_cases3)
  note rs = RunReset_spec [OF r, simplified Cons.prems(2)]
  have fs1: "\<forall>f\<in>set fs. status f = StatusGreen \<and> fixture_ok (out s1) f"
    using Cons.prems(2) rs(3) fixture_ok_same by auto
  show ?case
  proof (cases "status f1 = StatusGreen \<and> e1 = None")
    case True
    then obtain fs2 where r2: "reset_fixtures cfg fs s1 = (err, fs2, s')" and fs': "fs' = f1 # fs2"
      using Cons.prems(1) r by (auto split: prod.splits)
    note ih = Cons.IH [OF r2 fs1]
    have "fixture_ok (out s') f1" using ih rs(4) fixture_ok_same [of "out s1" "out s'" f1] Cons.prems(2) by simp
    with ih rs fs' True Cons.prems(2) show ?thesis
      by (auto simp: statuses_ok_simps intro: same_sessions_trans)
  next
    case False
    then have "err = e1 \<and> fs' = f1 # fs \<and> s' = s1"
      using Cons.prems r rs(6) by (auto split: option.splits)
    moreover have "statuses_ok (map status (f1 # fs))"
      using rs(6) fs1 Cons.prems(2) statuses_ok_greens [of "map status fs"] by (auto simp: statuses_ok_simps)
    ultimately show ?thesis using rs fs1 Cons.prems(2) by auto
  qed
qed simp

lemma is_Reset_spec:
  assumes reset: "is_Reset cfg st s = (err, st', s')" and inv: "stack_inv (out s) st"
    and ny: "is_Status st \<noteq> StatusYellow"
  shows "bugfree err" and "trace_of TEST (out s') = trace_of TEST (out s)" and "\<not> dirty st'"
    and "stack_inv (out s') st'" and "map fixt (stack st') = map fixt (stack st)"
    and "is_Status st = StatusRed \<longleftrightarrow> is_Status st' = StatusRed"
proof -
  have goal: "bugfree err \<and> trace_of TEST (out s') = trace_of TEST (out s) \<and> \<not> dirty st' \<and>
    stack_inv (out s') st' \<and> map fixt (stack st') = map fixt (stack st) \<and>
    (is_Status st = StatusRed \<longleftrightarrow> is_Status st' = StatusRed)"
  proof (cases "is_Status st")
    case StatusGreen
    then obtain fs' where r: "reset_fixtures cfg (stack st) s = (err, fs', s')"
      and st': "st' = st\<lparr>dirty := False, stack := fs'\<rparr>"
      using reset by (auto simp: is_Reset_def is_Status_def Let_def split: prod.splits)
    have green: "\<forall>f\<in>set (stack st). status f = StatusGreen"
      using StatusGreen by (simp add: is_Status_def first_not_green_Green)
    have "\<forall>f\<in>set (stack st). status f = StatusGreen \<and> fixture_ok (out s) f"
      using green inv by (simp add: stack_inv_def)
    note r = reset_fixtures_spec [OF r this]
    have "map fName (map fixt fs') = map fName (map fixt (stack st))" using r by simp
    then have names: "map (\<lambda>f. fName (fixt f)) fs' = map (\<lambda>f. fName (fixt f)) (stack st)"
      by (simp add: comp_def)
    have op: "open_ents fs = fixt_EntityProto ` set (map fixt fs)" if "\<forall>f\<in>set fs. status f \<noteq> StatusRed"
      for fs :: "'a statefulFixture list" using that by (auto simp: open_ents_def proto_def)
    have "open_ents fs' = fixt_EntityProto ` set (map fixt (stack st))"
      using op [of fs'] r by (simp del: set_map)
    then have oe: "open_ents fs' = open_ents (stack st)" using op [of "stack st"] green by simp
    have nr: "is_Status st' \<noteq> StatusRed" using r st' first_not_green_Red [of fs'] by (auto simp: is_Status_def)
    have "stack_inv (out s') st'"
      using inv r names oe nr sessions_match_same [of "out s" _ "out s'"]
      by (simp add: stack_inv_def st' fixt_names_def)
    with r nr StatusGreen show ?thesis by (simp add: st')
  next
    case StatusRed
    then have "err = None \<and> st' = st\<lparr>dirty := False\<rparr> \<and> s' = s"
      using reset by (auto simp: is_Reset_def is_Status_def Let_def)
    with inv show ?thesis by (simp add: stack_inv_def is_Status_def is_Errors_def fixt_names_def)
  next
    case StatusYellow
    with ny show ?thesis by simp
  qed
  from goal show "bugfree err" "trace_of TEST (out s') = trace_of TEST (out s)" "\<not> dirty st'"
    "stack_inv (out s') st'" "map fixt (stack st') = map fixt (stack st)"
    "is_Status st = StatusRed \<longleftrightarrow> is_Status st' = StatusRed" by simp_all
qed

subsection \<open>Any sequence of stack operations\<close>

datatype 'w stack_op = OpPush "'w FixtureInstance" | OpPop | OpReset | OpMarkDirty

fun is_step :: "'w os \<Rightarrow> FixtConfig \<Rightarrow> 'w stack_op \<Rightarrow> 'w InternalStack \<times> 'w sys \<Rightarrow> 'w InternalStack \<times> 'w sys" where
  "is_step os cfg (OpPush fi) (st, s) = snd (is_Push os cfg fi st s)"
| "is_step os cfg OpPop (st, s) = snd (is_Pop cfg st s)"
| "is_step os cfg OpReset (st, s) = snd (is_Reset cfg st s)"
| "is_step os cfg OpMarkDirty (st, s) = (snd (is_MarkDirty st), s)"

definition is_exec :: "'w os \<Rightarrow> FixtConfig \<Rightarrow> 'w stack_op list \<Rightarrow> 'w sys \<Rightarrow> 'w InternalStack" where
  "is_exec os cfg ops s = fst (fold (is_step os cfg) ops (NewInternalStack, s))"

lemma RunSetUp_status: "RunSetUp os cfg f s = (e, f', s') \<Longrightarrow> status f = StatusRed \<Longrightarrow> status f' \<noteq> StatusYellow"
  by (auto simp: RunSetUp_def Let_def split: prod.splits option.splits if_splits)

lemma RunReset_status: "RunReset cfg f s = (e, f', s') \<Longrightarrow> status f = StatusGreen \<Longrightarrow>
   status f' = StatusGreen \<or> status f' = StatusYellow \<and> e = None"
  by (auto simp: RunReset_def Let_def split: prod.splits option.splits)

lemma reset_fixtures_statuses:
  "reset_fixtures cfg fs s = (e, fs', s') \<Longrightarrow> \<forall>f\<in>set fs. status f = StatusGreen \<Longrightarrow> statuses_ok (map status fs')"
proof (induction fs arbitrary: s e fs' s')
  case (Cons f fs)
  obtain e1 f1 s1 where r: "RunReset cfg f s = (e1, f1, s1)" by (metis prod_cases3)
  obtain e2 fs2 s2 where r2: "reset_fixtures cfg fs s1 = (e2, fs2, s2)" by (metis prod_cases3)
  have "statuses_ok (map status fs2)" using Cons.IH [OF r2] Cons.prems(2) by simp
  moreover have "statuses_ok (map status fs)" using Cons.prems(2) statuses_ok_greens [of "map status fs"] by simp
  ultimately show ?case using Cons.prems r r2 RunReset_status [OF r]
    by (auto simp: statuses_ok_simps split: option.splits)
qed simp

lemma is_Push_shape:
  assumes "is_Push os cfg fi st s = (e, st', s')"
  shows "stack st' = stack st \<or> (\<exists>f. stack st' = stack st @ [f] \<and> is_Status st \<noteq> StatusYellow \<and>
      (is_Status st = StatusRed \<longrightarrow> status f = StatusRed) \<and> status f \<noteq> StatusYellow)"
proof -
  obtain dir w1 where dir: "(if fName fi \<noteq> [] then CreateOutDir os (cOutDir cfg) (fName fi) (world s)
      else (Inr [], world s)) = (dir, w1)" by fastforce
  show ?thesis
  proof (cases dir)
    case (Inl a)
    then have "st' = st" using assms dir by (auto simp: is_Push_def split: if_splits)
    then show ?thesis by simp
  next
    case (Inr d)
    let ?f = "newStatefulFixture fi (newRuntimeConfig cfg st d fi) (NewEntityStream (fixt_EntityProto fi))"
    have red: "status ?f = StatusRed" by (simp add: newStatefulFixture_def)
    obtain e1 f1 s1 where r: "RunSetUp os cfg ?f (s\<lparr>world := w1\<rparr>) = (e1, f1, s1)" by (metis prod_cases3)
    note assms' = assms [unfolded is_Push_def Let_def dir Inr split sum.case r]
    show ?thesis using assms' red RunSetUp_status [OF r red] by (cases "is_Status st") auto
  qed
qed

lemma is_step_statuses:
  assumes "statuses_ok (map status (stack st))"
  shows "statuses_ok (map status (stack (fst (is_step os cfg op (st, s)))))"
proof (cases op)
  case (OpPush fi)
  obtain e st' s' where push: "is_Push os cfg fi st s = (e, st', s')" by (metis prod_cases3)
  consider "stack st' = stack st"
    | f where "stack st' = stack st @ [f]" "is_Status st \<noteq> StatusYellow"
        "is_Status st = StatusRed \<longrightarrow> status f = StatusRed" "status f \<noteq> StatusYellow"
    using is_Push_shape [OF push] by blast
  then show ?thesis
  proof cases
    case 1
    then show ?thesis using OpPush push assms by simp
  next
    case 2
    then have "statuses_ok (map status (stack st) @ [status f])"
      by (intro statuses_ok_push [OF assms]) (simp_all add: is_Status_def)
    then show ?thesis using 2(1) OpPush push by simp
  qed
next
  case OpPop
  then show ?thesis using assms statuses_ok_butlast [OF assms]
    by (cases "RunTearDown cfg (last (stack st)) s") (simp add: is_Pop_def Let_def map_butlast)
next
  case OpReset
  obtain e fs s' where r: "reset_fixtures cfg (stack st) s = (e, fs, s')" by (metis prod_cases3)
  then have "statuses_ok (map status fs)" if "is_Status st = StatusGreen"
    using that reset_fixtures_statuses [OF r] by (simp add: is_Status_def first_not_green_Green)
  with assms r OpReset show ?thesis
    by (cases "is_Status st") (simp_all add: is_Reset_def Let_def is_Status_def)
next
  case OpMarkDirty
  then show ?thesis using assms by (simp add: is_MarkDirty_def)
qed

lemma is_exec_statuses:
  "statuses_ok (map status (stack (fst p))) \<Longrightarrow> statuses_ok (map status (stack (fst (fold (is_step os cfg) ops p))))"
proof (induction ops arbitrary: p)
  case (Cons op ops)
  have "statuses_ok (map status (stack (fst (is_step os cfg op p))))"
    using is_step_statuses [OF Cons.prems, where op = op and s = "snd p"] by simp
  from Cons.IH [OF this] show ?case by simp
qed simp

lemma statuses_ok_doc:
  assumes "statuses_ok ss"
  shows "(StatusYellow \<in> set ss \<longrightarrow> StatusRed \<notin> set ss) \<and>
    (StatusYellow \<notin> set ss \<longrightarrow> (\<exists>k\<le>length ss. (\<forall>i<k. ss ! i = StatusGreen) \<and>
        (\<forall>i. k \<le> i \<and> i < length ss \<longrightarrow> ss ! i = StatusRed)))"
proof -
  obtain k m where "ss = replicate k StatusGreen @ replicate m StatusRed \<or>
     ss = replicate k StatusGreen @ StatusYellow # replicate m StatusGreen"
    using assms by (auto simp: statuses_ok_def)
  then show ?thesis
  proof
    assume ss: "ss = replicate k StatusGreen @ replicate m StatusRed"
    show ?thesis by (auto simp: ss nth_append intro!: exI [of _ k])
  qed auto
qed

text \<open>C11: The invariants the comment on \<open>InternalStack\<close> states hold after every sequence of \<open>Push\<close>, \<open>Pop\<close>,
  \<open>Reset\<close> and \<open>MarkDirty\<close>, in any order and whatever errors they return: with a yellow fixture no
  fixture is red; without one, the fixtures are green up to some height and red above; and the
  status of the stack is green iff all fixtures are, yellow iff one is, and red iff one is.\<close>

theorem internal_stack_invariant:
  "let st = is_exec os cfg ops s; ss = map status (stack st) in
    (StatusYellow \<in> set ss \<longrightarrow> StatusRed \<notin> set ss) \<and>
    (StatusYellow \<notin> set ss \<longrightarrow> (\<exists>k\<le>length ss. (\<forall>i<k. ss ! i = StatusGreen) \<and>
        (\<forall>i. k \<le> i \<and> i < length ss \<longrightarrow> ss ! i = StatusRed))) \<and>
    (is_Status st = StatusGreen \<longleftrightarrow> set ss \<subseteq> {StatusGreen}) \<and>
    (is_Status st = StatusYellow \<longleftrightarrow> StatusYellow \<in> set ss) \<and>
    (is_Status st = StatusRed \<longleftrightarrow> StatusRed \<in> set ss)"
proof -
  let ?st = "is_exec os cfg ops s"
  have ok: "statuses_ok (map status (stack ?st))"
    unfolding is_exec_def by (rule is_exec_statuses) (simp add: NewInternalStack_def)
  have st: "is_Status ?st = StatusGreen \<longleftrightarrow> set (map status (stack ?st)) \<subseteq> {StatusGreen}"
    "is_Status ?st = StatusYellow \<longleftrightarrow> StatusYellow \<in> set (map status (stack ?st))"
    "is_Status ?st = StatusRed \<longleftrightarrow> StatusRed \<in> set (map status (stack ?st))"
    using first_not_green_Red [OF ok] first_not_green_Yellow [OF ok]
    by (force simp: is_Status_def first_not_green_Green)+
  show ?thesis unfolding Let_def st by (intro conjI statuses_ok_doc [OF ok, THEN conjunct1]
        statuses_ok_doc [OF ok, THEN conjunct2] refl)
qed

text \<open>A concrete system for witnesses: an operating system on which every call succeeds, user code that
  returns at once after one log message, and user code that reports an error.\<close>

definition ex_os :: "'w os" where
  "ex_os = \<lparr>os_Stat = (\<lambda>w p. StatOk), os_Open = (\<lambda>w p. OpenOk []), os_Walk = (\<lambda>w d. Inr []),
     os_MkdirAll = (\<lambda>p w. (None, w)), os_Mkdir = (\<lambda>p w. (MkOk, w)),
     os_MkdirTemp = (\<lambda>d p w. (Inr (d @ p), w)), os_Chmod = (\<lambda>p w. (None, w)),
     os_Remove = (\<lambda>p w. (RmOk, w)), os_WriteFile = (\<lambda>p d w. (None, w)),
     os_CreateTemp = (\<lambda>d p w. (Inr (d @ p), w)), os_Close = (\<lambda>p w. (None, w)), os_Link = (\<lambda>a b w. (None, w))\<rparr>"

definition ex_call :: "report list \<Rightarrow> 'a \<Rightarrow> (unit, 'a) ucode" where
  "ex_call rs x = (\<lambda>w. \<lparr>reports = rs, finish = Some (1, UReturn x), cancelled = None, uworld = w\<rparr>)"

definition ex_error :: report where
  "ex_error = RError \<lparr>Reason = ''boom'', Location = None\<rparr>"

definition ex_fixture :: "string \<Rightarrow> string \<Rightarrow> report list \<Rightarrow> goerr option \<Rightarrow> unit FixtureInstance" where
  "ex_fixture name parent setup reset =
     \<lparr>fPkg = ''p'', fName = name, fParent = parent,
      fImpl = \<lparr>iSetUp = (\<lambda>c. ex_call setup (Some 0)), iReset = ex_call [] reset,
        iPreTest = (\<lambda>c n. ex_call [] ()), iPostTest = (\<lambda>c n. ex_call [] ()), iTearDown = (\<lambda>c. ex_call [] ())\<rparr>,
      fSetUpTimeout = 10, fResetTimeout = 10, fPreTestTimeout = 10, fPostTestTimeout = 10,
      fTearDownTimeout = 10, fData = []\<rparr>"

definition ex_cfg :: FixtConfig where
  "ex_cfg = \<lparr>cDataDir = ''/d'', cOutDir = ''/o'', cStartFixtureName = [], cGracePeriod = 5\<rparr>"

definition ex_sys :: "unit sys" where
  "ex_sys = \<lparr>world = (), out = \<lparr>sent = [], send_err = (\<lambda>ev. None)\<rparr>\<rparr>"

lemmas ex_defs = ex_os_def ex_call_def ex_error_def ex_fixture_def ex_cfg_def ex_sys_def

theorem internal_stack_invariant_witness:
  "let ops = [OpPush (ex_fixture ''a'' [] [] None), OpPush (ex_fixture ''b'' ''a'' [ex_error] None)];
       st = is_exec ex_os ex_cfg ops ex_sys
   in map status (stack st) = [StatusGreen, StatusRed] \<and> is_Status st = StatusRed"
proof -
  let ?ops = "[OpPush (ex_fixture ''a'' [] [] None), OpPush (ex_fixture ''b'' ''a'' [ex_error] None)]"
  have "map status (stack (is_exec ex_os ex_cfg ?ops ex_sys)) = [StatusGreen, StatusRed]"
    by code_simp
  with internal_stack_invariant [of ex_os ex_cfg ?ops ex_sys] show ?thesis
    by (simp add: Let_def del: set_map length_map list.set_map)
qed

subsection \<open>Test hooks\<close>

text \<open>What holds of the state a test's hooks share, and how one call changes it: the test's stream stays
  open, errors are only added, no fixture event is sent.\<close>

definition trun_ok :: "'w trun \<Rightarrow> bool" where
  "trun_ok t \<longleftrightarrow> stream_open (tout t) (out (tsys t)) \<and> EType (ei (tout t)) = TEST \<and>
     (condition t \<longrightarrow> errs (tout t) \<noteq> [])"

definition trun_le :: "'w trun \<Rightarrow> 'w trun \<Rightarrow> bool" where
  "trun_le t t' \<longleftrightarrow> ei (tout t') = ei (tout t) \<and> (condition t \<longrightarrow> condition t') \<and>
     (\<exists>es. errs (tout t') = errs (tout t) @ es) \<and>
     same_sessions (out (tsys t)) (out (tsys t')) \<and>
     trace_of FIXTURE (out (tsys t')) = trace_of FIXTURE (out (tsys t)) \<and>
     starts (out (tsys t')) = starts (out (tsys t))"

lemma trun_le_refl [simp]: "trun_le t t"
  by (simp add: trun_le_def)

lemma trun_le_trans [trans]: "trun_le a b \<Longrightarrow> trun_le b c \<Longrightarrow> trun_le a c"
  by (auto simp: trun_le_def intro: same_sessions_trans)

lemma run_test_user_ok:
  assumes "run_test_user n to g pre f t = (r, t')" and "trun_ok t"
  shows "trun_ok t'" "trun_le t t'" "bugfree (sc_err r)"
proof -
  obtain he es s where u: "run_user n to g pre (f (world (tsys t))) (tout t) (tsys t) = (r, he, es, s)"
    and t': "t' = t\<lparr>tout := es, condition := condition t \<or> he, tsys := s\<rparr>"
    using assms(1) by (auto simp: run_test_user_def split: prod.splits)
  have op: "stream_open (tout t) (out (tsys t))" using assms(2) by (simp add: trun_ok_def)
  note st = run_user_starts [OF u]
  note u = run_user_open [OF u op]
  show "trun_ok t'" using u(2,4,5) assms(2) by (auto simp: trun_ok_def t')
  show "trun_le t t'" using u(3,4,5) u(6) [of FIXTURE] st assms(2) by (auto simp: trun_le_def trun_ok_def t')
  show "bugfree (sc_err r)" using u(1) by simp
qed

lemma RunPreTest_spec:
  assumes "RunPreTest cfg f rc n t = (r, t')" and "trun_ok t" and "status f = StatusGreen"
  shows "trun_ok t'" "trun_le t t'" "no_bug r"
    and "r = Inr h \<Longrightarrow> h = (if condition t' then DoNothing else PostTest rc n)"
proof -
  have "trun_ok t' \<and> trun_le t t' \<and> no_bug r \<and>
    (\<forall>h. r = Inr h \<longrightarrow> h = (if condition t' then DoNothing else PostTest rc n))"
  proof (cases "condition t")
    case True
    then show ?thesis using assms by (auto simp: RunPreTest_def)
  next
    case False
    obtain r1 t1 where u: "run_test_user (fName (fixt f) @ '':PreTest'') (fPreTestTimeout (fixt f))
        (cGracePeriod cfg) [] (iPreTest (fImpl (fixt f)) rc n) t = (r1, t1)" by fastforce
    note ok = run_test_user_ok [OF u assms(2)]
    have "(r, t') = (case sc_err r1 of Some e \<Rightarrow> (Inl e, t1)
        | None \<Rightarrow> if condition t1 then (Inr DoNothing, t1) else (Inr (PostTest rc n), t1))"
      using assms(1,3) False u by (simp add: RunPreTest_def)
    with ok show ?thesis by (cases "sc_err r1") (auto split: if_splits)
  qed
  then show "trun_ok t'" "trun_le t t'" "no_bug r"
    "r = Inr h \<Longrightarrow> h = (if condition t' then DoNothing else PostTest rc n)" by auto
qed

lemma pre_tests_spec:
  assumes "pre_tests cfg rc n fs t = (r, t')" and "trun_ok t" and "\<forall>f\<in>set fs. status f = StatusGreen"
  shows "trun_ok t' \<and> trun_le t t' \<and> no_bug r \<and>
    (\<forall>hs. r = Inr hs \<longrightarrow> length hs = length fs \<and> (condition t \<longrightarrow> set hs \<subseteq> {DoNothing}) \<and>
      (\<exists>k\<le>length fs. hs = map (\<lambda>f. PostTest (rc (fixt f)) n) (take k fs) @ replicate (length fs - k) DoNothing \<and>
         (fs \<noteq> [] \<and> k < length fs \<longrightarrow> condition t')))"
  using assms
proof (induction fs arbitrary: t r t')
  case (Cons f fs)
  obtain r1 t1 where r1: "RunPreTest cfg f (rc (fixt f)) n t = (r1, t1)" by fastforce
  note p = RunPreTest_spec [OF r1 Cons.prems(2)]
  have green: "status f = StatusGreen" "\<forall>f\<in>set fs. status f = StatusGreen" using Cons.prems(3) by simp_all
  show ?case
  proof (cases r1)
    case (Inl e)
    then show ?thesis using Cons.prems(1) r1 p green by auto
  next
    case (Inr h)
    obtain r2 t2 where r2: "pre_tests cfg rc n fs t1 = (r2, t2)" by fastforce
    note ih = Cons.IH [OF r2 p(1) [OF green(1)] green(2)]
    have h: "h = (if condition t1 then DoNothing else PostTest (rc (fixt f)) n)"
      using p(4) [OF green(1) Inr] .
    show ?thesis
    proof (cases r2)
      case (Inl e)
      then have "r = Inl e" "t' = t2" using Cons.prems(1) r1 r2 \<open>r1 = Inr h\<close> by auto
      with Inl ih p(2) [OF green(1)] show ?thesis by (auto intro: trun_le_trans)
    next
      case (Inr hs)
      then have res: "r = Inr (h # hs)" "t' = t2" using Cons.prems(1) r1 r2 \<open>r1 = Inr h\<close> by auto
      note ihs = ih [THEN conjunct2, THEN conjunct2, THEN conjunct2, rule_format, OF Inr]
      from ihs obtain k where k: "k \<le> length fs"
        "hs = map (\<lambda>f. PostTest (rc (fixt f)) n) (take k fs) @ replicate (length fs - k) DoNothing"
        "fs \<noteq> [] \<and> k < length fs \<longrightarrow> condition t2" "length hs = length fs"
        "condition t1 \<longrightarrow> set hs \<subseteq> {DoNothing}" by blast
      have c: "condition t \<longrightarrow> condition t1" "condition t1 \<longrightarrow> condition t2"
        using p(2) [OF green(1)] ih by (auto simp: trun_le_def)
      have "\<exists>k\<le>length (f # fs). h # hs = map (\<lambda>f. PostTest (rc (fixt f)) n) (take k (f # fs)) @
          replicate (length (f # fs) - k) DoNothing \<and> (f # fs \<noteq> [] \<and> k < length (f # fs) \<longrightarrow> condition t')"
      proof (cases "condition t1")
        case True
        have "hs = replicate (length hs) DoNothing"
          using k(5) True by (metis (no_types, lifting) replicate_length_same singletonD subset_eq)
        then have "hs = replicate (length fs) DoNothing" using k(4) by simp
        then show ?thesis using True h c res by (intro exI [of _ 0]) simp
      next
        case False
        then show ?thesis using h k res by (intro exI [of _ "Suc k"]) auto
      qed
      moreover have "length (h # hs) = length (f # fs)" "condition t \<longrightarrow> set (h # hs) \<subseteq> {DoNothing}"
        using k c h by auto
      ultimately show ?thesis using res ih p(2) [OF green(1)] by (auto intro: trun_le_trans)
    qed
  qed
qed simp

lemma run_hook_spec:
  assumes "run_hook cfg f h t = (r, t')" and "trun_ok t" and "status f = StatusGreen"
  shows "trun_ok t' \<and> trun_le t t' \<and> bugfree r"
proof (cases h)
  case (PostTest rc n)
  obtain r1 t1 where u: "run_test_user (fName (fixt f) @ '':PostTest'') (fPostTestTimeout (fixt f))
        (cGracePeriod cfg) [] (iPostTest (fImpl (fixt f)) rc n) t = (r1, t1)" by fastforce
  with run_test_user_ok [OF u assms(2)] show ?thesis
    using assms(1,3) PostTest by (simp add: runPostTest_def)
qed (use assms in auto)

lemma post_tests_spec:
  assumes "post_tests cfg fhs t = (r, t')" and "trun_ok t" and "\<forall>p\<in>set fhs. status (fst p) = StatusGreen"
  shows "trun_ok t' \<and> trun_le t t' \<and> bugfree r"
  using assms
proof (induction cfg fhs t rule: post_tests.induct)
  case (2 cfg f h fhs t)
  obtain r1 t1 where r1: "run_hook cfg f h t = (r1, t1)" by fastforce
  note h = run_hook_spec [OF r1 2(3)]
  show ?case
  proof (cases r1)
    case None
    then show ?thesis using 2 r1 h by (auto intro: trun_le_trans)
  next
    case (Some e)
    then show ?thesis using 2 r1 h by auto
  qed
qed simp


definition ex_trun :: "unit trun" where
  "ex_trun = (let e = \<lparr>EType = TEST, EName = ''t'', EPackage = ''p'', EFixture = ''a'', EDataFiles = []\<rparr> in
     \<lparr>tout = NewEntityStream e, condition = False,
      tsys = \<lparr>world = (), out = \<lparr>sent = [EntityStart e ''/o/t''], send_err = (\<lambda>ev. None)\<rparr>\<rparr>\<rparr>)"

definition ex_stack :: "unit InternalStack" where
  "ex_stack = is_exec ex_os ex_cfg [OpPush (ex_fixture ''a'' [] [] None)] ex_sys"


end
