(* ===== verification/Combined.thy ===== *)
theory Combined
  imports FixtStack
begin

text \<open>
  Fixture stacks that span two bundles: \<open>external_stack.go\<close>, \<open>combined_stack.go\<close> and
  \<open>stack_server.go\<close> of \<open>internal/planner/internal/fixture\<close>, and the stack the planner uses,
  \<open>internal/planner/stack.go\<close>.  An \<open>ExternalStack\<close> is a client of a stack in another process; the
  call to that process, \<open>output.Stream.StackOperation\<close>, is a parameter (it may change the world).
\<close>

subsection \<open>Requests and responses\<close>

datatype StackOperationRequest =
    ReqReset
  | ReqPreTest "Entity option" bool      \<comment> \<open>\<open>Entity\<close>, \<open>HasError\<close>\<close>
  | ReqPostTest "Entity option" bool
  | ReqStatus
  | ReqSetDirty bool
  | ReqErrors
  | ReqValue

record StackOperationResponse =
  FatalError :: string
  respStatus :: Status
  respErrors :: "PError list"
  respTestHasError :: bool
  respFixtValue :: string

text \<open>The zero value of the message: its status is \<open>GREEN\<close>, the first value of the enum.\<close>

definition resp0 :: StackOperationResponse where
  "resp0 = \<lparr>FatalError = [], respStatus = StatusGreen, respErrors = [], respTestHasError = False,
     respFixtValue = []\<rparr>"

text \<open>The environment of a bundle: the operating system, the remote stack, and \<open>json.Marshal\<close>.\<close>

record 'w env =
  e_os :: "'w os"
  e_StackOperation :: "StackOperationRequest \<Rightarrow> 'w \<Rightarrow> (string + StackOperationResponse) \<times> 'w"
  e_Marshal :: "'w \<Rightarrow> val \<Rightarrow> string + string"

definition rpc :: "'w env \<Rightarrow> StackOperationRequest \<Rightarrow> 'w sys \<Rightarrow> StackOperationResponse res \<times> 'w sys" where
  "rpc env req s =
     (case e_StackOperation env req (world s) of
        (Inl e, w) \<Rightarrow> (Inl (Errorf e), s\<lparr>world := w\<rparr>)
      | (Inr r, w) \<Rightarrow> (Inr r, s\<lparr>world := w\<rparr>))"

definition marshal :: "'w env \<Rightarrow> 'w \<Rightarrow> val \<Rightarrow> string res" where
  "marshal env w v = (case e_Marshal env w v of Inl e \<Rightarrow> Inl (Errorf e) | Inr d \<Rightarrow> Inr d)"

subsection \<open>The external stack\<close>

record ExternalStack =
  xstatus :: Status
  xerrors :: "PError list"

definition NewExternalStack :: "'w env \<Rightarrow> 'w sys \<Rightarrow> ExternalStack res \<times> 'w sys" where
  "NewExternalStack env s =
     (case rpc env ReqStatus s of
        (Inl e, s1) \<Rightarrow> (Inl (Wrap ''stack status'' e), s1)
      | (Inr r1, s1) \<Rightarrow>
          (case rpc env ReqErrors s1 of
             (Inl e, s2) \<Rightarrow> (Inl (Wrap ''stack errors'' e), s2)
           | (Inr r2, s2) \<Rightarrow> (Inr \<lparr>xstatus = respStatus r1, xerrors = respErrors r2\<rparr>, s2)))"

definition xs_Reset :: "'w env \<Rightarrow> ExternalStack \<Rightarrow> 'w sys \<Rightarrow> goerr option \<times> ExternalStack \<times> 'w sys" where
  "xs_Reset env x s =
     (case rpc env ReqReset s of
        (Inl e, s1) \<Rightarrow> (Some e, x, s1)
      | (Inr r, s1) \<Rightarrow> (None, x\<lparr>xstatus := respStatus r\<rparr>, s1))"

definition record_error :: "bool \<Rightarrow> 'w trun \<Rightarrow> 'w trun" where
  "record_error b t = t\<lparr>condition := condition t \<or> b\<rparr>"

definition xs_PreTest :: "'w env \<Rightarrow> Entity \<Rightarrow> 'w trun \<Rightarrow> goerr option \<times> 'w trun" where
  "xs_PreTest env test t =
     (case rpc env (ReqPreTest (Some test) (condition t)) (tsys t) of
        (Inl e, s1) \<Rightarrow> (Some (Wrap ''stack PreTest'' e), t\<lparr>tsys := s1\<rparr>)
      | (Inr r, s1) \<Rightarrow> (None, record_error (respTestHasError r) (t\<lparr>tsys := s1\<rparr>)))"

text \<open>The closure \<open>PreTest\<close> returns.\<close>

definition xs_PostTest :: "'w env \<Rightarrow> Entity \<Rightarrow> 'w trun \<Rightarrow> goerr option \<times> 'w trun" where
  "xs_PostTest env test t =
     (case rpc env (ReqPostTest (Some test) (condition t)) (tsys t) of
        (Inl e, s1) \<Rightarrow> (Some (Wrap ''stack PostTest'' e), t\<lparr>tsys := s1\<rparr>)
      | (Inr r, s1) \<Rightarrow> (None, record_error (respTestHasError r) (t\<lparr>tsys := s1\<rparr>)))"

definition xs_SetDirty :: "'w env \<Rightarrow> bool \<Rightarrow> 'w sys \<Rightarrow> goerr option \<times> 'w sys" where
  "xs_SetDirty env d s =
     (case rpc env (ReqSetDirty d) s of
        (Inl e, s1) \<Rightarrow> (Some (Wrap ''stack set dirty'' e), s1)
      | (Inr r, s1) \<Rightarrow> (None, s1))"

definition xs_SerializedVal :: "'w env \<Rightarrow> 'w sys \<Rightarrow> string res \<times> 'w sys" where
  "xs_SerializedVal env s =
     (case rpc env ReqValue s of
        (Inl e, s1) \<Rightarrow> (Inl (Wrap ''stack value'' e), s1)
      | (Inr r, s1) \<Rightarrow> (Inr (respFixtValue r), s1))"

subsection \<open>The combined stack\<close>

record 'w CombinedStack =
  cparent :: ExternalStack
  cchild :: "'w InternalStack"

definition cs_Status :: "'w CombinedStack \<Rightarrow> Status" where
  "cs_Status c = (if xstatus (cparent c) \<noteq> StatusGreen then xstatus (cparent c) else is_Status (cchild c))"

definition cs_Errors :: "'w CombinedStack \<Rightarrow> PError list" where
  "cs_Errors c = (if xerrors (cparent c) \<noteq> [] then xerrors (cparent c) else is_Errors (cchild c))"

text \<open>The parent's \<open>Val\<close> is always \<open>nil\<close>.\<close>

definition cs_Val :: "'w CombinedStack \<Rightarrow> val" where
  "cs_Val c = (if stack (cchild c) \<noteq> [] then is_Val (cchild c) else None)"

definition cs_SerializedVal :: "'w env \<Rightarrow> 'w CombinedStack \<Rightarrow> 'w sys \<Rightarrow> string res \<times> 'w sys" where
  "cs_SerializedVal env c s =
     (if stack (cchild c) \<noteq> [] \<and> is_Val (cchild c) \<noteq> None
      then (case is_SerializedVal (marshal env) (world s) (cchild c) of
              Inl e \<Rightarrow> (Inl e, s)
            | Inr d \<Rightarrow> (Inr (case d of Some b \<Rightarrow> b | None \<Rightarrow> []), s))
      else xs_SerializedVal env s)"

definition cs_Push ::
  "'w env \<Rightarrow> FixtConfig \<Rightarrow> 'w FixtureInstance \<Rightarrow> 'w CombinedStack \<Rightarrow> 'w sys \<Rightarrow>
     goerr option \<times> 'w CombinedStack \<times> 'w sys" where
  "cs_Push env cfg fi c s =
     (let (e, st, s') = is_Push (e_os env) cfg fi (cchild c) s in (e, c\<lparr>cchild := st\<rparr>, s'))"

definition cs_Pop ::
  "FixtConfig \<Rightarrow> 'w CombinedStack \<Rightarrow> 'w sys \<Rightarrow> goerr option \<times> 'w CombinedStack \<times> 'w sys" where
  "cs_Pop cfg c s = (let (e, st, s') = is_Pop cfg (cchild c) s in (e, c\<lparr>cchild := st\<rparr>, s'))"

text \<open>The error of \<open>child.MarkDirty\<close> is dropped.\<close>

definition cs_SetDirty ::
  "'w env \<Rightarrow> bool \<Rightarrow> 'w CombinedStack \<Rightarrow> 'w sys \<Rightarrow> goerr option \<times> 'w CombinedStack \<times> 'w sys" where
  "cs_SetDirty env d c s =
     (case xs_SetDirty env d s of
        (Some e, s1) \<Rightarrow> (Some e, c, s1)
      | (None, s1) \<Rightarrow>
          (None, c\<lparr>cchild := (if d then snd (is_MarkDirty (cchild c)) else (cchild c)\<lparr>dirty := False\<rparr>)\<rparr>, s1))"

definition cs_Reset ::
  "'w env \<Rightarrow> FixtConfig \<Rightarrow> 'w CombinedStack \<Rightarrow> 'w sys \<Rightarrow> goerr option \<times> 'w CombinedStack \<times> 'w sys" where
  "cs_Reset env cfg c s =
     (case cs_SetDirty env False c s of
        (Some e, c1, s1) \<Rightarrow> (Some (Wrap ''stack reset'' e), c1, s1)
      | (None, c1, s1) \<Rightarrow>
          (case cs_Status c1 of
             StatusRed \<Rightarrow> (None, c1, s1)
           | StatusYellow \<Rightarrow> (Some (BUG ''Reset called for a yellow fixture stack''), c1, s1)
           | StatusGreen \<Rightarrow>
               (case xs_Reset env (cparent c1) s1 of
                  (Some e, x, s2) \<Rightarrow> (Some e, c1\<lparr>cparent := x\<rparr>, s2)
                | (None, x, s2) \<Rightarrow>
                    let c2 = c1\<lparr>cparent := x\<rparr> in
                    (case xstatus x of
                       StatusRed \<Rightarrow> (Some (BUG ''parent fixture is red after calling Reset''), c2, s2)
                     | StatusYellow \<Rightarrow> (None, c2, s2)
                     | StatusGreen \<Rightarrow>
                         (case is_Reset cfg (cchild c2) s2 of
                            (Some e, st, s3) \<Rightarrow> (Some e, c2\<lparr>cchild := st\<rparr>, s3)
                          | (None, st, s3) \<Rightarrow>
                              (if is_Status st = StatusRed
                               then (Some (BUG ''child fixture is red after calling Reset''), c2\<lparr>cchild := st\<rparr>, s3)
                               else (None, c2\<lparr>cchild := st\<rparr>, s3)))))))"

definition cs_PreTest ::
  "'w env \<Rightarrow> FixtConfig \<Rightarrow> Entity \<Rightarrow> string \<Rightarrow> 'w CombinedStack \<Rightarrow> 'w trun \<Rightarrow> hook list res \<times> 'w trun" where
  "cs_PreTest env cfg test outDir c t =
     (if cs_Status c \<noteq> StatusGreen
      then (Inl (BUG (''PreTest called for a '' @ Status_String (cs_Status c) @ '' fixture'')), t)
      else case xs_PreTest env test t of
             (Some e, t1) \<Rightarrow> (Inl e, t1)
           | (None, t1) \<Rightarrow> is_PreTest cfg outDir (EName test) (cchild c) t1)"

definition cs_PostTest ::
  "'w env \<Rightarrow> FixtConfig \<Rightarrow> Entity \<Rightarrow> hook list \<Rightarrow> 'w CombinedStack \<Rightarrow> 'w trun \<Rightarrow> goerr option \<times> 'w trun" where
  "cs_PostTest env cfg test hooks c t =
     (if cs_Status c \<noteq> StatusGreen
      then (Some (BUG (''PreTest called for a '' @ Status_String (cs_Status c) @ '' fixture'')), t)
      else case is_PostTest cfg hooks (cchild c) t of
             (Some e, t1) \<Rightarrow> (Some e, t1)
           | (None, t1) \<Rightarrow> xs_PostTest env test t1)"

record StartFixtureState =
  sfName :: string
  sfErrors :: "PError list"

definition cs_Top :: "'w CombinedStack \<Rightarrow> StartFixtureState option" where
  "cs_Top c =
     (if stack (cchild c) = [] then None
      else let f = last (stack (cchild c)) in Some \<lparr>sfName = fName (fixt f), sfErrors = sf_errs f\<rparr>)"

subsection \<open>The stack server\<close>

text \<open>The closure \<open>s.postTest\<close> with what it captures: the test, the hooks, the test's stream and
  condition.\<close>

record pending =
  pd_test :: Entity
  pd_hooks :: "hook list"
  pd_tout :: EntityStream
  pd_condition :: bool

record 'w StackServer =
  srv_stack :: "'w CombinedStack"
  srv_postTest :: "pending option"

type_synonym 'w srv_result = "StackOperationResponse res \<times> 'w StackServer \<times> 'w sys"

definition srv_Reset :: "'w env \<Rightarrow> FixtConfig \<Rightarrow> 'w StackServer \<Rightarrow> 'w sys \<Rightarrow> 'w srv_result" where
  "srv_Reset env cfg srv s =
     (case cs_Reset env cfg (srv_stack srv) s of
        (Some e, c, s1) \<Rightarrow> (Inl e, srv\<lparr>srv_stack := c\<rparr>, s1)
      | (None, c, s1) \<Rightarrow> (Inr (resp0\<lparr>respStatus := cs_Status c\<rparr>), srv\<lparr>srv_stack := c\<rparr>, s1))"

definition srv_PreTest ::
  "'w env \<Rightarrow> FixtConfig \<Rightarrow> Entity option \<Rightarrow> bool \<Rightarrow> 'w StackServer \<Rightarrow> 'w sys \<Rightarrow> 'w srv_result" where
  "srv_PreTest env cfg ent hasError srv s =
     (if srv_postTest srv \<noteq> None
      then (Inl (BUG ''PreTest called without PostTest called after successful PreTest''), srv, s)
      else case ent of
        None \<Rightarrow> (Inl (Errorf ''PreTest: no test set''), srv, s)
      | Some test \<Rightarrow>
          (case CreateOutDir (e_os env) (cOutDir cfg) (EName test) (world s) of
             (Inl e, w1) \<Rightarrow> (Inl e, srv, s\<lparr>world := w1\<rparr>)
           | (Inr outDir, w1) \<Rightarrow>
               (case cs_PreTest env cfg test outDir (srv_stack srv)
                       \<lparr>tout = NewEntityStream test, condition = hasError, tsys = s\<lparr>world := w1\<rparr>\<rparr> of
                  (Inl e, t1) \<Rightarrow> (Inl e, srv, tsys t1)
                | (Inr hooks, t1) \<Rightarrow>
                    (Inr (resp0\<lparr>respTestHasError := condition t1\<rparr>),
                     srv\<lparr>srv_postTest := Some \<lparr>pd_test = test, pd_hooks = hooks, pd_tout = tout t1,
                        pd_condition = condition t1\<rparr>\<rparr>, tsys t1))))"

definition srv_PostTest ::
  "'w env \<Rightarrow> FixtConfig \<Rightarrow> bool \<Rightarrow> 'w StackServer \<Rightarrow> 'w sys \<Rightarrow> 'w srv_result" where
  "srv_PostTest env cfg hasError srv s =
     (case srv_postTest srv of
        None \<Rightarrow> (Inl (BUG ''PostTest should be called after PreTest''), srv, s)
      | Some pd \<Rightarrow>
          (case cs_PostTest env cfg (pd_test pd) (pd_hooks pd) (srv_stack srv)
                  \<lparr>tout = pd_tout pd, condition = pd_condition pd \<or> hasError, tsys = s\<rparr> of
             (Some e, t1) \<Rightarrow>
               (Inl e, srv\<lparr>srv_postTest := Some (pd\<lparr>pd_tout := tout t1, pd_condition := condition t1\<rparr>)\<rparr>, tsys t1)
           | (None, t1) \<Rightarrow>
               (Inr (resp0\<lparr>respTestHasError := condition t1\<rparr>), srv\<lparr>srv_postTest := None\<rparr>, tsys t1)))"

definition srv_FixtValue :: "'w env \<Rightarrow> 'w StackServer \<Rightarrow> 'w sys \<Rightarrow> 'w srv_result" where
  "srv_FixtValue env srv s =
     (case cs_SerializedVal env (srv_stack srv) s of
        (Inl e, s1) \<Rightarrow> (Inl e, srv, s1)
      | (Inr d, s1) \<Rightarrow> (Inr (resp0\<lparr>respFixtValue := d\<rparr>), srv, s1))"

fun srv_dispatch ::
  "'w env \<Rightarrow> FixtConfig \<Rightarrow> StackOperationRequest \<Rightarrow> 'w StackServer \<Rightarrow> 'w sys \<Rightarrow> 'w srv_result" where
  "srv_dispatch env cfg ReqReset srv s = srv_Reset env cfg srv s"
| "srv_dispatch env cfg (ReqPreTest ent he) srv s = srv_PreTest env cfg ent he srv s"
| "srv_dispatch env cfg (ReqPostTest ent he) srv s = srv_PostTest env cfg he srv s"
| "srv_dispatch env cfg ReqStatus srv s = (Inr (resp0\<lparr>respStatus := cs_Status (srv_stack srv)\<rparr>), srv, s)"
| "srv_dispatch env cfg (ReqSetDirty d) srv s =
     (case cs_SetDirty env d (srv_stack srv) s of
        (Some e, c, s1) \<Rightarrow> (Inl e, srv\<lparr>srv_stack := c\<rparr>, s1)
      | (None, c, s1) \<Rightarrow> (Inr resp0, srv\<lparr>srv_stack := c\<rparr>, s1))"
| "srv_dispatch env cfg ReqErrors srv s = (Inr (resp0\<lparr>respErrors := cs_Errors (srv_stack srv)\<rparr>), srv, s)"
| "srv_dispatch env cfg ReqValue srv s = srv_FixtValue env srv s"

definition srv_Handle ::
  "'w env \<Rightarrow> FixtConfig \<Rightarrow> StackOperationRequest \<Rightarrow> 'w StackServer \<Rightarrow> 'w sys \<Rightarrow>
     StackOperationResponse \<times> 'w StackServer \<times> 'w sys" where
  "srv_Handle env cfg req srv s =
     (case srv_dispatch env cfg req srv s of
        (Inl e, srv1, s1) \<Rightarrow> (resp0\<lparr>FatalError := err_msg e\<rparr>, srv1, s1)
      | (Inr r, srv1, s1) \<Rightarrow> (r, srv1, s1))"

subsection \<open>The planner's stack\<close>

text \<open>\<open>internalOrCombinedStack\<close>: one of its two fields is set.\<close>

datatype 'w pstack = PInternal "'w InternalStack" | PCombined "'w CombinedStack"

fun ps_Status :: "'w pstack \<Rightarrow> Status" where
  "ps_Status (PInternal st) = is_Status st"
| "ps_Status (PCombined c) = cs_Status c"

fun ps_Errors :: "'w pstack \<Rightarrow> PError list" where
  "ps_Errors (PInternal st) = is_Errors st"
| "ps_Errors (PCombined c) = cs_Errors c"

fun ps_Val :: "'w pstack \<Rightarrow> val" where
  "ps_Val (PInternal st) = is_Val st"
| "ps_Val (PCombined c) = cs_Val c"

fun ps_Push ::
  "'w env \<Rightarrow> FixtConfig \<Rightarrow> 'w FixtureInstance \<Rightarrow> 'w pstack \<Rightarrow> 'w sys \<Rightarrow> goerr option \<times> 'w pstack \<times> 'w sys" where
  "ps_Push env cfg fi (PInternal st) s =
     (let (e, st', s') = is_Push (e_os env) cfg fi st s in (e, PInternal st', s'))"
| "ps_Push env cfg fi (PCombined c) s = (let (e, c', s') = cs_Push env cfg fi c s in (e, PCombined c', s'))"

fun ps_Pop :: "FixtConfig \<Rightarrow> 'w pstack \<Rightarrow> 'w sys \<Rightarrow> goerr option \<times> 'w pstack \<times> 'w sys" where
  "ps_Pop cfg (PInternal st) s = (let (e, st', s') = is_Pop cfg st s in (e, PInternal st', s'))"
| "ps_Pop cfg (PCombined c) s = (let (e, c', s') = cs_Pop cfg c s in (e, PCombined c', s'))"

fun ps_Reset :: "'w env \<Rightarrow> FixtConfig \<Rightarrow> 'w pstack \<Rightarrow> 'w sys \<Rightarrow> goerr option \<times> 'w pstack \<times> 'w sys" where
  "ps_Reset env cfg (PInternal st) s = (let (e, st', s') = is_Reset cfg st s in (e, PInternal st', s'))"
| "ps_Reset env cfg (PCombined c) s = (let (e, c', s') = cs_Reset env cfg c s in (e, PCombined c', s'))"

fun ps_PreTest ::
  "'w env \<Rightarrow> FixtConfig \<Rightarrow> Entity \<Rightarrow> string \<Rightarrow> 'w pstack \<Rightarrow> 'w trun \<Rightarrow> hook list res \<times> 'w trun" where
  "ps_PreTest env cfg test outDir (PInternal st) t = is_PreTest cfg outDir (EName test) st t"
| "ps_PreTest env cfg test outDir (PCombined c) t = cs_PreTest env cfg test outDir c t"

fun ps_PostTest ::
  "'w env \<Rightarrow> FixtConfig \<Rightarrow> Entity \<Rightarrow> hook list \<Rightarrow> 'w pstack \<Rightarrow> 'w trun \<Rightarrow> goerr option \<times> 'w trun" where
  "ps_PostTest env cfg test hooks (PInternal st) t = is_PostTest cfg hooks st t"
| "ps_PostTest env cfg test hooks (PCombined c) t = cs_PostTest env cfg test hooks c t"

fun ps_MarkDirty :: "'w env \<Rightarrow> 'w pstack \<Rightarrow> 'w sys \<Rightarrow> goerr option \<times> 'w pstack \<times> 'w sys" where
  "ps_MarkDirty env (PInternal st) s = (let (e, st') = is_MarkDirty st in (e, PInternal st', s))"
| "ps_MarkDirty env (PCombined c) s = (let (e, c', s') = cs_SetDirty env True c s in (e, PCombined c', s'))"

subsection \<open>Client and server\<close>

text \<open>
  The two processes together: the world of the bundle that holds the \<open>ExternalStack\<close> is the server
  with its own system, and \<open>eventWriter.StackOperation\<close> returns the server's response as it is.
\<close>

definition serve ::
  "'w env \<Rightarrow> FixtConfig \<Rightarrow> StackOperationRequest \<Rightarrow> 'w StackServer \<times> 'w sys \<Rightarrow>
     (string + StackOperationResponse) \<times> ('w StackServer \<times> 'w sys)" where
  "serve env cfg req p = (let (r, srv, s) = srv_Handle env cfg req (fst p) (snd p) in (Inr r, srv, s))"

definition linked :: "'w env \<Rightarrow> FixtConfig \<Rightarrow> ('w StackServer \<times> 'w sys) env \<Rightarrow> ('w StackServer \<times> 'w sys) env" where
  "linked env cfg cenv = cenv\<lparr>e_StackOperation := serve env cfg\<rparr>"

datatype xs_op = XReset | XPreTest Entity | XPostTest Entity | XSetDirty bool

fun xs_step :: "'v env \<Rightarrow> xs_op \<Rightarrow> ExternalStack \<times> 'v trun \<Rightarrow> ExternalStack \<times> 'v trun" where
  "xs_step env XReset (x, t) = (let (e, x', s') = xs_Reset env x (tsys t) in (x', t\<lparr>tsys := s'\<rparr>))"
| "xs_step env (XPreTest test) (x, t) = (x, snd (xs_PreTest env test t))"
| "xs_step env (XPostTest test) (x, t) = (x, snd (xs_PostTest env test t))"
| "xs_step env (XSetDirty d) (x, t) = (let (e, s') = xs_SetDirty env d (tsys t) in (x, t\<lparr>tsys := s'\<rparr>))"

definition server :: "('w StackServer \<times> 'w sys) trun \<Rightarrow> 'w StackServer" where
  "server t = fst (world (tsys t))"

definition coherent :: "ExternalStack \<times> ('w StackServer \<times> 'w sys) trun \<Rightarrow> bool" where
  "coherent p \<longleftrightarrow> xstatus (fst p) = cs_Status (srv_stack (server (snd p))) \<and>
     xerrors (fst p) = cs_Errors (srv_stack (server (snd p)))"

text \<open>The server handles every \<open>Reset\<close> the client sends in the sequence without a framework error.\<close>

fun resets_ok :: "'w env \<Rightarrow> FixtConfig \<Rightarrow> ('w StackServer \<times> 'w sys) env \<Rightarrow> xs_op list \<Rightarrow>
    ExternalStack \<times> ('w StackServer \<times> 'w sys) trun \<Rightarrow> bool" where
  "resets_ok env cfg cenv [] p = True"
| "resets_ok env cfg cenv (op # ops) p =
     ((case op of XReset \<Rightarrow> is_ok (fst (srv_Reset env cfg (fst (world (tsys (snd p)))) (snd (world (tsys (snd p))))))
       | _ \<Rightarrow> True) \<and> resets_ok env cfg cenv ops (xs_step (linked env cfg cenv) op p))"

lemma rpc_linked:
  "rpc (linked env cfg cenv) req s =
     (let (r, srv, s') = srv_Handle env cfg req (fst (world s)) (snd (world s)) in (Inr r, s\<lparr>world := (srv, s')\<rparr>))"
  by (simp add: rpc_def linked_def serve_def Let_def split_beta)

text \<open>Only \<open>Reset\<close> changes the status or the errors the server's stack shows.\<close>

lemma is_MarkDirty_view [simp]:
  "is_Status (snd (is_MarkDirty st)) = is_Status st" "is_Errors (snd (is_MarkDirty st)) = is_Errors st"
  "is_Status (st\<lparr>dirty := b\<rparr>) = is_Status st" "is_Errors (st\<lparr>dirty := b\<rparr>) = is_Errors st"
  by (simp_all add: is_MarkDirty_def is_Status_def is_Errors_def)

lemma cs_SetDirty_view:
  assumes "cs_SetDirty env d c s = (e, c', s')"
  shows "cs_Status c' = cs_Status c" "cs_Errors c' = cs_Errors c" "cparent c' = cparent c"
  using assms by (auto simp: cs_SetDirty_def cs_Status_def cs_Errors_def split: prod.splits option.splits)

lemma srv_PreTest_stack: "srv_stack (fst (snd (srv_PreTest env cfg ent he srv s))) = srv_stack srv"
  by (simp add: srv_PreTest_def split: option.split prod.split sum.split)

lemma srv_PostTest_stack: "srv_stack (fst (snd (srv_PostTest env cfg he srv s))) = srv_stack srv"
  by (simp add: srv_PostTest_def split: option.split prod.split)

lemma srv_Handle_stack:
  "fst (snd (srv_Handle env cfg req srv s)) = fst (snd (srv_dispatch env cfg req srv s))"
  by (simp add: srv_Handle_def split: prod.split sum.split)

lemma first_red_errors_none: "\<forall>f\<in>set fs. status f \<noteq> StatusRed \<Longrightarrow> first_red_errors fs = []"
  by (induction fs) auto

lemma reset_fixtures_no_red:
  "reset_fixtures cfg fs s = (e, fs', s') \<Longrightarrow> \<forall>f\<in>set fs. status f = StatusGreen \<Longrightarrow>
     \<forall>f\<in>set fs'. status f \<noteq> StatusRed"
proof (induction fs arbitrary: s e fs' s')
  case (Cons f fs)
  obtain e1 f1 s1 where r: "RunReset cfg f s = (e1, f1, s1)" by (metis prod_cases3)
  obtain e2 fs2 s2 where r2: "reset_fixtures cfg fs s1 = (e2, fs2, s2)" by (metis prod_cases3)
  have "\<forall>f\<in>set fs2. status f \<noteq> StatusRed" using Cons.IH [OF r2] Cons.prems(2) by simp
  then show ?case using Cons.prems r r2 RunReset_status [OF r] by (auto split: option.splits)
qed simp

lemma is_Reset_errors: "is_Reset cfg st s = (e, st', s') \<Longrightarrow> is_Errors st' = is_Errors st"
proof (cases "is_Status st")
  case StatusGreen
  assume "is_Reset cfg st s = (e, st', s')"
  then obtain fs' where r: "reset_fixtures cfg (stack st) s = (e, fs', s')" and "stack st' = fs'"
    using StatusGreen by (auto simp: is_Reset_def is_Status_def Let_def split: prod.splits)
  moreover have "\<forall>f\<in>set (stack st). status f = StatusGreen"
    using StatusGreen by (simp add: is_Status_def first_not_green_Green)
  ultimately show ?thesis using reset_fixtures_no_red [OF r]
    by (simp add: is_Errors_def first_red_errors_none)
qed (auto simp: is_Reset_def is_Status_def is_Errors_def Let_def)

lemma cs_Reset_errors:
  assumes "cs_Reset env cfg c s = (e, c', s')"
  shows "cs_Errors c' = cs_Errors c"
proof -
  obtain e1 c1 s1 where d: "cs_SetDirty env False c s = (e1, c1, s1)" by (metis prod_cases3)
  obtain e2 x s2 where x: "xs_Reset env (cparent c1) s1 = (e2, x, s2)" by (metis prod_cases3)
  obtain e3 st s3 where r: "is_Reset cfg (cchild c1) s2 = (e3, st, s3)" by (metis prod_cases3)
  have "xerrors x = xerrors (cparent c1)"
    using x by (auto simp: xs_Reset_def split: prod.splits sum.splits)
  then have "cs_Errors (c1\<lparr>cparent := x\<rparr>) = cs_Errors c"
    "cs_Errors (c1\<lparr>cparent := x, cchild := st\<rparr>) = cs_Errors c"
    using cs_SetDirty_view [OF d] is_Reset_errors [OF r] by (auto simp: cs_Errors_def split: if_splits)
  moreover have "c' \<in> {c1, c1\<lparr>cparent := x\<rparr>, c1\<lparr>cparent := x, cchild := st\<rparr>}"
    using assms d x r by (auto simp: cs_Reset_def Let_def split: option.splits Status.splits if_splits)
  ultimately show ?thesis using cs_SetDirty_view [OF d] by auto
qed

lemma srv_Reset_ok:
  assumes "srv_Reset env cfg srv s = (Inr r, srv', s')"
  shows "respStatus r = cs_Status (srv_stack srv')" "cs_Errors (srv_stack srv') = cs_Errors (srv_stack srv)"
  using assms cs_Reset_errors [of env cfg "srv_stack srv" s]
  by (auto simp: srv_Reset_def split: prod.splits option.splits)

lemma xs_step_coherent:
  assumes "coherent (x, t)"
    and "op = XReset \<Longrightarrow> is_ok (fst (srv_Reset env cfg (fst (world (tsys t))) (snd (world (tsys t)))))"
  shows "coherent (xs_step (linked env cfg cenv) op (x, t))"
proof -
  obtain srv s where w: "world (tsys t) = (srv, s)" by fastforce
  show ?thesis
  proof (cases op)
    case XReset
    then obtain r srv' s' where r: "srv_Reset env cfg srv s = (Inr r, srv', s')"
      using assms(2) w by (cases "srv_Reset env cfg srv s"; cases "fst (srv_Reset env cfg srv s)") auto
    then show ?thesis using XReset assms(1) w srv_Reset_ok [OF r]
      by (simp add: coherent_def server_def xs_Reset_def rpc_linked srv_Handle_def)
  next
    case (XPreTest test)
    then show ?thesis using assms(1) w srv_PreTest_stack [of env cfg "Some test" "condition t" srv s]
      by (simp add: coherent_def server_def xs_PreTest_def rpc_linked record_error_def srv_Handle_stack
          Let_def split_beta)
  next
    case (XPostTest test)
    then show ?thesis using assms(1) w srv_PostTest_stack [of env cfg "condition t" srv s]
      by (simp add: coherent_def server_def xs_PostTest_def rpc_linked record_error_def srv_Handle_stack
          Let_def split_beta)
  next
    case (XSetDirty d)
    obtain e c s1 where c: "cs_SetDirty env d (srv_stack srv) s = (e, c, s1)" by (metis prod_cases3)
    then show ?thesis using XSetDirty assms(1) w cs_SetDirty_view [OF c]
      by (cases e) (simp_all add: coherent_def server_def xs_SetDirty_def rpc_linked srv_Handle_def)
  qed
qed

text \<open>C31: The status and the errors that an \<open>ExternalStack\<close> caches are those of the stack on the server's
  side: they agree when the client is created, and after every sequence of the client's operations
  (\<open>Reset\<close>, \<open>PreTest\<close>, \<open>PostTest\<close>, \<open>SetDirty\<close>, with any outcome) in which the server handled the
  \<open>Reset\<close> requests without a framework error.\<close>

theorem external_stack_coherent:
  assumes "NewExternalStack (linked env cfg cenv) s = (Inr x, s')"
    and "resets_ok env cfg cenv ops (x, t\<lparr>tsys := s'\<rparr>)"
  shows "coherent (fold (xs_step (linked env cfg cenv)) ops (x, t\<lparr>tsys := s'\<rparr>))"
proof -
  have fold: "coherent (fold (xs_step (linked env cfg cenv)) ops p)"
    if "coherent p" "resets_ok env cfg cenv ops p" for p
    using that
  proof (induction ops arbitrary: p)
    case (Cons op ops)
    obtain x t where p: "p = (x, t)" by fastforce
    have "coherent (xs_step (linked env cfg cenv) op p)"
      unfolding p by (rule xs_step_coherent) (use Cons.prems p in auto)
    with Cons.IH Cons.prems(2) show ?case by simp
  qed simp
  have "coherent (x, t\<lparr>tsys := s'\<rparr>)"
    using assms(1) by (auto simp: NewExternalStack_def rpc_linked srv_Handle_def coherent_def server_def resp0_def)
  from fold [OF this assms(2)] show ?thesis .
qed

text \<open>C32: A framework error of the server is lost on the way to the client: \<open>Handle\<close> puts it into the
  \<open>FatalError\<close> field of the response, which no client reads.  When the server's \<open>Reset\<close> fails (a
  fixture's \<open>Reset\<close> ignored its timeout, say), the client's \<open>Reset\<close> returns no error and records
  the status \<open>GREEN\<close>, the zero value of the field the server did not set.\<close>

theorem server_error_is_lost:
  assumes "srv_Reset env cfg srv s = (Inl e, srv', s')" and "world cs = (srv, s)"
  shows "xs_Reset (linked env cfg cenv) x cs = (None, x\<lparr>xstatus := StatusGreen\<rparr>, cs\<lparr>world := (srv', s')\<rparr>)"
  using assms by (simp add: xs_Reset_def rpc_linked srv_Handle_def resp0_def)


subsection \<open>Witnesses\<close>

definition ex_env :: "'w env" where
  "ex_env = \<lparr>e_os = ex_os, e_StackOperation = (\<lambda>req w. (Inr resp0, w)), e_Marshal = (\<lambda>w v. Inr ''null'')\<rparr>"

definition ex_combined :: "unit FixtureInstance \<Rightarrow> unit CombinedStack" where
  "ex_combined fi = \<lparr>cparent = \<lparr>xstatus = StatusGreen, xerrors = []\<rparr>,
     cchild = is_exec ex_os ex_cfg [OpPush fi] ex_sys\<rparr>"

definition ex_server :: "unit FixtureInstance \<Rightarrow> unit StackServer" where
  "ex_server fi = \<lparr>srv_stack = ex_combined fi, srv_postTest = None\<rparr>"

definition ex_client_sys :: "unit FixtureInstance \<Rightarrow> (unit StackServer \<times> unit sys) sys" where
  "ex_client_sys fi = \<lparr>world = (ex_server fi, ex_sys), out = \<lparr>sent = [], send_err = (\<lambda>ev. None)\<rparr>\<rparr>"

definition ex_hanging :: "unit FixtureInstance" where
  "ex_hanging = (ex_fixture ''a'' [] [] None)
     \<lparr>fImpl := (fImpl (ex_fixture ''a'' [] [] None))
        \<lparr>iReset := (\<lambda>w. \<lparr>reports = [], finish = None, cancelled = None, uworld = w\<rparr>)\<rparr>\<rparr>"

theorem external_stack_coherent_witness:
  "let fi = ex_fixture ''a'' [] [] (Some (Errorf ''broken''));
       t = \<lparr>tout = tout ex_trun, condition = False, tsys = ex_client_sys fi\<rparr>;
       p = fold (xs_step (linked ex_env ex_cfg ex_env)) [XSetDirty True, XReset]
             (\<lparr>xstatus = StatusGreen, xerrors = []\<rparr>, t)
   in coherent p \<and> xstatus (fst p) = StatusYellow"
proof -
  let ?fi = "ex_fixture ''a'' [] [] (Some (Errorf ''broken''))"
  let ?t = "\<lparr>tout = tout ex_trun, condition = False, tsys = ex_client_sys ?fi\<rparr>"
  have n: "NewExternalStack (linked ex_env ex_cfg ex_env) (ex_client_sys ?fi) =
      (Inr \<lparr>xstatus = cs_Status (ex_combined ?fi), xerrors = cs_Errors (ex_combined ?fi)\<rparr>, ex_client_sys ?fi)"
    by (simp add: NewExternalStack_def rpc_linked srv_Handle_def ex_client_sys_def ex_server_def resp0_def)
  have st: "cs_Status (ex_combined ?fi) = StatusGreen" "cs_Errors (ex_combined ?fi) = []" by code_simp+
  have n2: "NewExternalStack (linked ex_env ex_cfg ex_env) (ex_client_sys ?fi) =
      (Inr \<lparr>xstatus = StatusGreen, xerrors = []\<rparr>, ex_client_sys ?fi)"
    using n by (simp only: st)
  have ok: "resets_ok ex_env ex_cfg ex_env [XSetDirty True, XReset]
      (\<lparr>xstatus = StatusGreen, xerrors = []\<rparr>, ?t)" by code_simp
  have y: "xstatus (fst (fold (xs_step (linked ex_env ex_cfg ex_env)) [XSetDirty True, XReset]
      (\<lparr>xstatus = StatusGreen, xerrors = []\<rparr>, ?t))) = StatusYellow" by code_simp
  from external_stack_coherent [OF n2, of "[XSetDirty True, XReset]" ?t] ok y
  show ?thesis unfolding Let_def by simp
qed

theorem server_error_is_lost_witness:
  "let cs = ex_client_sys ex_hanging; x = \<lparr>xstatus = StatusYellow, xerrors = []\<rparr>
   in \<not> is_ok (fst (srv_Reset ex_env ex_cfg (ex_server ex_hanging) ex_sys)) \<and>
      fst (xs_Reset (linked ex_env ex_cfg ex_env) x cs) = None \<and>
      xstatus (fst (snd (xs_Reset (linked ex_env ex_cfg ex_env) x cs))) = StatusGreen"
proof -
  obtain r srv' s' where r: "srv_Reset ex_env ex_cfg (ex_server ex_hanging) ex_sys = (r, srv', s')"
    by (metis prod_cases3)
  have f: "\<not> is_ok (fst (srv_Reset ex_env ex_cfg (ex_server ex_hanging) ex_sys))" by code_simp
  with r obtain e where "r = Inl e" by (cases r) auto
  with r have r': "srv_Reset ex_env ex_cfg (ex_server ex_hanging) ex_sys = (Inl e, srv', s')" by simp
  have "world (ex_client_sys ex_hanging) = (ex_server ex_hanging, ex_sys)" by (simp add: ex_client_sys_def)
  from server_error_is_lost [OF r' this, of ex_env] f show ?thesis unfolding Let_def by simp
qed


end
