(* ===== verification/Extdata.thy ===== *)
theory Extdata
  imports Output OS "HOL-Library.AList"
begin

text \<open>
  External data files, \<open>internal/extdata/extdata.go\<close>, and the planner's downloader,
  \<open>internal/planner/downloader.go\<close>.  Parameters: the operating system, the JSON decoder, SHA-256 (in
  hexadecimal), and the devserver client, which fetches a URL.  A Go map from strings to counts is a
  function that is zero where the map has no entry.  Log messages are not carried, nor is the dump
  of the two links in the message about conflicting links.
\<close>

subsection \<open>Links\<close>

record LinkData =
  LType :: string
  StaticURL :: string
  LSize :: int
  SHA256Sum :: string
  LName :: string
  Executable :: bool

record link =
  Data :: LinkData
  ComputedURL :: string

definition TypeStatic :: string where
  "TypeStatic = []"

definition TypeArtifact :: string where
  "TypeArtifact = ''artifact''"

definition newLink :: "LinkData \<Rightarrow> string \<Rightarrow> link res" where
  "newLink d artifactsURL =
     (if LType d = TypeStatic then
        if StaticURL d = [] then Inl (Errorf ''url field must not be empty for static external data file'')
        else if LName d \<noteq> [] then Inl (Errorf ''name field must be empty for static external data file'')
        else if SHA256Sum d = [] then Inl (Errorf ''sha256sum field must not be empty for static external data file'')
        else Inr \<lparr>Data = d, ComputedURL = StaticURL d\<rparr>
      else if LType d = TypeArtifact then
        if StaticURL d \<noteq> [] then Inl (Errorf ''url field must be empty for artifact external data file'')
        else if LName d = [] then Inl (Errorf ''name field must not be empty for artifact external data file'')
        else if SHA256Sum d \<noteq> [] then Inl (Errorf ''sha256sum field must be empty for artifact external data file'')
        else if LSize d \<noteq> 0 then Inl (Errorf ''size field must be empty for artifact external data file'')
        else if artifactsURL = [] then Inl (Errorf ''build artifact URL is unknown (running a developer build?)'')
        else Inr \<lparr>Data = d, ComputedURL = artifactsURL @ LName d\<rparr>
      else Inl (Errorf (''unknown external data link type '' @ LType d)))"

record 'w xenv =
  x_os :: "'w os"
  x_decode :: "string \<Rightarrow> string + LinkData"
  x_sha256 :: "string \<Rightarrow> string"
  x_fetch :: "string \<Rightarrow> 'w \<Rightarrow> (string + string) \<times> 'w"

definition loadLink :: "'w xenv \<Rightarrow> string \<Rightarrow> string \<Rightarrow> 'w \<Rightarrow> link res" where
  "loadLink env path artifactsURL w =
     (case os_Open (x_os env) w path of
        OpenNotExist \<Rightarrow> Inl (Errorf (''open '' @ path @ '': no such file or directory''))
      | OpenErr e \<Rightarrow> Inl (Errorf e)
      | OpenOk d \<Rightarrow>
          (case x_decode env d of
             Inl e \<Rightarrow> Inl (Errorf e)
           | Inr ld \<Rightarrow> newLink ld artifactsURL))"

text \<open>\<open>verify\<close> on the content of the file.\<close>

definition verify :: "'w xenv \<Rightarrow> string \<Rightarrow> link \<Rightarrow> goerr option" where
  "verify env d l =
     (if LType (Data l) = TypeArtifact then None
      else if int (length d) \<noteq> LSize (Data l) then
        Some (Errorf (''file size mismatch; got '' @ show_nat (length d) @ '' bytes, want '' @
          show_int (LSize (Data l)) @ '' bytes''))
      else if x_sha256 env d \<noteq> SHA256Sum (Data l) then
        Some (Errorf (''hash mismatch; got '' @ x_sha256 env d @ '', want '' @ SHA256Sum (Data l)))
      else None)"

definition shouldDownload :: "'w xenv \<Rightarrow> 'w \<Rightarrow> string \<Rightarrow> link \<Rightarrow> string \<Rightarrow> bool" where
  "shouldDownload env w d l destPath =
     (if LType (Data l) = TypeArtifact then
        (case os_ReadFile (x_os env) w (destPath @ ExternalURLSuffix) of
           None \<Rightarrow> True
         | Some urlRecord \<Rightarrow> ComputedURL l \<noteq> urlRecord)
      else verify env d l \<noteq> None)"

subsection \<open>The manager\<close>

record DownloadJob =
  jlink :: link
  jdests :: "string list"

record Manager =
  mDataDir :: string
  mArtifactsURL :: string
  mAll :: "string list"
  inuse :: "string \<Rightarrow> int"

definition TrimSuffix :: "string \<Rightarrow> string \<Rightarrow> string" where
  "TrimSuffix s suf = (if HasSuffix s suf then take (length s - length suf) s else s)"

text \<open>\<open>filepath.Walk\<close> is a parameter; an error that the directory does not exist is an empty walk.\<close>

definition NewManager :: "'w xenv \<Rightarrow> string \<Rightarrow> string \<Rightarrow> 'w \<Rightarrow> Manager res" where
  "NewManager env dataDir artifactsURL w =
     (case os_Walk (x_os env) w dataDir of
        Inl e \<Rightarrow> Inl (Errorf (''failed to walk data directory: '' @ e))
      | Inr paths \<Rightarrow>
          Inr \<lparr>mDataDir = dataDir, mArtifactsURL = artifactsURL,
               mAll = sort (map (\<lambda>p. TrimSuffix p ExternalLinkSuffix)
                        (filter (\<lambda>p. HasSuffix p ExternalLinkSuffix) paths)),
               inuse = (\<lambda>p. 0)\<rparr>)"

definition Purgeable :: "'w xenv \<Rightarrow> Manager \<Rightarrow> 'w \<Rightarrow> string list" where
  "Purgeable env m w = filter (\<lambda>p. \<not> inuse m p > 0 \<and> os_Stat (x_os env) w p = StatOk) (mAll m)"

subsection \<open>\<open>PrepareDownloads\<close>\<close>

text \<open>The local variables of \<open>PrepareDownloads\<close> with the world and \<open>m.inuse\<close>: \<open>prel\<close> are the paths the
  closures in \<open>releaseFunc\<close> decrement.\<close>

record 'w prep =
  pworld :: 'w
  pinuse :: "string \<Rightarrow> int"
  urlToJob :: "(string \<times> DownloadJob) list"
  prel :: "string list"
  hasErr :: bool

definition dest_path :: "Manager \<Rightarrow> string \<Rightarrow> string \<Rightarrow> string" where
  "dest_path m pkg name = path_Join [mDataDir m, RelativeDataDir pkg, name]"

definition reportErr :: "'w xenv \<Rightarrow> string \<Rightarrow> string \<Rightarrow> string \<Rightarrow> 'w prep \<Rightarrow> 'w prep" where
  "reportErr env name errorPath msg st =
     st\<lparr>pworld := snd (os_WriteFile (x_os env) errorPath
            (''failed to prepare downloading '' @ name @ '': '' @ msg) (pworld st)),
        hasErr := True\<rparr>"

definition add_job :: "'w xenv \<Rightarrow> string \<Rightarrow> string \<Rightarrow> string \<Rightarrow> link \<Rightarrow> bool \<Rightarrow> 'w prep \<Rightarrow> 'w prep" where
  "add_job env pkg name destPath l needed st =
     (let job = (case map_of (urlToJob st) (ComputedURL l) of
                   None \<Rightarrow> \<lparr>jlink = l, jdests = []\<rparr> | Some j \<Rightarrow> j)
      in if jlink job \<noteq> l then
           reportErr env name (destPath @ ExternalErrorSuffix)
             (''conflicting external data link found at '' @ path_Join [RelativeDataDir pkg, name]) st
         else
           let job' = (if needed \<and> destPath \<notin> set (jdests job) then job\<lparr>jdests := jdests job @ [destPath]\<rparr> else job)
           in st\<lparr>urlToJob := AList.update (ComputedURL l) job' (urlToJob st)\<rparr>)"

text \<open>Clearing the error message of the file at \<open>d\<close>, and marking that file as used.\<close>

definition cleared :: "'w xenv \<Rightarrow> string \<Rightarrow> 'w prep \<Rightarrow> 'w prep" where
  "cleared env d st = st\<lparr>pworld := snd (os_Remove (x_os env) (d @ ExternalErrorSuffix) (pworld st))\<rparr>"

definition marked :: "string \<Rightarrow> 'w prep \<Rightarrow> 'w prep" where
  "marked d st = st\<lparr>pinuse := (pinuse st)(d := pinuse st d + 1), prel := prel st @ [d]\<rparr>"

definition prepare_file :: "'w xenv \<Rightarrow> Manager \<Rightarrow> string \<Rightarrow> 'w prep \<Rightarrow> string \<Rightarrow> 'w prep" where
  "prepare_file env m pkg st name =
     (let destPath = dest_path m pkg name;
          linkPath = destPath @ ExternalLinkSuffix;
          errorPath = destPath @ ExternalErrorSuffix;
          report = reportErr env name errorPath;
          st1 = cleared env destPath st
      in case os_Stat (x_os env) (pworld st1) linkPath of
           StatNotExist \<Rightarrow> st1
         | StatErr e \<Rightarrow> report (''failed to stat '' @ linkPath @ '': '' @ e) st1
         | StatOk \<Rightarrow>
             (case loadLink env linkPath (mArtifactsURL m) (pworld st1) of
                Inl e \<Rightarrow> report (''failed to load '' @ linkPath @ '': '' @ err_msg e) st1
              | Inr l \<Rightarrow>
                  let st2 = marked destPath st1
                  in case os_Open (x_os env) (pworld st2) destPath of
                       OpenOk d \<Rightarrow>
                         if shouldDownload env (pworld st2) d l destPath then
                           (case os_Remove (x_os env) destPath (pworld st2) of
                              (RmOk, w) \<Rightarrow> add_job env pkg name destPath l True (st2\<lparr>pworld := w\<rparr>)
                            | (RmNotExist, w) \<Rightarrow>
                                report (''failed to remove stale file '' @ destPath @ '': no such file or directory'')
                                  (st2\<lparr>pworld := w\<rparr>)
                            | (RmErr e, w) \<Rightarrow>
                                report (''failed to remove stale file '' @ destPath @ '': '' @ e) (st2\<lparr>pworld := w\<rparr>))
                         else add_job env pkg name destPath l False st2
                     | OpenNotExist \<Rightarrow> add_job env pkg name destPath l True st2
                     | OpenErr e \<Rightarrow> report (''failed to stat '' @ destPath @ '': '' @ e) st2))"

definition prepare_entity :: "'w xenv \<Rightarrow> Manager \<Rightarrow> 'w prep \<Rightarrow> Entity \<Rightarrow> 'w prep" where
  "prepare_entity env m st t = foldl (prepare_file env m (EPackage t)) st (EDataFiles t)"

definition prep0 :: "Manager \<Rightarrow> 'w \<Rightarrow> 'w prep" where
  "prep0 m w = \<lparr>pworld = w, pinuse = inuse m, urlToJob = [], prel = [], hasErr = False\<rparr>"

text \<open>The jobs, the paths to release, the manager and the world.\<close>

definition PrepareDownloads ::
  "'w xenv \<Rightarrow> Entity list \<Rightarrow> Manager \<Rightarrow> 'w \<Rightarrow> DownloadJob list \<times> string list \<times> Manager \<times> 'w" where
  "PrepareDownloads env entities m w =
     (let st = foldl (prepare_entity env m) (prep0 m w) entities;
          jobs = sort_by (\<lambda>j. ComputedURL (jlink j)) (filter (\<lambda>j. jdests j \<noteq> []) (map snd (urlToJob st)))
      in (jobs, prel st, m\<lparr>inuse := pinuse st\<rparr>, pworld st))"

definition release :: "string list \<Rightarrow> Manager \<Rightarrow> Manager" where
  "release paths m = fold (\<lambda>p m. m\<lparr>inuse := (inuse m)(p := inuse m p - 1)\<rparr>) paths m"

subsection \<open>\<open>RunDownloads\<close>\<close>

fun link_dests :: "'w os \<Rightarrow> string \<Rightarrow> string list \<Rightarrow> 'w \<Rightarrow> goerr option \<times> 'w" where
  "link_dests os f [] w = (None, w)"
| "link_dests os f (dest # dests) w =
     (case os_Remove os dest w of
        (RmErr e, w1) \<Rightarrow> (Some (Errorf e), w1)
      | (_, w1) \<Rightarrow>
          (case os_Link os f dest w1 of
             (Some e, w2) \<Rightarrow> (Some (Errorf e), w2)
           | (None, w2) \<Rightarrow> link_dests os f dests w2))"

text \<open>The body after the temporary file \<open>f\<close> was created, without the deferred calls.\<close>

definition download_to :: "'w xenv \<Rightarrow> string \<Rightarrow> DownloadJob \<Rightarrow> 'w \<Rightarrow> goerr option \<times> 'w" where
  "download_to env f job w =
     (case os_Chmod (x_os env) f w of
        (Some e, w1) \<Rightarrow> (Some (Errorf e), w1)
      | (None, w1) \<Rightarrow>
          (case x_fetch env (ComputedURL (jlink job)) w1 of
             (Inl e, w2) \<Rightarrow> (Some (Errorf e), w2)
           | (Inr d, w2) \<Rightarrow>
               (case os_WriteFile (x_os env) f d w2 of
                  (Some e, w3) \<Rightarrow> (Some (Errorf e), w3)
                | (None, w3) \<Rightarrow>
                    (case verify env d (jlink job) of
                       Some e \<Rightarrow> (Some e, w3)
                     | None \<Rightarrow> link_dests (x_os env) f (jdests job) w3))))"

definition runDownload :: "'w xenv \<Rightarrow> string \<Rightarrow> DownloadJob \<Rightarrow> 'w \<Rightarrow> goerr option \<times> 'w" where
  "runDownload env dataDir job w =
     (case os_CreateTemp (x_os env) dataDir ''.external-download.'' w of
        (Inl e, w1) \<Rightarrow> (Some (Errorf e), w1)
      | (Inr f, w1) \<Rightarrow>
          let (retErr, w2) = download_to env f job w1;
              (closeErr, w3) = os_Close (x_os env) f w2;
              w4 = snd (os_Remove (x_os env) f w3)
          in (case retErr of Some e \<Rightarrow> Some e
              | None \<Rightarrow> (case closeErr of Some e \<Rightarrow> Some (Errorf e) | None \<Rightarrow> None), w4))"

definition write_all :: "'w os \<Rightarrow> string \<Rightarrow> string \<Rightarrow> string list \<Rightarrow> 'w \<Rightarrow> 'w" where
  "write_all os suffix content dests w =
     foldl (\<lambda>w dest. snd (os_WriteFile os (dest @ suffix) content w)) w dests"

definition writeExternalURLRecord :: "'w xenv \<Rightarrow> DownloadJob \<Rightarrow> 'w \<Rightarrow> 'w" where
  "writeExternalURLRecord env job w =
     (if LType (Data (jlink job)) = TypeArtifact
      then write_all (x_os env) ExternalURLSuffix (ComputedURL (jlink job)) (jdests job) w
      else w)"

text \<open>Workers take the jobs in turn and the main loop handles each result; the jobs are given here in
  the order in which they complete.\<close>

definition finish_job :: "'w xenv \<Rightarrow> string \<Rightarrow> 'w \<Rightarrow> DownloadJob \<Rightarrow> 'w" where
  "finish_job env dataDir w job =
     (case runDownload env dataDir job w of
        (Some e, w1) \<Rightarrow>
          write_all (x_os env) ExternalErrorSuffix
            (''failed to download '' @ ComputedURL (jlink job) @ '': '' @ err_msg e) (jdests job) w1
      | (None, w1) \<Rightarrow> writeExternalURLRecord env job w1)"

definition RunDownloads :: "'w xenv \<Rightarrow> string \<Rightarrow> DownloadJob list \<Rightarrow> 'w \<Rightarrow> 'w" where
  "RunDownloads env dataDir jobs w = foldl (finish_job env dataDir) w jobs"

subsection \<open>The downloader\<close>

datatype DownloadMode = BATCH | LAZY

record 'w downloader =
  dlEnv :: "'w xenv"
  dlMode :: DownloadMode
  beforeDownload :: "('w \<Rightarrow> 'w) option"

definition newDownloader :: "'w downloader \<Rightarrow> (string option) \<Rightarrow> string \<Rightarrow> string \<Rightarrow> 'w \<Rightarrow> Manager res" where
  "newDownloader d clientErr dataDir artifactsURL w =
     (case clientErr of
        Some e \<Rightarrow> Inl (Wrap ''failed to create new client'' (Errorf e))
      | None \<Rightarrow> NewManager (dlEnv d) dataDir artifactsURL w)"

definition download :: "'w downloader \<Rightarrow> Entity list \<Rightarrow> Manager \<Rightarrow> 'w \<Rightarrow> string list \<times> Manager \<times> 'w" where
  "download d entities m w =
     (let (jobs, rel, m1, w1) = PrepareDownloads (dlEnv d) entities m w
      in if jobs \<noteq> [] then
           let w2 = (case beforeDownload d of None \<Rightarrow> w1 | Some f \<Rightarrow> f w1)
           in (rel, m1, RunDownloads (dlEnv d) (mDataDir m) jobs w2)
         else (rel, m1, w1))"

definition BeforeRun :: "'w downloader \<Rightarrow> Entity list \<Rightarrow> Manager \<Rightarrow> 'w \<Rightarrow> Manager \<times> 'w" where
  "BeforeRun d entities m w = (if dlMode d = BATCH then snd (download d entities m w) else (m, w))"

definition BeforeEntity :: "'w downloader \<Rightarrow> Entity \<Rightarrow> Manager \<Rightarrow> 'w \<Rightarrow> string list \<times> Manager \<times> 'w" where
  "BeforeEntity d e m w = (if dlMode d = LAZY then download d [e] m w else ([], m, w))"

subsection \<open>Files in use\<close>

lemma reportErr_simps [simp]:
  "pinuse (reportErr env n p msg st) = pinuse st" "prel (reportErr env n p msg st) = prel st"
  "urlToJob (reportErr env n p msg st) = urlToJob st"
  by (simp_all add: reportErr_def)

lemma add_job_simps [simp]:
  "pinuse (add_job env pkg n d l b st) = pinuse st" "prel (add_job env pkg n d l b st) = prel st"
  by (simp_all add: add_job_def Let_def)

text \<open>The jobs collected so far: keyed by their URL, each of their destinations is in use.\<close>

definition jobs_ok :: "'w prep \<Rightarrow> bool" where
  "jobs_ok st \<longleftrightarrow> distinct (map fst (urlToJob st)) \<and>
     (\<forall>u j. (u, j) \<in> set (urlToJob st) \<longrightarrow> ComputedURL (jlink j) = u \<and> set (jdests j) \<subseteq> set (prel st))"

lemma jobs_ok_distinct: "jobs_ok st \<Longrightarrow> distinct (map fst (urlToJob st))"
  unfolding jobs_ok_def by (rule conjunct1)

lemma jobs_okI:
  "distinct (map fst (urlToJob st)) \<Longrightarrow>
   (\<And>u j. (u, j) \<in> set (urlToJob st) \<Longrightarrow> ComputedURL (jlink j) = u \<and> set (jdests j) \<subseteq> set (prel st)) \<Longrightarrow> jobs_ok st"
  unfolding jobs_ok_def by blast

lemma jobs_ok_job:
  "jobs_ok st \<Longrightarrow> (u, j) \<in> set (urlToJob st) \<Longrightarrow> ComputedURL (jlink j) = u \<and> set (jdests j) \<subseteq> set (prel st)"
  unfolding jobs_ok_def by blast

lemma jobs_ok_simps [simp]:
  "jobs_ok (reportErr env n p msg st) = jobs_ok st" "jobs_ok (st\<lparr>pworld := w\<rparr>) = jobs_ok st"
  "jobs_ok (st\<lparr>pinuse := u\<rparr>) = jobs_ok st" "jobs_ok (st\<lparr>hasErr := b\<rparr>) = jobs_ok st"
  by (simp_all add: jobs_ok_def)

lemma set_AList_update: "set (AList.update k v al) \<subseteq> insert (k, v) (set al)"
  by (induction al) auto

lemma add_job_ok:
  assumes "jobs_ok st" and "d \<in> set (prel st)"
  shows "jobs_ok (add_job env pkg n d l b st)"
proof -
  define job where "job = (case map_of (urlToJob st) (ComputedURL l) of
      None \<Rightarrow> \<lparr>jlink = l, jdests = []\<rparr> | Some j \<Rightarrow> j)"
  have dests: "set (jdests job) \<subseteq> set (prel st)"
  proof (cases "map_of (urlToJob st) (ComputedURL l)")
    case (Some j)
    then show ?thesis using jobs_ok_job [OF assms(1) map_of_SomeD [OF Some]] by (simp add: job_def)
  qed (simp add: job_def)
  show ?thesis
  proof (cases "jlink job = l")
    case False
    then show ?thesis using assms(1) by (simp add: add_job_def job_def Let_def)
  next
    case True
    define job' where "job' = (if b \<and> d \<notin> set (jdests job) then job\<lparr>jdests := jdests job @ [d]\<rparr> else job)"
    have res: "add_job env pkg n d l b st = st\<lparr>urlToJob := AList.update (ComputedURL l) job' (urlToJob st)\<rparr>"
      using True unfolding add_job_def Let_def job_def [symmetric] job'_def [symmetric] by simp
    have job': "jlink job' = l" "set (jdests job') \<subseteq> set (prel st)"
      using True dests assms(2) by (auto simp: job'_def)
    show ?thesis unfolding res
    proof (rule jobs_okI)
      show "distinct (map fst (urlToJob (st\<lparr>urlToJob := AList.update (ComputedURL l) job' (urlToJob st)\<rparr>)))"
        using AList.distinct_update [OF jobs_ok_distinct [OF assms(1)]] by simp
    next
      fix u j
      assume "(u, j) \<in> set (urlToJob (st\<lparr>urlToJob := AList.update (ComputedURL l) job' (urlToJob st)\<rparr>))"
      then have "(u, j) = (ComputedURL l, job') \<or> (u, j) \<in> set (urlToJob st)"
        using set_AList_update [of "ComputedURL l" job' "urlToJob st"] by auto
      then show "ComputedURL (jlink j) = u \<and>
          set (jdests j) \<subseteq> set (prel (st\<lparr>urlToJob := AList.update (ComputedURL l) job' (urlToJob st)\<rparr>))"
        using job' jobs_ok_job [OF assms(1), of u j] by auto
    qed
  qed
qed

lemma cleared_simps [simp]:
  "pinuse (cleared env d st) = pinuse st" "prel (cleared env d st) = prel st"
  "urlToJob (cleared env d st) = urlToJob st" "jobs_ok (cleared env d st) = jobs_ok st"
  by (simp_all add: cleared_def)

lemma marked_simps [simp]:
  "pinuse (marked d st) = (pinuse st)(d := pinuse st d + 1)" "prel (marked d st) = prel st @ [d]"
  "urlToJob (marked d st) = urlToJob st" "pworld (marked d st) = pworld st"
  by (simp_all add: marked_def)

lemma jobs_ok_marked: "jobs_ok st \<Longrightarrow> jobs_ok (marked d st)"
  unfolding jobs_ok_def marked_simps by auto

lemma prepare_file_cases:
  fixes env :: "'w xenv" and m :: Manager and pkg n :: string and st :: "'w prep"
  defines "d \<equiv> dest_path m pkg n" and "os \<equiv> x_os env"
  defines "st1 \<equiv> cleared env d st"
  obtains (not_external) "prepare_file env m pkg st n = st1"
  | (bad_link) msg where "prepare_file env m pkg st n = reportErr env n (d @ ExternalErrorSuffix) msg st1"
  | (missing) l where "os_Open os (pworld st1) d = OpenNotExist"
      "prepare_file env m pkg st n = add_job env pkg n d l True (marked d st1)"
  | (stale) l w where "os_Remove os d (pworld st1) = (RmOk, w)"
      "prepare_file env m pkg st n = add_job env pkg n d l True ((marked d st1)\<lparr>pworld := w\<rparr>)"
  | (fresh) l c where "os_Open os (pworld st1) d = OpenOk c" "\<not> shouldDownload env (pworld st1) c l d"
      "prepare_file env m pkg st n = add_job env pkg n d l False (marked d st1)"
  | (not_removed) msg r w where "os_Remove os d (pworld st1) = (r, w)" "r \<noteq> RmOk"
      "prepare_file env m pkg st n = reportErr env n (d @ ExternalErrorSuffix) msg ((marked d st1)\<lparr>pworld := w\<rparr>)"
  | (unreadable) msg where
      "prepare_file env m pkg st n = reportErr env n (d @ ExternalErrorSuffix) msg (marked d st1)"
proof -
  note res = prepare_file_def [of env m pkg st n, unfolded Let_def, folded d_def, folded st1_def, folded os_def]
  show thesis
  proof (cases "os_Stat os (pworld st1) (d @ ExternalLinkSuffix)")
    case StatNotExist
    show thesis by (rule not_external) (simp only: res StatNotExist stat_result.case)
  next
    case (StatErr e)
    show thesis by (rule bad_link) (simp only: res StatErr stat_result.case)
  next
    case StatOk
    show thesis
    proof (cases "loadLink env (d @ ExternalLinkSuffix) (mArtifactsURL m) (pworld st1)")
      case (Inl e)
      show thesis by (rule bad_link) (simp only: res StatOk Inl stat_result.case sum.case)
    next
      case (Inr l)
      note res' = res [unfolded StatOk Inr stat_result.case sum.case marked_simps]
      show thesis
      proof (cases "os_Open os (pworld st1) d")
        case OpenNotExist
        show thesis by (rule missing [OF OpenNotExist]) (simp only: res' OpenNotExist open_result.case)
      next
        case (OpenErr e)
        show thesis by (rule unreadable) (simp only: res' OpenErr open_result.case)
      next
        case (OpenOk c)
        note res'' = res' [unfolded OpenOk open_result.case]
        show thesis
        proof (cases "shouldDownload env (pworld st1) c l d")
          case False
          show thesis by (rule fresh [OF OpenOk False]) (simp only: res'' False if_False)
        next
          case True
          obtain r w where r: "os_Remove os d (pworld st1) = (r, w)" by fastforce
          note res3 = res'' [unfolded r if_P [OF True] prod.case]
          show thesis
          proof (cases r)
            case RmOk
            show thesis by (rule stale [OF r [unfolded RmOk]]) (simp only: res3 RmOk remove_result.case)
          next
            case RmNotExist
            show thesis by (rule not_removed [OF r]) (simp add: RmNotExist, simp only: res3 RmNotExist remove_result.case)
          next
            case (RmErr e)
            show thesis by (rule not_removed [OF r]) (simp add: RmErr, simp only: res3 RmErr remove_result.case)
          qed
        qed
      qed
    qed
  qed
qed

text \<open>One data file: the count of its path is raised exactly when the path is to be released.\<close>

definition prep_inv :: "Manager \<Rightarrow> 'w prep \<Rightarrow> bool" where
  "prep_inv m st \<longleftrightarrow> jobs_ok st \<and> (\<forall>p. pinuse st p = inuse m p + int (count_list (prel st) p))"

lemma prep_inv_report [simp]: "prep_inv m (reportErr env n p msg st) = prep_inv m st"
  by (simp add: prep_inv_def)

lemma prep_inv_world [simp]: "prep_inv m (st\<lparr>pworld := w\<rparr>) = prep_inv m st"
  by (simp add: prep_inv_def)

lemma prep_inv_cleared [simp]: "prep_inv m (cleared env d st) = prep_inv m st"
  by (simp add: cleared_def)

lemma prep_inv_marked: "prep_inv m st \<Longrightarrow> prep_inv m (marked d st)"
  by (auto simp: prep_inv_def jobs_ok_marked)

lemma prep_inv_add_job: "prep_inv m st \<Longrightarrow> d \<in> set (prel st) \<Longrightarrow> prep_inv m (add_job env pkg n d l b st)"
  by (simp add: prep_inv_def add_job_ok)

lemma prepare_file_inv:
  assumes "prep_inv m st"
  shows "prep_inv m (prepare_file env m' pkg st n)"
proof -
  let ?d = "dest_path m' pkg n"
  have "prep_inv m (marked ?d (cleared env ?d st))" using assms by (simp add: prep_inv_marked)
  then have a: "prep_inv m (add_job env pkg n ?d l b ((marked ?d (cleared env ?d st))\<lparr>pworld := w\<rparr>))"
    "prep_inv m (add_job env pkg n ?d l b (marked ?d (cleared env ?d st)))"
    "prep_inv m (marked ?d (cleared env ?d st))" for l b w
    by (auto intro!: prep_inv_add_job)
  show ?thesis
    by (cases rule: prepare_file_cases [of env m' pkg st n]) (simp_all only: a assms prep_inv_cleared prep_inv_report prep_inv_world)
qed

lemma prepare_entities_inv:
  assumes "prep_inv m st"
  shows "prep_inv m (foldl (prepare_entity env m') st es)"
  using assms
proof (induction es arbitrary: st)
  case (Cons e es)
  have "prep_inv m (foldl (prepare_file env m' (EPackage e)) st ns)" for ns
    using Cons.prems by (induction ns arbitrary: st) (simp_all add: prepare_file_inv)
  then show ?case using Cons.IH by (simp add: prepare_entity_def)
qed simp

lemma inuse_release: "inuse (release ps m) p = inuse m p - int (count_list ps p)"
proof -
  have "inuse (fold (\<lambda>p m. m\<lparr>inuse := (inuse m)(p := inuse m p - 1)\<rparr>) ps m) p = inuse m p - int (count_list ps p)"
    by (induction ps arbitrary: m) auto
  then show ?thesis by (simp add: release_def)
qed

lemma release_frame [simp]:
  "mAll (release ps m) = mAll m" "mDataDir (release ps m) = mDataDir m" "mArtifactsURL (release ps m) = mArtifactsURL m"
proof -
  have "mAll (release ps m) = mAll m \<and> mDataDir (release ps m) = mDataDir m \<and> mArtifactsURL (release ps m) = mArtifactsURL m"
    unfolding release_def by (induction ps arbitrary: m) simp_all
  then show "mAll (release ps m) = mAll m" "mDataDir (release ps m) = mDataDir m"
    "mArtifactsURL (release ps m) = mArtifactsURL m" by simp_all
qed

lemma PrepareDownloads_inv: "prep_inv m (foldl (prepare_entity env m) (prep0 m w) es)"
  by (rule prepare_entities_inv) (simp add: prep_inv_def prep0_def jobs_ok_def)

lemma PrepareDownloads_jobs:
  assumes "PrepareDownloads env es m w = (jobs, rel, m', w')" and "j \<in> set jobs"
  shows "set (jdests j) \<subseteq> set rel"
proof -
  let ?st = "foldl (prepare_entity env m) (prep0 m w) es"
  have ok: "jobs_ok ?st" using PrepareDownloads_inv [of m env w es] unfolding prep_inv_def by blast
  from assms have "j \<in> snd ` set (urlToJob ?st)" "rel = prel ?st"
    by (auto simp: PrepareDownloads_def Let_def)
  then show ?thesis using jobs_ok_job [OF ok] by fastforce
qed


subsection \<open>Stale files\<close>

definition all_dests :: "'w prep \<Rightarrow> string set" where
  "all_dests st = (\<Union>(u, j)\<in>set (urlToJob st). set (jdests j))"

lemma all_dests_simps [simp]:
  "all_dests (reportErr env n p msg st) = all_dests st" "all_dests (cleared env d st) = all_dests st"
  "all_dests (marked d st) = all_dests st" "all_dests (st\<lparr>pworld := w\<rparr>) = all_dests st"
  by (simp_all add: all_dests_def)

lemma add_job_dests: "all_dests (add_job env pkg n d l b st) \<subseteq> (if b then insert d (all_dests st) else all_dests st)"
proof -
  define job where "job = (case map_of (urlToJob st) (ComputedURL l) of
      None \<Rightarrow> \<lparr>jlink = l, jdests = []\<rparr> | Some j \<Rightarrow> j)"
  define job' where "job' = (if b \<and> d \<notin> set (jdests job) then job\<lparr>jdests := jdests job @ [d]\<rparr> else job)"
  have job: "set (jdests job) \<subseteq> all_dests st"
  proof (cases "map_of (urlToJob st) (ComputedURL l)")
    case (Some j)
    from map_of_SomeD [OF this] Some show ?thesis by (auto simp: job_def all_dests_def)
  qed (simp add: job_def)
  show ?thesis
  proof (cases "jlink job = l")
    case True
    then have "urlToJob (add_job env pkg n d l b st) = AList.update (ComputedURL l) job' (urlToJob st)"
      unfolding add_job_def Let_def job_def [symmetric] job'_def [symmetric] by simp
    then have "all_dests (add_job env pkg n d l b st) \<subseteq> set (jdests job') \<union> all_dests st"
      using set_AList_update [of "ComputedURL l" job' "urlToJob st"] unfolding all_dests_def by fastforce
    then show ?thesis using job by (auto simp: job'_def split: if_splits)
  next
    case False
    then have "all_dests (add_job env pkg n d l b st) = all_dests st"
      unfolding add_job_def Let_def job_def [symmetric] by simp
    then show ?thesis by auto
  qed
qed

lemma reportErr_world:
  assumes "fs_laws (x_os env)"
  shows "only_at (x_os env) {p} (pworld st) (pworld (reportErr env n p msg st))"
  using fs_WriteFile(1) [OF assms] by (simp add: reportErr_def prod_eq_iff)

lemma add_job_world:
  assumes "fs_laws (x_os env)"
  shows "only_at (x_os env) {d @ ExternalErrorSuffix} (pworld st) (pworld (add_job env pkg n d l b st))"
  using reportErr_world [OF assms] by (simp add: add_job_def Let_def)

lemma cleared_world:
  assumes "fs_laws (x_os env)"
  shows "only_at (x_os env) {d @ ExternalErrorSuffix} (pworld st) (pworld (cleared env d st))"
  using fs_Remove(1) [OF assms] by (simp add: cleared_def prod_eq_iff)

text \<open>The files to be downloaded do not exist.\<close>

definition absent :: "'w os \<Rightarrow> 'w \<Rightarrow> string set \<Rightarrow> bool" where
  "absent os w D \<longleftrightarrow> (\<forall>d\<in>D. \<not> HasSuffix d ExternalErrorSuffix \<and> os_Open os w d = OpenNotExist)"

lemma absent_error_file:
  assumes "absent os w D" and "only_at os {p @ ExternalErrorSuffix} w w'"
  shows "absent os w' D"
proof -
  have "\<not> HasSuffix d ExternalErrorSuffix \<and> os_Open os w' d = OpenNotExist" if "d \<in> D" for d
  proof -
    have d: "\<not> HasSuffix d ExternalErrorSuffix" "os_Open os w d = OpenNotExist"
      using assms(1) that by (simp_all add: absent_def)
    then have "d \<noteq> p @ ExternalErrorSuffix" using HasSuffix_append by metis
    then show ?thesis using d only_at_Open [OF assms(2), of d] by simp
  qed
  then show ?thesis by (simp add: absent_def)
qed

lemma absent_remove:
  assumes "fs_laws os" and "os_Remove os d w = (r, w')" and "absent os w D"
  shows "absent os w' D"
proof -
  have "os_Open os w' p = OpenNotExist" if "p \<in> D" for p
  proof (cases "p = d")
    case True
    have "os_Open os w d = OpenNotExist" using that assms(3) True by (simp add: absent_def)
    then show ?thesis using fs_Remove(2,3) [OF assms(1,2)] True by (cases r) simp_all
  next
    case False
    then have "os_Open os w' p = os_Open os w p" using only_at_Open [OF fs_Remove(1) [OF assms(1,2)]] by simp
    then show ?thesis using that assms(3) by (simp add: absent_def)
  qed
  then show ?thesis using assms(3) by (simp add: absent_def)
qed

lemma prepare_file_absent:
  assumes laws: "fs_laws (x_os env)" and abs: "absent (x_os env) (pworld st) (all_dests st)"
    and d: "\<not> HasSuffix (dest_path m pkg n) ExternalErrorSuffix"
  shows "absent (x_os env) (pworld (prepare_file env m pkg st n)) (all_dests (prepare_file env m pkg st n))"
proof -
  let ?d = "dest_path m pkg n" and ?os = "x_os env"
  let ?st1 = "cleared env ?d st"
  have a1: "absent ?os (pworld ?st1) (all_dests st)"
    using absent_error_file [OF abs cleared_world [OF laws]] .
  have add: "absent ?os (pworld (add_job env pkg n ?d l b s)) (all_dests (add_job env pkg n ?d l b s))"
    if "absent ?os (pworld s) (all_dests st)" "all_dests s = all_dests st" "b \<Longrightarrow> os_Open ?os (pworld s) ?d = OpenNotExist"
    for l b s
  proof -
    have "absent ?os (pworld s) (if b then insert ?d (all_dests s) else all_dests s)"
      using that d by (auto simp: absent_def)
    from absent_error_file [OF this add_job_world [OF laws]] add_job_dests [of env pkg n ?d l b s]
    show ?thesis by (auto simp: absent_def)
  qed
  have rep: "absent ?os (pworld (reportErr env n (?d @ ExternalErrorSuffix) msg s)) (all_dests st)"
    if "absent ?os (pworld s) (all_dests st)" for msg s
    using absent_error_file [OF that reportErr_world [OF laws]] .
  show ?thesis
  proof (cases rule: prepare_file_cases [of env m pkg st n])
    case not_external
    then show ?thesis using a1 by simp
  next
    case (bad_link msg)
    then show ?thesis using rep [OF a1] by simp
  next
    case (missing l)
    then show ?thesis using add [of "marked ?d ?st1"] a1 by simp
  next
    case (stale l w)
    have "os_Open ?os w ?d = OpenNotExist" using fs_Remove(2) [OF laws stale(1)] by simp
    then show ?thesis using add [of "(marked ?d ?st1)\<lparr>pworld := w\<rparr>"] absent_remove [OF laws stale(1) a1] stale(2) by simp
  next
    case (fresh l c)
    then show ?thesis using add [of "marked ?d ?st1" False] a1 by simp
  next
    case (not_removed msg r w)
    then show ?thesis using rep [of "(marked ?d ?st1)\<lparr>pworld := w\<rparr>"] absent_remove [OF laws not_removed(1) a1] by simp
  next
    case (unreadable msg)
    then show ?thesis using rep [of "marked ?d ?st1"] a1 by simp
  qed
qed


subsection \<open>Downloads\<close>

lemma link_dests_ok:
  assumes "fs_laws os" and "f \<notin> set ds" and "os_Open os w f = OpenOk c" and "link_dests os f ds w = (None, w')"
  shows "only_at os (set ds) w w' \<and> (\<forall>d\<in>set ds. os_Open os w' d = OpenOk c)"
  using assms(2-4)
proof (induction ds arbitrary: w)
  case (Cons dest ds)
  obtain r w1 where r: "os_Remove os dest w = (r, w1)" by fastforce
  obtain e w2 where l: "os_Link os f dest w1 = (e, w2)" by fastforce
  have rec: "link_dests os f ds w2 = (None, w')" "e = None"
    using Cons.prems(3) r l by (cases r; cases e; simp)+
  have f1: "os_Open os w1 f = OpenOk c"
    using only_at_Open [OF fs_Remove(1) [OF assms(1) r], of f] Cons.prems(1,2) by auto
  have f2: "os_Open os w2 f = OpenOk c" "os_Open os w2 dest = OpenOk c"
    using only_at_Open [OF fs_Link(1) [OF assms(1) l], of f] fs_Link(2) [OF assms(1) l rec(2)] f1 Cons.prems(1) by auto
  have ih: "only_at os (set ds) w2 w'" "\<forall>d\<in>set ds. os_Open os w' d = OpenOk c"
    using Cons.IH [OF _ f2(1) rec(1)] Cons.prems(1) by simp_all
  have "only_at os ({dest} \<union> {dest} \<union> set ds) w w'"
    by (intro only_at_trans [OF only_at_trans [OF fs_Remove(1) [OF assms(1) r] fs_Link(1) [OF assms(1) l]] ih(1)])
  moreover have "os_Open os w' dest = OpenOk c"
    using ih only_at_Open [OF ih(1), of dest] f2(2) by (cases "dest \<in> set ds") auto
  ultimately show ?case using ih(2) by simp
qed simp

lemma download_to_ok:
  assumes "fs_laws (x_os env)" and "download_to env f job w = (None, w')"
  shows "\<exists>c w1. verify env c (jlink job) = None \<and> os_Open (x_os env) w1 f = OpenOk c \<and>
    link_dests (x_os env) f (jdests job) w1 = (None, w')"
proof -
  obtain c w1 w2 where "os_WriteFile (x_os env) f c w1 = (None, w2)" "verify env c (jlink job) = None"
    "link_dests (x_os env) f (jdests job) w2 = (None, w')"
    using assms(2) by (auto simp: download_to_def split: option.splits prod.splits sum.splits)
  with fs_WriteFile(2) [OF assms(1)] show ?thesis by blast
qed

text \<open>C20: When \<open>runDownload\<close> succeeds, every destination of the job exists and its content passes \<open>verify\<close>: for
  a static file, the size and the SHA-256 hash its link declares.  (The temporary file is not one of
  the destinations.)\<close>

theorem runDownload_verified:
  assumes "fs_laws (x_os env)"
    and "\<forall>w f w1. os_CreateTemp (x_os env) dataDir ''.external-download.'' w = (Inr f, w1) \<longrightarrow> f \<notin> set (jdests job)"
    and "runDownload env dataDir job w = (None, w')" and "d \<in> set (jdests job)"
  shows "\<exists>c. os_Open (x_os env) w' d = OpenOk c \<and> verify env c (jlink job) = None"
proof -
  let ?os = "x_os env"
  obtain r w1 where t: "os_CreateTemp ?os dataDir ''.external-download.'' w = (r, w1)" by fastforce
  then obtain f where f: "r = Inr f" using assms(3) by (cases r) (simp_all add: runDownload_def)
  have fd: "f \<notin> set (jdests job)" using assms(2) t f by blast
  obtain e2 w2 where b: "download_to env f job w1 = (e2, w2)" by fastforce
  obtain e3 w3 where c: "os_Close ?os f w2 = (e3, w3)" by fastforce
  obtain e4 w4 where rm: "os_Remove ?os f w3 = (e4, w4)" by fastforce
  have res: "e2 = None" "w' = w4"
    using assms(3) t f b c rm by (auto simp: runDownload_def Let_def split: option.splits)
  then obtain content w5 where "verify env content (jlink job) = None" "os_Open ?os w5 f = OpenOk content"
    "link_dests ?os f (jdests job) w5 = (None, w2)"
    using b download_to_ok [OF assms(1)] by blast
  with link_dests_ok [OF assms(1) fd] assms(4)
  have v: "verify env content (jlink job) = None" "os_Open ?os w2 d = OpenOk content" by blast+
  have "d \<noteq> f" using fd assms(4) by blast
  then have "os_Open ?os w4 d = os_Open ?os w2 d"
    using only_at_Open [OF fs_Close [OF assms(1) c], of d] only_at_Open [OF fs_Remove(1) [OF assms(1) rm], of d] by simp
  with v res show ?thesis by auto
qed

subsection \<open>Witnesses\<close>

text \<open>A concrete file system, an association list from paths to contents.\<close>

definition fs_os :: "(string \<times> string) list os" where
  "fs_os = \<lparr>os_Stat = (\<lambda>w p. case map_of w p of None \<Rightarrow> StatNotExist | Some c \<Rightarrow> StatOk),
     os_Open = (\<lambda>w p. case map_of w p of None \<Rightarrow> OpenNotExist | Some c \<Rightarrow> OpenOk c),
     os_Walk = (\<lambda>w d. Inr (map fst w)),
     os_MkdirAll = (\<lambda>p w. (None, w)), os_Mkdir = (\<lambda>p w. (MkOk, w)),
     os_MkdirTemp = (\<lambda>d p w. (Inr (d @ p), w)), os_Chmod = (\<lambda>p w. (None, w)),
     os_Remove = (\<lambda>p w. (if map_of w p = None then RmNotExist else RmOk, AList.delete p w)),
     os_WriteFile = (\<lambda>p c w. (None, AList.update p c w)),
     os_CreateTemp = (\<lambda>d p w. let f = d @ ''/'' @ p in
        if map_of w f = None then (Inr f, AList.update f [] w) else (Inl ''too many temporary files'', w)),
     os_Close = (\<lambda>p w. (None, w)),
     os_Link = (\<lambda>a b w. case map_of w a of None \<Rightarrow> (Some ''no such file'', w)
        | Some c \<Rightarrow> if map_of w b = None then (None, AList.update b c w) else (Some ''file exists'', w))\<rparr>"

lemma fs_os_laws: "fs_laws fs_os"
  by (auto simp: fs_laws_def fs_os_def only_at_def Let_def update_conv' delete_conv' split: option.splits if_splits)

definition ex_link :: LinkData where
  "ex_link = \<lparr>LType = [], StaticURL = ''gs://b/f'', LSize = 3, SHA256Sum = ''h:new'', LName = [], Executable = False\<rparr>"

definition ex_xenv :: "(string \<times> string) list xenv" where
  "ex_xenv = \<lparr>x_os = fs_os, x_decode = (\<lambda>c. Inr ex_link), x_sha256 = (\<lambda>c. ''h:'' @ c),
     x_fetch = (\<lambda>u w. (Inr ''new'', w))\<rparr>"

definition ex_manager :: Manager where
  "ex_manager = \<lparr>mDataDir = ''/d'', mArtifactsURL = [], mAll = [''/d/p/data/f''], inuse = (\<lambda>p. 0)\<rparr>"

definition ex_entity :: Entity where
  "ex_entity = \<lparr>EType = TEST, EName = ''t'', EPackage = ''p'', EFixture = [], EDataFiles = [''f'']\<rparr>"

definition ex_files :: "(string \<times> string) list" where
  "ex_files = [(''/d/p/data/f.external'', ''{}''), (''/d/p/data/f'', ''old'')]"

definition ex_job :: DownloadJob where
  "ex_job = \<lparr>jlink = \<lparr>Data = ex_link, ComputedURL = ''gs://b/f''\<rparr>, jdests = [''/d/p/data/f'']\<rparr>"

lemma ex_prepare:
  "fst (PrepareDownloads ex_xenv [ex_entity] ex_manager ex_files) = [ex_job]"
  by code_simp



theorem runDownload_verified_witness:
  "let r = runDownload ex_xenv ''/d'' ex_job [] in fst r = None \<and>
     (\<exists>c. os_Open fs_os (snd r) ''/d/p/data/f'' = OpenOk c \<and> verify ex_xenv c (jlink ex_job) = None)"
proof -
  obtain r w' where r: "runDownload ex_xenv ''/d'' ex_job [] = (r, w')" by fastforce
  have "fst (runDownload ex_xenv ''/d'' ex_job []) = None" by code_simp
  with r have r': "runDownload ex_xenv ''/d'' ex_job [] = (None, w')" by simp
  have l: "fs_laws (x_os ex_xenv)" by (simp add: ex_xenv_def fs_os_laws)
  have t: "\<forall>w f w1. os_CreateTemp (x_os ex_xenv) ''/d'' ''.external-download.'' w = (Inr f, w1) \<longrightarrow> f \<notin> set (jdests ex_job)"
    by (auto simp: ex_xenv_def fs_os_def ex_job_def Let_def split: if_splits)
  have "''/d/p/data/f'' \<in> set (jdests ex_job)" by (simp add: ex_job_def)
  from runDownload_verified [OF l t r' this] r' show ?thesis by (simp add: ex_xenv_def Let_def)
qed

end
