(* ===== verification/Deps.thy ===== *)
theory Deps
  imports Prelude
begin

text \<open>
  Test dependencies: \<open>dep.go\<close>, \<open>software.go\<close> and \<open>hardware.go\<close> of \<open>internal/dep\<close>.  The regular
  expression compiler, the hardware features (type \<open>'h\<close>) and the hardware conditions that tests
  declare are parameters.  Maps are association lists, iterated in list order; the theorem
  \<open>Check_order\<close> shows what does not depend on that order.
\<close>

subsection \<open>Software\<close>

record SoftwareFeatures =
  Available :: "string list"
  Unavailable :: "string list"

definition missingSoftwareDeps :: "string list \<Rightarrow> SoftwareFeatures \<Rightarrow> string list \<times> string list" where
  "missingSoftwareDeps deps features =
     (let missing = filter (\<lambda>d. d \<noteq> [] \<and> d \<notin> set (Available features)) deps;
          unknown = filter (\<lambda>d. d \<notin> set (Unavailable features)) missing
      in (sort missing, sort unknown))"

subsection \<open>Hardware\<close>

text \<open>A condition's \<open>Satisfied\<close> is \<open>nil\<close> (\<open>None\<close>) or a function that returns an error, or whether it is
  satisfied with a reason.\<close>

record 'h HardwareCondition =
  cSatisfied :: "('h \<Rightarrow> string + bool \<times> string) option"
  cErr :: "string option"

type_synonym 'h HardwareDeps = "'h HardwareCondition list"

fun Satisfied :: "'h HardwareDeps \<Rightarrow> 'h \<Rightarrow> string list res" where
  "Satisfied [] f = Inr []"
| "Satisfied (c # cs) f =
     (case cSatisfied c of
        None \<Rightarrow> (case Satisfied cs f of Inl e \<Rightarrow> Inl e | Inr rs \<Rightarrow> Inr (''Satisfied was nil'' # rs))
      | Some check \<Rightarrow>
          (case check f of
             Inl e \<Rightarrow> Inl (Errorf e)
           | Inr (sat, reason) \<Rightarrow>
               (case Satisfied cs f of
                  Inl e \<Rightarrow> Inl e
                | Inr rs \<Rightarrow>
                    if sat then Inr rs
                    else Inr ((if reason = [] then ''(no reason given)'' else reason) # rs))))"

fun hw_Validate :: "'h HardwareDeps \<Rightarrow> goerr option" where
  "hw_Validate [] = None"
| "hw_Validate (c # cs) = (case cErr c of Some e \<Rightarrow> Some (Errorf e) | None \<Rightarrow> hw_Validate cs)"

definition MergeHardwareDeps :: "'h HardwareDeps \<Rightarrow> 'h HardwareDeps \<Rightarrow> 'h HardwareDeps" where
  "MergeHardwareDeps d1 d2 = d1 @ d2"

subsection \<open>The check\<close>

record 'h DUTFeatures =
  Software :: SoftwareFeatures
  Hardware :: 'h

record 'h Features =
  ForceSkips :: "(string \<times> string) list"
  CheckDeps :: bool
  Dut :: "'h DUTFeatures"
  CompanionFeatures :: "(string \<times> 'h DUTFeatures) list"
  MaybeMissingVars :: string
  Vars :: "(string \<times> string) list"

record 'h Deps =
  dTest :: string
  dVar :: "string list"
  dSoftware :: "(string \<times> string list) list"
  dHardware :: "(string \<times> 'h HardwareDeps) list"

text \<open>The features of the DUT a role names; \<open>None\<close> where the loops \<open>continue\<close>.\<close>

definition role_dut :: "'h Features \<Rightarrow> string \<Rightarrow> 'h DUTFeatures option" where
  "role_dut f role = (if role \<noteq> [] then map_of (CompanionFeatures f) role else Some (Dut f))"

fun check_software :: "'h Features \<Rightarrow> (string \<times> string list) list \<Rightarrow> string list \<Rightarrow> string list res" where
  "check_software f [] reasons = Inr reasons"
| "check_software f ((role, swDep) # rest) reasons =
     (case role_dut f role of
        None \<Rightarrow> check_software f rest reasons
      | Some dut \<Rightarrow>
          let (missing, unknown) = missingSoftwareDeps swDep (Software dut) in
          if unknown \<noteq> [] then Inl (Errorf (''unknown SoftwareDeps: '' @ Join unknown '', ''))
          else if missing \<noteq> [] then
            check_software f rest (reasons @ [''missing SoftwareDeps: '' @ Join missing '', ''])
          else check_software f rest reasons)"

fun check_hardware :: "'h Features \<Rightarrow> (string \<times> 'h HardwareDeps) list \<Rightarrow> string list \<Rightarrow> string list res" where
  "check_hardware f [] reasons = Inr reasons"
| "check_hardware f ((role, hwDep) # rest) reasons =
     (case role_dut f role of
        None \<Rightarrow> check_hardware f rest reasons
      | Some dut \<Rightarrow>
          (case Satisfied hwDep (Hardware dut) of
             Inl e \<Rightarrow> Inl e
           | Inr sat \<Rightarrow> check_hardware f rest (reasons @ sat)))"

fun check_vars :: "'h Features \<Rightarrow> (string \<Rightarrow> bool) \<Rightarrow> string list \<Rightarrow> string list \<Rightarrow> string list res" where
  "check_vars f matches [] reasons = Inr reasons"
| "check_vars f matches (v # vs) reasons =
     (if map_of (Vars f) v \<noteq> None then check_vars f matches vs reasons
      else if matches v then
        check_vars f matches vs (reasons @ [''runtime variable '' @ v @ '' is missing and matches with ^'' @
          MaybeMissingVars f @ ''$''])
      else if MaybeMissingVars f = [] then Inl (Errorf (''runtime variable '' @ v @ '' is missing''))
      else Inl (Errorf (''runtime variable '' @ v @ '' is missing and doesn't match with ^'' @
          MaybeMissingVars f @ ''$'')))"

text \<open>\<open>compile\<close> is \<open>regexp.Compile\<close> with \<open>MatchString\<close>.\<close>

definition Check :: "(string \<Rightarrow> string + (string \<Rightarrow> bool)) \<Rightarrow> 'h Deps \<Rightarrow> 'h Features \<Rightarrow> string list res" where
  "Check compile d f =
     (case map_of (ForceSkips f) (dTest d) of
        Some reason \<Rightarrow> Inr [reason]
      | None \<Rightarrow>
          if \<not> CheckDeps f then Inr []
          else case check_software f (dSoftware d) [] of
            Inl e \<Rightarrow> Inl e
          | Inr r1 \<Rightarrow>
              (case check_hardware f (dHardware d) r1 of
                 Inl e \<Rightarrow> Inl e
               | Inr r2 \<Rightarrow>
                   if r2 \<noteq> [] then Inr r2
                   else case compile (''^'' @ MaybeMissingVars f @ ''$'') of
                     Inl e \<Rightarrow> Inl (Errorf (''regex '' @ MaybeMissingVars f @ '' is invalid: '' @ e))
                   | Inr matches \<Rightarrow> check_vars f matches (dVar d) r2))"

subsection \<open>Properties\<close>

lemma missing_spec:
  "set (fst (missingSoftwareDeps deps ft)) = {d \<in> set deps. d \<noteq> [] \<and> d \<notin> set (Available ft)}"
  "set (snd (missingSoftwareDeps deps ft)) =
     {d \<in> set deps. d \<noteq> [] \<and> d \<notin> set (Available ft) \<and> d \<notin> set (Unavailable ft)}"
  by (auto simp: missingSoftwareDeps_def Let_def)

lemma missing_Nil: "fst (missingSoftwareDeps deps ft) = [] \<longleftrightarrow> (\<forall>d\<in>set deps. d \<noteq> [] \<longrightarrow> d \<in> set (Available ft))"
proof -
  have "fst (missingSoftwareDeps deps ft) = [] \<longleftrightarrow> set (fst (missingSoftwareDeps deps ft)) = {}" by simp
  then show ?thesis by (auto simp only: missing_spec)
qed

lemma unknown_Nil: "fst (missingSoftwareDeps deps ft) = [] \<Longrightarrow> snd (missingSoftwareDeps deps ft) = []"
proof -
  assume "fst (missingSoftwareDeps deps ft) = []"
  then have "set (snd (missingSoftwareDeps deps ft)) = {}" using missing_Nil [of deps ft] missing_spec(2) by auto
  then show ?thesis by simp
qed

lemma check_software_acc:
  "check_software f sw acc = (case check_software f sw [] of Inl e \<Rightarrow> Inl e | Inr rs \<Rightarrow> Inr (acc @ rs))"
proof (induction sw arbitrary: acc)
  case (Cons rd sw)
  obtain role d where rd: "rd = (role, d)" by fastforce
  show ?case
  proof (cases "role_dut f role")
    case None
    then show ?thesis using Cons.IH [of acc] by (simp add: rd)
  next
    case (Some dut)
    obtain mi un where m: "missingSoftwareDeps d (Software dut) = (mi, un)" by fastforce
    show ?thesis
      using Cons.IH [of acc] Cons.IH [of "acc @ [''missing SoftwareDeps: '' @ Join mi '', '']"]
        Cons.IH [of "[''missing SoftwareDeps: '' @ Join mi '', '']"]
      by (simp add: rd Some m split: sum.split)
  qed
qed simp

lemma check_hardware_acc:
  "check_hardware f hw acc = (case check_hardware f hw [] of Inl e \<Rightarrow> Inl e | Inr rs \<Rightarrow> Inr (acc @ rs))"
proof (induction hw arbitrary: acc)
  case (Cons rd hw)
  obtain role d where rd: "rd = (role, d)" by fastforce
  show ?case
  proof (cases "role_dut f role")
    case None
    then show ?thesis using Cons.IH [of acc] by (simp add: rd)
  next
    case (Some dut)
    show ?thesis
    proof (cases "Satisfied d (Hardware dut)")
      case (Inr rs)
      then show ?thesis using Cons.IH [of "acc @ rs"] Cons.IH [of rs] by (simp add: rd Some split: sum.split)
    qed (simp add: rd Some)
  qed
qed simp

text \<open>What one entry of the two maps contributes.\<close>

definition sw_bad :: "'h Features \<Rightarrow> string \<times> string list \<Rightarrow> bool" where
  "sw_bad f rd = (case role_dut f (fst rd) of None \<Rightarrow> False
     | Some dut \<Rightarrow> snd (missingSoftwareDeps (snd rd) (Software dut)) \<noteq> [])"

definition sw_reasons :: "'h Features \<Rightarrow> string \<times> string list \<Rightarrow> string list" where
  "sw_reasons f rd = (case role_dut f (fst rd) of None \<Rightarrow> []
     | Some dut \<Rightarrow> let missing = fst (missingSoftwareDeps (snd rd) (Software dut)) in
         if missing \<noteq> [] then [''missing SoftwareDeps: '' @ Join missing '', ''] else [])"

definition hw_result :: "'h Features \<Rightarrow> string \<times> 'h HardwareDeps \<Rightarrow> string list res" where
  "hw_result f rd = (case role_dut f (fst rd) of None \<Rightarrow> Inr [] | Some dut \<Rightarrow> Satisfied (snd rd) (Hardware dut))"

lemma check_software_eq:
  "\<exists>e. check_software f sw [] =
     (if \<exists>rd\<in>set sw. sw_bad f rd then Inl e else Inr (concat (map (sw_reasons f) sw)))"
proof (induction sw)
  case (Cons rd sw)
  obtain role d where rd: "rd = (role, d)" by fastforce
  from Cons obtain e where ih: "check_software f sw [] =
     (if \<exists>rd\<in>set sw. sw_bad f rd then Inl e else Inr (concat (map (sw_reasons f) sw)))" by blast
  show ?case
  proof (cases "role_dut f role")
    case None
    then show ?thesis using ih by (auto simp: rd sw_bad_def sw_reasons_def)
  next
    case (Some dut)
    obtain mi un where m: "missingSoftwareDeps d (Software dut) = (mi, un)" by fastforce
    then have b: "sw_bad f rd = (un \<noteq> [])" and
      r: "sw_reasons f rd = (if mi \<noteq> [] then [''missing SoftwareDeps: '' @ Join mi '', ''] else [])"
      using Some by (simp_all add: rd sw_bad_def sw_reasons_def)
    have "check_software f (rd # sw) [] = (if un \<noteq> [] then Inl (Errorf (''unknown SoftwareDeps: '' @ Join un '', ''))
        else check_software f sw (sw_reasons f rd))"
      using Some m by (simp add: rd sw_reasons_def)
    then show ?thesis using ih check_software_acc [of f sw "sw_reasons f rd"] b by auto
  qed
qed simp

lemma check_hardware_eq:
  "\<exists>e. check_hardware f hw [] =
     (if \<exists>rd\<in>set hw. \<not> is_ok (hw_result f rd) then Inl e
      else Inr (concat (map (\<lambda>rd. case hw_result f rd of Inl e \<Rightarrow> [] | Inr rs \<Rightarrow> rs) hw)))"
proof (induction hw)
  case (Cons rd hw)
  obtain role d where rd: "rd = (role, d)" by fastforce
  from Cons obtain e where ih: "check_hardware f hw [] =
     (if \<exists>rd\<in>set hw. \<not> is_ok (hw_result f rd) then Inl e
      else Inr (concat (map (\<lambda>rd. case hw_result f rd of Inl e \<Rightarrow> [] | Inr rs \<Rightarrow> rs) hw)))" by blast
  show ?case
  proof (cases "role_dut f role")
    case None
    then show ?thesis using ih by (auto simp: rd hw_result_def)
  next
    case (Some dut)
    show ?thesis
    proof (cases "Satisfied d (Hardware dut)")
      case (Inl e')
      then show ?thesis using Some by (simp add: rd hw_result_def)
    next
      case (Inr rs)
      then have "check_hardware f (rd # hw) [] = check_hardware f hw rs" "hw_result f rd = Inr rs"
        using Some by (simp_all add: rd hw_result_def)
      then show ?thesis using ih check_hardware_acc [of f hw rs] by auto
    qed
  qed
qed simp

lemma Satisfied_Nil:
  "Satisfied cs f = Inr [] \<longleftrightarrow> (\<forall>c\<in>set cs. \<exists>check r. cSatisfied c = Some check \<and> check f = Inr (True, r))"
proof (induction cs)
  case (Cons c cs)
  show ?case
  proof (cases "cSatisfied c")
    case None
    then show ?thesis by (cases "Satisfied cs f") auto
  next
    case (Some check)
    then show ?thesis using Cons by (cases "check f"; cases "Satisfied cs f") (auto split: if_splits)
  qed
qed simp

lemma check_software_Nil:
  "check_software f sw [] = Inr [] \<longleftrightarrow> (\<forall>rd\<in>set sw. \<not> sw_bad f rd \<and> sw_reasons f rd = [])"
proof -
  obtain e where "check_software f sw [] =
     (if \<exists>rd\<in>set sw. sw_bad f rd then Inl e else Inr (concat (map (sw_reasons f) sw)))"
    using check_software_eq by blast
  then show ?thesis by auto
qed

lemma check_hardware_Nil: "check_hardware f hw [] = Inr [] \<longleftrightarrow> (\<forall>rd\<in>set hw. hw_result f rd = Inr [])"
proof -
  obtain e where "check_hardware f hw [] =
     (if \<exists>rd\<in>set hw. \<not> is_ok (hw_result f rd) then Inl e
      else Inr (concat (map (\<lambda>rd. case hw_result f rd of Inl e \<Rightarrow> [] | Inr rs \<Rightarrow> rs) hw)))"
    using check_hardware_eq by blast
  moreover have "hw_result f rd = Inr [] \<longleftrightarrow> is_ok (hw_result f rd) \<and>
      (case hw_result f rd of Inl e \<Rightarrow> [] | Inr rs \<Rightarrow> rs) = []" for rd
    by (cases "hw_result f rd") auto
  ultimately show ?thesis by auto
qed

lemma sw_fine:
  "(\<forall>rd\<in>set sw. \<not> sw_bad f rd \<and> sw_reasons f rd = []) \<longleftrightarrow>
   (\<forall>(role, deps)\<in>set sw. \<forall>dut. role_dut f role = Some dut \<longrightarrow>
      (\<forall>s\<in>set deps. s \<noteq> [] \<longrightarrow> s \<in> set (Available (Software dut))))"
proof -
  have pt: "(\<not> sw_bad f rd \<and> sw_reasons f rd = []) = (case rd of (role, deps) \<Rightarrow>
      \<forall>dut. role_dut f role = Some dut \<longrightarrow> fst (missingSoftwareDeps deps (Software dut)) = [])" for rd
    using unknown_Nil [of "snd rd"]
    by (cases "role_dut f (fst rd)") (auto simp: sw_bad_def sw_reasons_def Let_def split: prod.split)
  show ?thesis unfolding pt missing_Nil ..
qed

lemma hw_fine:
  "(\<forall>rd\<in>set hw. hw_result f rd = Inr []) \<longleftrightarrow>
   (\<forall>(role, conds)\<in>set hw. \<forall>dut. role_dut f role = Some dut \<longrightarrow>
      (\<forall>c\<in>set conds. \<exists>check r. cSatisfied c = Some check \<and> check (Hardware dut) = Inr (True, r)))"
proof -
  have pt: "(hw_result f rd = Inr []) = (case rd of (role, conds) \<Rightarrow>
      \<forall>dut. role_dut f role = Some dut \<longrightarrow> Satisfied conds (Hardware dut) = Inr [])" for rd
    by (cases "role_dut f (fst rd)") (auto simp: hw_result_def split: prod.split)
  show ?thesis unfolding pt Satisfied_Nil ..
qed

lemma check_vars_Nil:
  "check_vars f matches vs acc = Inr [] \<longleftrightarrow> acc = [] \<and> (\<forall>v\<in>set vs. map_of (Vars f) v \<noteq> None)"
proof (induction vs arbitrary: acc)
  case (Cons v vs)
  show ?case using Cons [of acc] Cons [of "acc @ [m]" for m] by auto
qed auto

lemma Check_Nil:
  "Check compile d f = Inr [] \<longleftrightarrow> map_of (ForceSkips f) (dTest d) = None \<and> (\<not> CheckDeps f \<or>
      (\<exists>r1. check_software f (dSoftware d) [] = Inr r1 \<and> check_hardware f (dHardware d) r1 = Inr [] \<and>
        (\<exists>matches. compile (''^'' @ MaybeMissingVars f @ ''$'') = Inr matches \<and>
           check_vars f matches (dVar d) [] = Inr [])))"
proof (cases "map_of (ForceSkips f) (dTest d) = None \<and> CheckDeps f")
  case True
  define pat where "pat = ''^'' @ MaybeMissingVars f @ ''$''"
  define msg where "msg = (\<lambda>e. ''regex '' @ MaybeMissingVars f @ '' is invalid: '' @ e)"
  have eq: "Check compile d f = (case check_software f (dSoftware d) [] of
            Inl e \<Rightarrow> Inl e
          | Inr r1 \<Rightarrow>
              (case check_hardware f (dHardware d) r1 of
                 Inl e \<Rightarrow> Inl e
               | Inr r2 \<Rightarrow>
                   if r2 \<noteq> [] then Inr r2
                   else case compile pat of
                     Inl e \<Rightarrow> Inl (Errorf (msg e))
                   | Inr matches \<Rightarrow> check_vars f matches (dVar d) r2))"
    using True unfolding Check_def pat_def msg_def by simp
  show ?thesis unfolding pat_def [symmetric]
    using True
    by (cases "check_software f (dSoftware d) []"; cases "compile pat") (auto simp: eq split: sum.splits)
next
  case False
  then show ?thesis by (cases "map_of (ForceSkips f) (dTest d)") (simp_all add: Check_def)
qed

text \<open>C29: Exactly when a test is run as far as its dependencies go: \<open>Check\<close> returns no error and no reason to
  skip iff the test is not force-skipped, and either dependency checks are off, or all software
  dependencies are available and all hardware conditions evaluate to true, for each role whose DUT is
  known, the pattern of missing variables compiles, and all runtime variables are set.\<close>

theorem Check_runs_iff:
  "Check compile d f = Inr [] \<longleftrightarrow>
     map_of (ForceSkips f) (dTest d) = None \<and>
     (\<not> CheckDeps f \<or>
      (\<forall>(role, deps)\<in>set (dSoftware d). \<forall>dut. role_dut f role = Some dut \<longrightarrow>
         (\<forall>s\<in>set deps. s \<noteq> [] \<longrightarrow> s \<in> set (Available (Software dut)))) \<and>
      (\<forall>(role, conds)\<in>set (dHardware d). \<forall>dut. role_dut f role = Some dut \<longrightarrow>
         (\<forall>c\<in>set conds. \<exists>check r. cSatisfied c = Some check \<and> check (Hardware dut) = Inr (True, r))) \<and>
      (\<exists>matches. compile (''^'' @ MaybeMissingVars f @ ''$'') = Inr matches) \<and>
      (\<forall>v\<in>set (dVar d). map_of (Vars f) v \<noteq> None))"
proof -
  have sw: "check_software f (dSoftware d) [] = Inr [] \<longleftrightarrow>
    (\<forall>(role, deps)\<in>set (dSoftware d). \<forall>dut. role_dut f role = Some dut \<longrightarrow>
         (\<forall>s\<in>set deps. s \<noteq> [] \<longrightarrow> s \<in> set (Available (Software dut))))"
    unfolding check_software_Nil sw_fine by blast
  have hw: "check_hardware f (dHardware d) [] = Inr [] \<longleftrightarrow>
    (\<forall>(role, conds)\<in>set (dHardware d). \<forall>dut. role_dut f role = Some dut \<longrightarrow>
         (\<forall>c\<in>set conds. \<exists>check r. cSatisfied c = Some check \<and> check (Hardware dut) = Inr (True, r)))"
    unfolding check_hardware_Nil hw_fine by blast
  have acc: "(\<exists>r1. check_software f (dSoftware d) [] = Inr r1 \<and> check_hardware f (dHardware d) r1 = Inr [] \<and> P) \<longleftrightarrow>
      check_software f (dSoftware d) [] = Inr [] \<and> check_hardware f (dHardware d) [] = Inr [] \<and> P" for P
  proof (cases "check_software f (dSoftware d) []")
    case (Inr r1)
    then show ?thesis using check_hardware_acc [of f "dHardware d" r1]
      by (cases "check_hardware f (dHardware d) []") auto
  qed simp
  have "Check compile d f = Inr [] \<longleftrightarrow> map_of (ForceSkips f) (dTest d) = None \<and> (\<not> CheckDeps f \<or>
      (\<exists>r1. check_software f (dSoftware d) [] = Inr r1 \<and> check_hardware f (dHardware d) r1 = Inr [] \<and>
        (\<exists>matches. compile (''^'' @ MaybeMissingVars f @ ''$'') = Inr matches \<and>
           check_vars f matches (dVar d) [] = Inr [])))"
    by (rule Check_Nil)
  also have "\<dots> \<longleftrightarrow> map_of (ForceSkips f) (dTest d) = None \<and> (\<not> CheckDeps f \<or>
      check_software f (dSoftware d) [] = Inr [] \<and> check_hardware f (dHardware d) [] = Inr [] \<and>
        (\<exists>matches. compile (''^'' @ MaybeMissingVars f @ ''$'') = Inr matches) \<and>
        (\<forall>v\<in>set (dVar d). map_of (Vars f) v \<noteq> None))"
    unfolding acc check_vars_Nil by simp
  finally show ?thesis unfolding sw hw .
qed

lemma Check_tail:
  assumes "map_of (ForceSkips f) (dTest d) = None" "CheckDeps f"
    "check_software f (dSoftware d) [] = Inr r1" "check_hardware f (dHardware d) r1 = Inr r2"
  shows "Check compile d f = (if r2 \<noteq> [] then Inr r2 else case compile (''^'' @ MaybeMissingVars f @ ''$'') of
        Inl e \<Rightarrow> Inl (Errorf (''regex '' @ MaybeMissingVars f @ '' is invalid: '' @ e))
      | Inr matches \<Rightarrow> check_vars f matches (dVar d) [])"
  using assms by (cases "r2 = []") (simp_all add: Check_def)

text \<open>What the software and hardware entries contribute together.\<close>

definition dep_fails :: "'h Features \<Rightarrow> 'h Deps \<Rightarrow> bool" where
  "dep_fails f d \<longleftrightarrow> (\<exists>rd\<in>set (dSoftware d). sw_bad f rd) \<or> (\<exists>rd\<in>set (dHardware d). \<not> is_ok (hw_result f rd))"

definition dep_reasons :: "'h Features \<Rightarrow> 'h Deps \<Rightarrow> string list" where
  "dep_reasons f d = concat (map (sw_reasons f) (dSoftware d)) @
     concat (map (\<lambda>rd. case hw_result f rd of Inl e \<Rightarrow> [] | Inr rs \<Rightarrow> rs) (dHardware d))"

definition vars_checked :: "(string \<Rightarrow> string + (string \<Rightarrow> bool)) \<Rightarrow> 'h Features \<Rightarrow> string list \<Rightarrow> string list res" where
  "vars_checked compile f vars =
     (case compile (''^'' @ MaybeMissingVars f @ ''$'') of
        Inl e \<Rightarrow> Inl (Errorf (''regex '' @ MaybeMissingVars f @ '' is invalid: '' @ e))
      | Inr matches \<Rightarrow> check_vars f matches vars [])"

lemma Check_deps:
  assumes "map_of (ForceSkips f) (dTest d) = None" "CheckDeps f"
  shows "if dep_fails f d then \<not> is_ok (Check compile d f)
    else Check compile d f = (if dep_reasons f d \<noteq> [] then Inr (dep_reasons f d) else vars_checked compile f (dVar d))"
proof -
  let ?s = "concat (map (sw_reasons f) (dSoftware d))"
  obtain e1 where s: "check_software f (dSoftware d) [] = (if \<exists>rd\<in>set (dSoftware d). sw_bad f rd then Inl e1 else Inr ?s)"
    using check_software_eq by blast
  obtain e2 where h: "check_hardware f (dHardware d) [] = (if \<exists>rd\<in>set (dHardware d). \<not> is_ok (hw_result f rd) then Inl e2
      else Inr (concat (map (\<lambda>rd. case hw_result f rd of Inl e \<Rightarrow> [] | Inr rs \<Rightarrow> rs) (dHardware d))))"
    using check_hardware_eq by blast
  show ?thesis
  proof (cases "dep_fails f d")
    case True
    then show ?thesis using assms s h check_hardware_acc [of f "dHardware d" ?s] by (auto simp: Check_def dep_fails_def)
  next
    case False
    then have "check_software f (dSoftware d) [] = Inr ?s" "check_hardware f (dHardware d) ?s = Inr (dep_reasons f d)"
      using s h check_hardware_acc [of f "dHardware d" ?s] by (auto simp: dep_fails_def dep_reasons_def)
    then show ?thesis using Check_tail [OF assms] False by (simp add: vars_checked_def)
  qed
qed

text \<open>C30: The random iteration order of Go maps cannot change the verdict of \<open>Check\<close>: for every order of the
  software and hardware entries, either all orders give an error or none does, and without an error
  the reasons to skip are the same up to their order, so in particular a test is run under one order
  iff it is run under all.\<close>

theorem Check_order:
  assumes "mset sw = mset (dSoftware d)" and "mset hw = mset (dHardware d)"
  defines "d' \<equiv> d\<lparr>dSoftware := sw, dHardware := hw\<rparr>"
  shows "is_ok (Check compile d' f) = is_ok (Check compile d f) \<and>
    (\<forall>rs rs'. Check compile d f = Inr rs \<longrightarrow> Check compile d' f = Inr rs' \<longrightarrow> mset rs = mset rs')"
proof -
  have same: "dep_fails f d' = dep_fails f d" "mset (dep_reasons f d') = mset (dep_reasons f d)"
    "dTest d' = dTest d" "dVar d' = dVar d"
    using mset_eq_setD [OF assms(1)] mset_eq_setD [OF assms(2)]
    by (simp_all add: d'_def dep_fails_def dep_reasons_def mset_concat_perm [OF assms(1)] mset_concat_perm [OF assms(2)])
  then have nil: "dep_reasons f d' = [] \<longleftrightarrow> dep_reasons f d = []" by (metis mset_zero_iff)
  show ?thesis
  proof (cases "map_of (ForceSkips f) (dTest d) = None \<and> CheckDeps f")
    case True
    then show ?thesis using Check_deps [of f d compile] Check_deps [of f d' compile] same nil by (auto split: if_splits)
  next
    case False
    then have "Check compile d' f = Check compile d f"
      by (cases "map_of (ForceSkips f) (dTest d)") (auto simp: Check_def d'_def)
    then show ?thesis by simp
  qed
qed

definition ex_features :: "unit Features" where
  "ex_features = \<lparr>ForceSkips = [], CheckDeps = True,
     Dut = \<lparr>Software = \<lparr>Available = [''chrome''], Unavailable = [''android'']\<rparr>, Hardware = ()\<rparr>,
     CompanionFeatures = [(''cd1'', \<lparr>Software = \<lparr>Available = [], Unavailable = [''android'']\<rparr>, Hardware = ()\<rparr>)],
     MaybeMissingVars = [], Vars = [(''v'', ''1'')]\<rparr>"

definition ex_deps :: "(string \<times> string list) list \<Rightarrow> unit Deps" where
  "ex_deps sw = \<lparr>dTest = ''t'', dVar = [''v''], dSoftware = sw, dHardware = []\<rparr>"

theorem Check_runs_iff_witness:
  "Check (\<lambda>p. Inr (\<lambda>v. False)) (ex_deps [([], [''chrome''])]) ex_features = Inr []"
  using Check_runs_iff [of "\<lambda>p. Inr (\<lambda>v. False)" "ex_deps [([], [''chrome''])]" ex_features]
  by (simp add: ex_deps_def ex_features_def role_dut_def)

theorem Check_order_witness:
  "let a = ([], [''android'']); b = (''cd1'', [''android'', ''android'']);
       r = Check (\<lambda>p. Inr (\<lambda>v. False)) (ex_deps [a, b]) ex_features;
       r' = Check (\<lambda>p. Inr (\<lambda>v. False)) (ex_deps [b, a]) ex_features
   in r \<noteq> r' \<and> (\<exists>rs rs'. r = Inr rs \<and> r' = Inr rs' \<and> mset rs = mset rs')"
proof -
  let ?a = "([], [''android'']) :: string \<times> string list"
  let ?b = "(''cd1'', [''android'', ''android'']) :: string \<times> string list"
  let ?c = "\<lambda>p. Inr (\<lambda>v. False) :: string + (string \<Rightarrow> bool)"
  have r: "Check ?c (ex_deps [?a, ?b]) ex_features =
      Inr [''missing SoftwareDeps: android'', ''missing SoftwareDeps: android, android'']" by code_simp
  have r': "Check ?c (ex_deps [?b, ?a]) ex_features =
      Inr [''missing SoftwareDeps: android, android'', ''missing SoftwareDeps: android'']" by code_simp
  have e: "(ex_deps [?a, ?b])\<lparr>dSoftware := [?b, ?a], dHardware := []\<rparr> = ex_deps [?b, ?a]" by (simp add: ex_deps_def)
  have m: "mset [?b, ?a] = mset (dSoftware (ex_deps [?a, ?b]))" "mset [] = mset (dHardware (ex_deps [?a, ?b]))"
    by (simp_all add: ex_deps_def)
  have "mset [''missing SoftwareDeps: android'', ''missing SoftwareDeps: android, android''] =
      mset [''missing SoftwareDeps: android, android'', ''missing SoftwareDeps: android'']"
    using Check_order [OF m, of ?c ex_features] r r' unfolding e by blast
  then show ?thesis unfolding Let_def r r' by simp
qed

end
