(* ===== verification/Plan.thy ===== *)
theory Plan
  imports Combined Extdata Deps
begin

text \<open>
  Planning, the first half of \<open>internal/planner/run.go\<close>: the configuration of the planner, test
  instances, and how \<open>buildPlan\<close> distributes the tests of a request to skipped tests, preconditions
  and a tree of fixtures.  The recursions along the parents of fixtures (\<open>traverse\<close>) and along the
  graph of children (\<open>newTree\<close>) take fuel, since a cyclic fixture registry would make the Go code
  recurse forever; the lemmas show that one more than the number of registered fixtures is enough
  when the registry is acyclic.  Maps are association lists.
\<close>

subsection \<open>Tests\<close>

text \<open>A precondition: its \<open>String\<close>, \<open>Timeout\<close>, \<open>Prepare\<close> and \<open>Close\<close>.\<close>

record 'w Precondition =
  pcString :: string
  pcTimeout :: int
  pcPrepare :: "RuntimeConfig \<Rightarrow> ('w, val) ucode"
  pcClose :: "RuntimeConfig \<Rightarrow> ('w, unit) ucode"

text \<open>A test function gets the runtime configuration, the value of the precondition and the purgeable
  files through its state object.\<close>

record ('w, 'h) TestInstance =
  tName :: string
  tPkg :: string
  tFixture :: string
  tData :: "string list"
  tTimeout :: int
  tExitTimeout :: int
  tVarDeps :: "string list"
  tSoftwareDeps :: "(string \<times> string list) list"
  tHardwareDeps :: "(string \<times> 'h HardwareDeps) list"
  tPre :: "'w Precondition option"
  tFunc :: "RuntimeConfig \<Rightarrow> val \<Rightarrow> string list \<Rightarrow> ('w, unit) ucode"

definition test_EntityProto :: "('w, 'h) TestInstance \<Rightarrow> Entity" where
  "test_EntityProto t = \<lparr>EType = TEST, EName = tName t, EPackage = tPkg t, EFixture = tFixture t,
     EDataFiles = tData t\<rparr>"

definition test_Deps :: "('w, 'h) TestInstance \<Rightarrow> 'h Deps" where
  "test_Deps t = \<lparr>dTest = tName t, dVar = tVarDeps t, dSoftware = tSoftwareDeps t,
     dHardware = tHardwareDeps t\<rparr>"

subsection \<open>Configuration\<close>

text \<open>What a local bundle run from this one does: report events, send stack operations and wait for the
  response, and finish with the names of the tests that ran and how \<open>RunLocalTests\<close> returned.\<close>

datatype ext_status = ExtNil | ExtNoTestRan | ExtErr string

datatype 'w ext =
    ExtDone "string list" ext_status 'w
  | ExtEmit out_event "'w ext"
  | ExtReq StackOperationRequest 'w "StackOperationResponse \<Rightarrow> 'w \<Rightarrow> 'w ext"

text \<open>The planner's \<open>Config\<close>, with the code outside the planner that it reaches: the environment of the
  bundle, \<open>regexp.Compile\<close>, the test hook, the DUT connection (\<open>Connected\<close> and \<open>Connect\<close>, present for
  remote tests only), what \<open>runtime.Caller\<close> and \<open>pprof\<close> report, and the external target.\<close>

record ('w, 'h) Config =
  pEnv :: "'w env"
  pDataDir :: string
  pOutDir :: string
  pFeatures :: "'h Features"
  pRegexp :: "string \<Rightarrow> string + (string \<Rightarrow> bool)"
  pDownloader :: "'w downloader"
  pArtifactsURL :: string
  pClientErr :: "string option"
  pTestHook :: "(RuntimeConfig \<Rightarrow> string \<Rightarrow> ('w, ('w, unit) ucode option) ucode) option"
  pDUT :: "(('w \<Rightarrow> bool) \<times> ('w, string option) ucode) option"
  pTests :: "(string \<times> ('w, 'h) TestInstance) list"
  pFixtures :: "(string \<times> 'w FixtureInstance) list"
  pStartFixtureName :: string
  pStartFixtureImpl :: "'w FixtureImpl option"
  pCustomGracePeriod :: "int option"
  pCaller :: ErrorLocation
  pGoroutines :: "'w \<Rightarrow> string list \<times> string option"
  pConnCache :: "'w \<Rightarrow> string option \<times> 'w"
  pExternal :: "(string list \<Rightarrow> StartFixtureState option \<Rightarrow> 'w \<Rightarrow> 'w ext) option"

text \<open>Durations are in nanoseconds.\<close>

definition second :: int where "second = 1000000000"
definition preTestTimeout :: int where "preTestTimeout = 3 * 60 * second"
definition postTestTimeout :: int where "postTestTimeout = 3 * 60 * second"
definition DefaultGracePeriod :: int where "DefaultGracePeriod = 30 * second"

definition GracePeriod :: "('w, 'h) Config \<Rightarrow> int" where
  "GracePeriod c = (case pCustomGracePeriod c of Some p \<Rightarrow> p | None \<Rightarrow> DefaultGracePeriod)"

definition FixtureConfig :: "('w, 'h) Config \<Rightarrow> FixtConfig" where
  "FixtureConfig c = \<lparr>cDataDir = pDataDir c, cOutDir = pOutDir c, cStartFixtureName = pStartFixtureName c,
     cGracePeriod = GracePeriod c\<rparr>"

subsection \<open>Plans\<close>

record ResolvedEntity =
  rEntity :: Entity
  rHops :: int
  rSkip :: "string list"
  rStartFixtureName :: string

record ('w, 'h) skippedTest =
  skTest :: "('w, 'h) TestInstance"
  skReasons :: "string list"
  skErr :: "goerr option"

record orphanTest =
  oTest :: ResolvedEntity
  missingFixtName :: string

datatype ('w, 'h) fixtTree =
  FT (ft_fixt: "'w FixtureInstance") (ft_tests: "('w, 'h) TestInstance list") (ft_ext: "string list")
     (ft_children: "('w, 'h) fixtTree list")

definition ft_Empty :: "('w, 'h) fixtTree \<Rightarrow> bool" where
  "ft_Empty t = (ft_tests t = [] \<and> ft_ext t = [] \<and> ft_children t = [])"

record ('w, 'h) fixtPlan =
  fpTree :: "('w, 'h) fixtTree"
  fpOrphans :: "orphanTest list"

record ('w, 'h) prePlan =
  ppPre :: "'w Precondition option"
  ppTests :: "('w, 'h) TestInstance list"

record ('w, 'h) plan =
  plSkips :: "('w, 'h) skippedTest list"
  plFixtPlan :: "('w, 'h) fixtPlan"
  plPrePlans :: "('w, 'h) prePlan list"

subsubsection \<open>The fixture plan\<close>

definition fixtTreeParent :: "ResolvedEntity \<Rightarrow> string" where
  "fixtTreeParent t = (if rHops t > 0 then rStartFixtureName t else EFixture (rEntity t))"

text \<open>The local variables of \<open>buildFixtPlan\<close>.\<close>

record ('w, 'h) build =
  bOrphans :: "orphanTest list"
  bTests :: "(string \<times> ('w, 'h) TestInstance list) list"
  bExternal :: "(string \<times> string list) list"
  bGraph :: "(string \<times> string list) list"
  bAdded :: "string list"

text \<open>\<open>traverse\<close> returns \<open>rooted\<close> and the name of the missing fixture.\<close>

fun traverse ::
  "nat \<Rightarrow> ('w, 'h) Config \<Rightarrow> string \<Rightarrow> ('w, 'h) build \<Rightarrow> ((bool \<times> string) \<times> ('w, 'h) build) option" where
  "traverse 0 pcfg fx b = None"
| "traverse (Suc n) pcfg fx b =
     (if fx = pStartFixtureName pcfg then Some ((True, []), b)
      else if fx \<in> set (bAdded b) then Some ((True, []), b)
      else case map_of (pFixtures pcfg) fx of
             None \<Rightarrow> Some ((False, fx), b)
           | Some f \<Rightarrow>
               (case traverse n pcfg (fParent f) b of
                  None \<Rightarrow> None
                | Some ((rooted, missing), b1) \<Rightarrow>
                    Some ((rooted, missing),
                      if rooted then b1\<lparr>bAdded := fx # bAdded b1, bGraph := mappend (bGraph b1) (fParent f) fx\<rparr>
                      else b1)))"

definition fixt_fuel :: "('w, 'h) Config \<Rightarrow> nat" where
  "fixt_fuel pcfg = Suc (length (pFixtures pcfg))"

text \<open>Where a test goes once its fixture was traversed.  The instance of a test with no hops exists,
  as \<open>buildPlan\<close> checked.\<close>

definition place_test ::
  "('w, 'h) Config \<Rightarrow> ResolvedEntity \<Rightarrow> bool \<times> string \<Rightarrow> ('w, 'h) build \<Rightarrow> ('w, 'h) build" where
  "place_test pcfg t rm b =
     (let f = fixtTreeParent t; name = EName (rEntity t) in
      if \<not> fst rm then b\<lparr>bOrphans := bOrphans b @ [\<lparr>oTest = t, missingFixtName = snd rm\<rparr>]\<rparr>
      else if rHops t = 0 then
        b\<lparr>bTests := (case map_of (pTests pcfg) name of
            Some ti \<Rightarrow> mappend (bTests b) f ti | None \<Rightarrow> bTests b)\<rparr>
      else if rSkip t \<noteq> [] then b\<lparr>bExternal := mappend (bExternal b) [] name\<rparr>
      else b\<lparr>bExternal := mappend (bExternal b) f name\<rparr>)"

fun build_tests :: "('w, 'h) Config \<Rightarrow> ResolvedEntity list \<Rightarrow> ('w, 'h) build \<Rightarrow> ('w, 'h) build option" where
  "build_tests pcfg [] b = Some b"
| "build_tests pcfg (t # ts) b =
     (case traverse (fixt_fuel pcfg) pcfg (fixtTreeParent t) b of
        None \<Rightarrow> None
      | Some (rm, b1) \<Rightarrow> build_tests pcfg ts (place_test pcfg t rm b1))"

definition build0 :: "('w, 'h) build" where
  "build0 = \<lparr>bOrphans = [], bTests = [], bExternal = [], bGraph = [], bAdded = []\<rparr>"

text \<open>The order on orphans: by hops, then by name.\<close>

definition orphan_le :: "orphanTest \<Rightarrow> orphanTest \<Rightarrow> bool" where
  "orphan_le a b =
     (let ei = oTest a; ej = oTest b in
      if rHops ei \<noteq> rHops ej then rHops ei < rHops ej else EName (rEntity ei) \<le> EName (rEntity ej))"

fun orphan_insert :: "orphanTest \<Rightarrow> orphanTest list \<Rightarrow> orphanTest list" where
  "orphan_insert x [] = [x]"
| "orphan_insert x (y # ys) = (if orphan_le x y then x # y # ys else y # orphan_insert x ys)"

definition sort_orphans :: "orphanTest list \<Rightarrow> orphanTest list" where
  "sort_orphans os = foldr orphan_insert os []"

definition returns :: "'a \<Rightarrow> ('w, 'a) ucode" where
  "returns x w = \<lparr>reports = [], finish = Some (0, UReturn x), cancelled = None, uworld = w\<rparr>"

definition stubFixture :: "'w FixtureImpl" where
  "stubFixture = \<lparr>iSetUp = (\<lambda>c. returns None), iReset = returns None, iPreTest = (\<lambda>c n. returns ()),
     iPostTest = (\<lambda>c n. returns ()), iTearDown = (\<lambda>c. returns ())\<rparr>"

definition infinite_timeout :: int where
  "infinite_timeout = 24 * 60 * 60 * second"

definition rootFixture :: "('w, 'h) Config \<Rightarrow> 'w FixtureInstance" where
  "rootFixture pcfg =
     \<lparr>fPkg = [], fName = [], fParent = [],
      fImpl = (case pStartFixtureImpl pcfg of Some i \<Rightarrow> i | None \<Rightarrow> stubFixture),
      fSetUpTimeout = infinite_timeout, fResetTimeout = infinite_timeout, fPreTestTimeout = infinite_timeout,
      fPostTestTimeout = infinite_timeout, fTearDownTimeout = infinite_timeout, fData = []\<rparr>"

definition tests_of :: "('w, 'h) build \<Rightarrow> string \<Rightarrow> ('w, 'h) TestInstance list" where
  "tests_of b name = sort_by tName (mget (bTests b) name)"

definition externals_of :: "('w, 'h) build \<Rightarrow> string \<Rightarrow> string list" where
  "externals_of b name = sort (mget (bExternal b) name)"

definition children_of :: "('w, 'h) build \<Rightarrow> string \<Rightarrow> string list" where
  "children_of b name = sort (mget (bGraph b) name)"

text \<open>\<open>newTree\<close>; a name in the graph that is not the start fixture is registered.\<close>

fun newTree :: "nat \<Rightarrow> ('w, 'h) Config \<Rightarrow> ('w, 'h) build \<Rightarrow> string \<Rightarrow> ('w, 'h) fixtTree option" where
  "newTree 0 pcfg b name = None"
| "newTree (Suc n) pcfg b name =
     (case those (map (newTree n pcfg b) (children_of b name)) of
        None \<Rightarrow> None
      | Some cs \<Rightarrow>
          if name = pStartFixtureName pcfg
          then Some (FT (rootFixture pcfg) (tests_of b name) (externals_of b name) cs)
          else case map_of (pFixtures pcfg) name of
                 None \<Rightarrow> None
               | Some f \<Rightarrow> Some (FT f (tests_of b name) (externals_of b name) cs))"

definition buildFixtPlan :: "ResolvedEntity list \<Rightarrow> ('w, 'h) Config \<Rightarrow> ('w, 'h) fixtPlan option" where
  "buildFixtPlan tests pcfg =
     (case build_tests pcfg tests build0 of
        None \<Rightarrow> None
      | Some b \<Rightarrow>
          (case newTree (fixt_fuel pcfg) pcfg b (pStartFixtureName pcfg) of
             None \<Rightarrow> None
           | Some tree \<Rightarrow> Some \<lparr>fpTree = tree, fpOrphans = sort_orphans (bOrphans b)\<rparr>))"

subsubsection \<open>The whole plan\<close>

definition buildPrePlan :: "('w, 'h) TestInstance list \<Rightarrow> ('w, 'h) prePlan" where
  "buildPrePlan tests =
     (let ts = sort_by tName tests in
      \<lparr>ppPre = (case ts of [] \<Rightarrow> None | t # _ \<Rightarrow> tPre t), ppTests = ts\<rparr>)"

record ('w, 'h) dispatch =
  dpFixture :: "ResolvedEntity list"
  dpPre :: "(string \<times> ('w, 'h) TestInstance list) list"
  dpSkips :: "('w, 'h) skippedTest list"

fun dispatch_tests ::
  "('w, 'h) Config \<Rightarrow> ResolvedEntity list \<Rightarrow> ('w, 'h) dispatch \<Rightarrow> ('w, 'h) dispatch res" where
  "dispatch_tests pcfg [] d = Inr d"
| "dispatch_tests pcfg (t # ts) d =
     (if rHops t > 0 then dispatch_tests pcfg ts (d\<lparr>dpFixture := dpFixture d @ [t]\<rparr>)
      else case map_of (pTests pcfg) (EName (rEntity t)) of
        None \<Rightarrow> Inl (BUG (''test '' @ EName (rEntity t) @ '' does not exist''))
      | Some ti \<Rightarrow>
          (case Check (pRegexp pcfg) (test_Deps ti) (pFeatures pcfg) of
             Inl e \<Rightarrow>
               dispatch_tests pcfg ts (d\<lparr>dpSkips := dpSkips d @ [\<lparr>skTest = ti, skReasons = [], skErr = Some e\<rparr>]\<rparr>)
           | Inr reasons \<Rightarrow>
               if reasons \<noteq> [] then
                 dispatch_tests pcfg ts
                   (d\<lparr>dpSkips := dpSkips d @ [\<lparr>skTest = ti, skReasons = reasons, skErr = None\<rparr>]\<rparr>)
               else case tPre ti of
                 Some pre \<Rightarrow> dispatch_tests pcfg ts (d\<lparr>dpPre := mappend (dpPre d) (pcString pre) ti\<rparr>)
               | None \<Rightarrow> dispatch_tests pcfg ts (d\<lparr>dpFixture := dpFixture d @ [t]\<rparr>)))"

definition dispatch0 :: "('w, 'h) dispatch" where
  "dispatch0 = \<lparr>dpFixture = [], dpPre = [], dpSkips = []\<rparr>"

text \<open>\<open>None\<close> if the registry of fixtures is cyclic.\<close>

definition buildPlan :: "ResolvedEntity list \<Rightarrow> ('w, 'h) Config \<Rightarrow> ('w, 'h) plan res option" where
  "buildPlan tests pcfg =
     (case dispatch_tests pcfg tests dispatch0 of
        Inl e \<Rightarrow> Some (Inl e)
      | Inr d \<Rightarrow>
          (case buildFixtPlan (dpFixture d) pcfg of
             None \<Rightarrow> None
           | Some fp \<Rightarrow>
               Some (Inr \<lparr>plSkips = sort_by (\<lambda>s. tName (skTest s)) (dpSkips d),
                 plFixtPlan = fp,
                 plPrePlans = map (\<lambda>n. buildPrePlan (mget (dpPre d) n)) (sort (map fst (dpPre d)))\<rparr>)))"

fun tree_entities :: "('w, 'h) fixtTree \<Rightarrow> Entity list" where
  "tree_entities (FT f ts es cs) =
     (if fName f \<noteq> [] then [fixt_EntityProto f] else []) @ map test_EntityProto ts @ concat (map tree_entities cs)"

definition fp_entitiesToRun :: "('w, 'h) fixtPlan \<Rightarrow> Entity list" where
  "fp_entitiesToRun p = map (\<lambda>o'. rEntity (oTest o')) (fpOrphans p) @ tree_entities (fpTree p)"

definition entitiesToRun :: "('w, 'h) plan \<Rightarrow> Entity list" where
  "entitiesToRun p = fp_entitiesToRun (plFixtPlan p) @
     concat (map (\<lambda>pp. map test_EntityProto (ppTests pp)) (plPrePlans p))"

subsection \<open>Traversal terminates on acyclic registries\<close>

text \<open>The edges of the registry, from a fixture to the fixtures that name it as their parent.\<close>

definition parent_edges :: "('w, 'h) Config \<Rightarrow> (string \<times> string) set" where
  "parent_edges pcfg = {(fParent f, n) | f n. map_of (pFixtures pcfg) n = Some f}"

definition ancestors :: "('w, 'h) Config \<Rightarrow> string \<Rightarrow> string set" where
  "ancestors pcfg x = {y. y \<in> dom (map_of (pFixtures pcfg)) \<and> (y, x) \<in> (parent_edges pcfg)\<^sup>*}"

lemma finite_ancestors [simp]: "finite (ancestors pcfg x)"
  unfolding ancestors_def by (rule finite_subset [OF _ finite_dom_map_of [of "pFixtures pcfg"]]) auto

lemma card_ancestors: "card (ancestors pcfg x) < fixt_fuel pcfg"
proof -
  have "ancestors pcfg x \<subseteq> fst ` set (pFixtures pcfg)"
    by (auto simp: ancestors_def dom_map_of_conv_image_fst)
  then have "card (ancestors pcfg x) \<le> card (fst ` set (pFixtures pcfg))" by (simp add: card_mono)
  also have "\<dots> \<le> length (pFixtures pcfg)" by (metis card_length card_image_le finite_set le_trans)
  finally show ?thesis by (simp add: fixt_fuel_def)
qed

lemma ancestors_parent:
  assumes "acyclic (parent_edges pcfg)" and f: "map_of (pFixtures pcfg) x = Some f"
  shows "card (ancestors pcfg (fParent f)) < card (ancestors pcfg x)"
proof (rule psubset_card_mono)
  have e: "(fParent f, x) \<in> parent_edges pcfg" using f by (auto simp: parent_edges_def)
  have "x \<notin> ancestors pcfg (fParent f)"
    using e assms(1) by (auto simp: ancestors_def acyclic_def dest: rtrancl_into_trancl1)
  moreover have "x \<in> ancestors pcfg x" using f by (auto simp: ancestors_def)
  moreover have "ancestors pcfg (fParent f) \<subseteq> ancestors pcfg x"
    using e by (auto simp: ancestors_def intro: rtrancl_into_rtrancl)
  ultimately show "ancestors pcfg (fParent f) \<subset> ancestors pcfg x" by blast
qed simp

lemma traverse_total:
  assumes "acyclic (parent_edges pcfg)" and "card (ancestors pcfg fx) < n"
  shows "\<exists>rm b'. traverse n pcfg fx b = Some (rm, b')"
  using assms(2)
proof (induction n arbitrary: fx)
  case (Suc n)
  show ?case
  proof (cases "map_of (pFixtures pcfg) fx")
    case (Some f)
    have "card (ancestors pcfg (fParent f)) < n" using ancestors_parent [OF assms(1) Some] Suc.prems by simp
    from Suc.IH [OF this] obtain rm b' where "traverse n pcfg (fParent f) b = Some (rm, b')" by blast
    then show ?thesis using Some by (cases rm) auto
  qed auto
qed simp

lemma build_tests_total:
  "acyclic (parent_edges pcfg) \<Longrightarrow> \<exists>b'. build_tests pcfg ts b = Some b'"
proof (induction ts arbitrary: b)
  case (Cons t ts)
  obtain rm b1 where "traverse (fixt_fuel pcfg) pcfg (fixtTreeParent t) b = Some (rm, b1)"
    using traverse_total [OF Cons.prems card_ancestors] by blast
  then show ?case using Cons.IH [OF Cons.prems] by simp
qed simp

subsection \<open>The graph of fixtures is a tree\<close>

definition parent_of :: "('w, 'h) Config \<Rightarrow> string \<Rightarrow> string" where
  "parent_of pcfg x = (case map_of (pFixtures pcfg) x of None \<Rightarrow> [] | Some f \<Rightarrow> fParent f)"

text \<open>The fixtures added so far, the newest first: each has its parent after it.\<close>

fun rooted_list :: "('w, 'h) Config \<Rightarrow> string list \<Rightarrow> bool" where
  "rooted_list pcfg [] = True"
| "rooted_list pcfg (x # xs) =
     (x \<notin> set xs \<and> x \<noteq> pStartFixtureName pcfg \<and> map_of (pFixtures pcfg) x \<noteq> None \<and>
      parent_of pcfg x \<in> insert (pStartFixtureName pcfg) (set xs) \<and> rooted_list pcfg xs)"

definition build_ok :: "('w, 'h) Config \<Rightarrow> ('w, 'h) build \<Rightarrow> bool" where
  "build_ok pcfg b = (rooted_list pcfg (bAdded b) \<and>
     (\<forall>p. mget (bGraph b) p = rev (filter (\<lambda>x. parent_of pcfg x = p) (bAdded b))))"

definition in_graph :: "('w, 'h) Config \<Rightarrow> ('w, 'h) build \<Rightarrow> string set" where
  "in_graph pcfg b = insert (pStartFixtureName pcfg) (set (bAdded b))"

lemma build_ok_0: "build_ok pcfg build0"
  by (simp add: build_ok_def build0_def)

lemma build_ok_frame:
  "build_ok pcfg (b\<lparr>bOrphans := x\<rparr>) = build_ok pcfg b"
  "build_ok pcfg (b\<lparr>bTests := y\<rparr>) = build_ok pcfg b"
  "build_ok pcfg (b\<lparr>bExternal := z\<rparr>) = build_ok pcfg b"
  "in_graph pcfg (b\<lparr>bOrphans := x\<rparr>) = in_graph pcfg b"
  "in_graph pcfg (b\<lparr>bTests := y\<rparr>) = in_graph pcfg b"
  "in_graph pcfg (b\<lparr>bExternal := z\<rparr>) = in_graph pcfg b"
  by (simp_all add: build_ok_def in_graph_def)

lemma place_test_ok:
  "build_ok pcfg (place_test pcfg t rm b) = build_ok pcfg b"
  "in_graph pcfg (place_test pcfg t rm b) = in_graph pcfg b"
  by (simp_all add: place_test_def Let_def build_ok_frame)

lemma traverse_added:
  "traverse n pcfg fx b = Some (rm, b') \<Longrightarrow> set (bAdded b') \<subseteq> set (bAdded b) \<union> ancestors pcfg fx"
proof (induction n pcfg fx b arbitrary: rm b' rule: traverse.induct)
  case (2 n pcfg fx b)
  show ?case
  proof (cases "fx \<noteq> pStartFixtureName pcfg \<and> fx \<notin> set (bAdded b) \<and> map_of (pFixtures pcfg) fx \<noteq> None")
    case True
    then obtain f where f: "map_of (pFixtures pcfg) fx = Some f" by blast
    with True 2(2) obtain rm1 b1 where t: "traverse n pcfg (fParent f) b = Some (rm1, b1)"
      and "b' = (if fst rm1 then b1\<lparr>bAdded := fx # bAdded b1, bGraph := mappend (bGraph b1) (fParent f) fx\<rparr> else b1)"
      by (auto split: option.splits)
    then have b': "set (bAdded b') \<subseteq> insert fx (set (bAdded b1))" by auto
    have "set (bAdded b1) \<subseteq> set (bAdded b) \<union> ancestors pcfg (fParent f)" using 2(1) True f t by blast
    moreover have "(fParent f, fx) \<in> parent_edges pcfg" using f by (auto simp: parent_edges_def)
    then have "ancestors pcfg (fParent f) \<subseteq> ancestors pcfg fx" "fx \<in> ancestors pcfg fx"
      using f by (auto simp: ancestors_def intro: rtrancl_into_rtrancl)
    ultimately show ?thesis using b' by blast
  next
    case False
    then show ?thesis using 2(2) by (auto split: if_splits option.splits)
  qed
qed simp

lemma ancestors_irrefl:
  assumes "acyclic (parent_edges pcfg)" and "map_of (pFixtures pcfg) x = Some f"
  shows "x \<notin> ancestors pcfg (fParent f)"
proof
  assume "x \<in> ancestors pcfg (fParent f)"
  then have "ancestors pcfg x \<subseteq> ancestors pcfg (fParent f)" by (auto simp: ancestors_def)
  then show False using ancestors_parent [OF assms] by (simp add: card_mono leD)
qed

lemma build_ok_add:
  assumes "build_ok pcfg b" and "map_of (pFixtures pcfg) x = Some f" and "x \<notin> in_graph pcfg b"
    and "fParent f \<in> in_graph pcfg b"
  shows "build_ok pcfg (b\<lparr>bAdded := x # bAdded b, bGraph := mappend (bGraph b) (fParent f) x\<rparr>)"
  using assms by (auto simp: build_ok_def in_graph_def parent_of_def mget_mappend)

lemma traverse_ok:
  assumes "acyclic (parent_edges pcfg)"
  shows "traverse n pcfg fx b = Some ((rooted, missing), b') \<Longrightarrow> build_ok pcfg b \<Longrightarrow>
     build_ok pcfg b' \<and> in_graph pcfg b \<subseteq> in_graph pcfg b' \<and> (rooted \<longleftrightarrow> fx \<in> in_graph pcfg b') \<and>
     bOrphans b' = bOrphans b \<and> bTests b' = bTests b \<and> bExternal b' = bExternal b"
proof (induction n arbitrary: fx rooted missing b')
  case (Suc n)
  show ?case
  proof (cases "fx \<in> in_graph pcfg b")
    case True
    then show ?thesis using Suc.prems by (auto simp: in_graph_def split: if_splits)
  next
    case new: False
    then have fx: "fx \<noteq> pStartFixtureName pcfg" "fx \<notin> set (bAdded b)" by (auto simp: in_graph_def)
    show ?thesis
    proof (cases "map_of (pFixtures pcfg) fx")
      case None
      then show ?thesis using Suc.prems fx by (auto simp: in_graph_def)
    next
      case (Some f)
      from Suc.prems(1) fx Some obtain b1 where t: "traverse n pcfg (fParent f) b = Some ((rooted, missing), b1)"
        and b': "b' = (if rooted then b1\<lparr>bAdded := fx # bAdded b1, bGraph := mappend (bGraph b1) (fParent f) fx\<rparr> else b1)"
        by (auto split: option.splits)
      from Suc.IH [OF t Suc.prems(2)] have IH: "build_ok pcfg b1" "in_graph pcfg b \<subseteq> in_graph pcfg b1"
        "rooted \<longleftrightarrow> fParent f \<in> in_graph pcfg b1" "bOrphans b1 = bOrphans b" "bTests b1 = bTests b"
        "bExternal b1 = bExternal b" by blast+
      have nin: "fx \<notin> in_graph pcfg b1"
        using traverse_added [OF t] ancestors_irrefl [OF assms Some] fx by (auto simp: in_graph_def)
      show ?thesis
      proof (cases rooted)
        case True
        then show ?thesis using build_ok_add [OF IH(1) Some nin] IH b' by (auto simp: in_graph_def)
      qed (use IH b' nin in auto)
    qed
  qed
qed simp

subsection \<open>The tree contains every fixture of the graph once\<close>

lemma rooted_parent:
  "rooted_list pcfg xs \<Longrightarrow> x \<in> set xs \<Longrightarrow> parent_of pcfg x \<in> insert (pStartFixtureName pcfg) (set xs)"
  by (induction xs) auto

lemma rooted_rank:
  "rooted_list pcfg xs \<Longrightarrow>
   \<exists>r. r (pStartFixtureName pcfg) = (0::nat) \<and> (\<forall>x\<in>set xs. r (parent_of pcfg x) < r x \<and> r x \<le> length xs)"
proof (induction xs)
  case (Cons x xs)
  then obtain r where r: "r (pStartFixtureName pcfg) = (0::nat)"
    "\<forall>y\<in>set xs. r (parent_of pcfg y) < r y \<and> r y \<le> length xs" by auto
  let ?r = "r(x := Suc (length xs))"
  have x: "x \<notin> set xs" "x \<noteq> pStartFixtureName pcfg"
    "parent_of pcfg x \<in> insert (pStartFixtureName pcfg) (set xs)" using Cons.prems by simp_all
  have "\<forall>y\<in>set xs. parent_of pcfg y \<noteq> x"
    using rooted_parent [of pcfg xs] Cons.prems x(1,2) by auto
  then have "\<forall>y\<in>set (x # xs). ?r (parent_of pcfg y) < ?r y \<and> ?r y \<le> length (x # xs)"
    using r x by (auto simp: le_imp_less_Suc)
  moreover have "?r (pStartFixtureName pcfg) = 0" using r x by simp
  ultimately show ?case by blast
qed (auto intro: exI [of _ "\<lambda>_. 0"])

lemma rooted_dom: "rooted_list pcfg xs \<Longrightarrow> set xs \<subseteq> dom (map_of (pFixtures pcfg)) \<and> distinct xs"
  by (induction xs) auto

lemma rooted_length:
  assumes "rooted_list pcfg xs" shows "length xs < fixt_fuel pcfg"
proof -
  have "length xs = card (set xs)" using rooted_dom [OF assms] by (simp add: distinct_card)
  also have "\<dots> \<le> card (fst ` set (pFixtures pcfg))"
    using rooted_dom [OF assms] by (intro card_mono) (auto simp: dom_map_of_conv_image_fst)
  also have "\<dots> \<le> length (pFixtures pcfg)" by (metis card_length card_image_le finite_set le_trans)
  finally show ?thesis by (simp add: fixt_fuel_def)
qed

lemma children_of_ok:
  assumes "build_ok pcfg b"
  shows "set (children_of b p) = {x \<in> set (bAdded b). parent_of pcfg x = p}" "distinct (children_of b p)"
  using assms rooted_dom [of pcfg "bAdded b"] by (auto simp: build_ok_def children_of_def)

lemma those_map_Some: "(\<forall>x\<in>set xs. f x \<noteq> None) \<Longrightarrow> those (map f xs) = Some (map (\<lambda>x. the (f x)) xs)"
  by (induction xs) auto

lemma those_SomeD: "those (map f xs) = Some ys \<Longrightarrow> (\<forall>x\<in>set xs. f x \<noteq> None) \<and> ys = map (\<lambda>x. the (f x)) xs"
  by (induction xs arbitrary: ys) (auto split: option.splits)

lemma newTree_total:
  assumes ok: "build_ok pcfg b"
    and r: "\<forall>x\<in>set (bAdded b). r (parent_of pcfg x) < (r x :: nat) \<and> r x \<le> length (bAdded b)"
  shows "name \<in> in_graph pcfg b \<Longrightarrow> length (bAdded b) < n + r name \<Longrightarrow> 0 < n \<Longrightarrow> newTree n pcfg b name \<noteq> None"
proof (induction n arbitrary: name)
  case (Suc n)
  have "\<forall>c\<in>set (children_of b name). newTree n pcfg b c \<noteq> None"
  proof
    fix c assume "c \<in> set (children_of b name)"
    then have c: "c \<in> set (bAdded b)" "parent_of pcfg c = name" using children_of_ok [OF ok] by auto
    then have "r name < r c" "r c \<le> length (bAdded b)" using r by auto
    then have "length (bAdded b) < n + r c" "0 < n" using Suc.prems(2) by linarith+
    then show "newTree n pcfg b c \<noteq> None" using Suc.IH [of c] c by (simp add: in_graph_def)
  qed
  moreover have "name = pStartFixtureName pcfg \<or> map_of (pFixtures pcfg) name \<noteq> None"
    using Suc.prems(1) rooted_dom [of pcfg "bAdded b"] ok by (auto simp: in_graph_def build_ok_def)
  ultimately show ?case by (auto simp: those_map_Some)
qed simp

lemma newTree_start:
  assumes ok: "build_ok pcfg b"
  shows "\<exists>t. newTree (fixt_fuel pcfg) pcfg b (pStartFixtureName pcfg) = Some t"
proof -
  have rl: "rooted_list pcfg (bAdded b)" using ok by (simp add: build_ok_def)
  from rooted_rank [OF rl] obtain r where r: "r (pStartFixtureName pcfg) = (0::nat)"
    "\<forall>x\<in>set (bAdded b). r (parent_of pcfg x) < r x \<and> r x \<le> length (bAdded b)" by blast
  have "newTree (fixt_fuel pcfg) pcfg b (pStartFixtureName pcfg) \<noteq> None"
    using newTree_total [OF ok r(2), of "pStartFixtureName pcfg" "fixt_fuel pcfg"] rooted_length [OF rl]
    by (simp add: in_graph_def fixt_fuel_def)
  then show ?thesis by blast
qed


definition graph_edges :: "('w, 'h) Config \<Rightarrow> ('w, 'h) build \<Rightarrow> (string \<times> string) set" where
  "graph_edges pcfg b = {(parent_of pcfg x, x) | x. x \<in> set (bAdded b)}"

definition below :: "('w, 'h) Config \<Rightarrow> ('w, 'h) build \<Rightarrow> string \<Rightarrow> string set" where
  "below pcfg b name = {m. (name, m) \<in> (graph_edges pcfg b)\<^sup>*}"

lemma graph_rank:
  assumes "\<forall>x\<in>set (bAdded b). r (parent_of pcfg x) < (r x :: nat)"
  shows "(x, y) \<in> (graph_edges pcfg b)\<^sup>* \<Longrightarrow> r x \<le> r y"
proof (induction rule: rtrancl_induct)
  case (step y z)
  then show ?case using assms by (fastforce simp: graph_edges_def)
qed simp

lemma below_unfold:
  assumes ok: "build_ok pcfg b"
  shows "below pcfg b name = insert name (\<Union>c\<in>set (children_of b name). below pcfg b c)"
proof -
  have e: "(name, c) \<in> graph_edges pcfg b \<longleftrightarrow> c \<in> set (children_of b name)" for c
    using children_of_ok [OF ok] by (auto simp: graph_edges_def)
  have "m \<in> below pcfg b name \<longleftrightarrow> m = name \<or> (\<exists>c\<in>set (children_of b name). m \<in> below pcfg b c)" for m
  proof
    assume "m \<in> below pcfg b name"
    then have "(name, m) \<in> (graph_edges pcfg b)\<^sup>*" by (simp add: below_def)
    then show "m = name \<or> (\<exists>c\<in>set (children_of b name). m \<in> below pcfg b c)"
      by (cases rule: converse_rtranclE) (auto simp: below_def e)
  next
    assume "m = name \<or> (\<exists>c\<in>set (children_of b name). m \<in> below pcfg b c)"
    then show "m \<in> below pcfg b name"
      by (auto simp: below_def e [symmetric] intro: converse_rtrancl_into_rtrancl)
  qed
  then show ?thesis by blast
qed

lemma graph_chain:
  assumes "(x, m) \<in> (graph_edges pcfg b)\<^sup>*" "(y, m) \<in> (graph_edges pcfg b)\<^sup>*"
  shows "(x, y) \<in> (graph_edges pcfg b)\<^sup>* \<or> (y, x) \<in> (graph_edges pcfg b)\<^sup>*"
  using assms
proof (induction rule: rtrancl_induct)
  case (step k m)
  show ?case
  proof (cases "y = m")
    case True
    then show ?thesis using step.hyps by (auto intro: rtrancl_into_rtrancl)
  next
    case False
    with step.prems obtain k' where "(y, k') \<in> (graph_edges pcfg b)\<^sup>*" "(k', m) \<in> graph_edges pcfg b"
      by (meson rtranclE)
    moreover have "k' = k" using step.hyps(2) calculation(2) by (auto simp: graph_edges_def)
    ultimately show ?thesis using step.IH by blast
  qed
qed simp

text \<open>The subtrees of siblings are disjoint, and do not contain their parent.\<close>

lemma below_disjoint:
  assumes ok: "build_ok pcfg b" and c: "c \<in> set (children_of b name)"
  shows "name \<notin> below pcfg b c" "finite (below pcfg b c)"
    and "d \<in> set (children_of b name) \<Longrightarrow> c \<noteq> d \<Longrightarrow> below pcfg b c \<inter> below pcfg b d = {}"
proof -
  have rl: "rooted_list pcfg (bAdded b)" using ok by (simp add: build_ok_def)
  from rooted_rank [OF rl] obtain r where
    r: "\<forall>x\<in>set (bAdded b). r (parent_of pcfg x) < (r x :: nat)" by blast
  have up: "r name < r c'" if "c' \<in> set (children_of b name)" for c'
    using r that children_of_ok [OF ok] by fastforce
  show "name \<notin> below pcfg b c" using graph_rank [OF r, of c name] up [OF c] by (auto simp: below_def)
  have "below pcfg b c \<subseteq> insert c (set (bAdded b))"
  proof
    fix m assume "m \<in> below pcfg b c"
    then have "(c, m) \<in> (graph_edges pcfg b)\<^sup>*" by (simp add: below_def)
    then show "m \<in> insert c (set (bAdded b))" by (cases rule: rtranclE) (auto simp: graph_edges_def)
  qed
  then show "finite (below pcfg b c)" by (rule finite_subset) simp
  assume d: "d \<in> set (children_of b name)" "c \<noteq> d"
  have no: "(x, y) \<notin> (graph_edges pcfg b)\<^sup>*"
    if xy: "x \<in> set (children_of b name)" "y \<in> set (children_of b name)" "x \<noteq> y" for x y
  proof
    assume "(x, y) \<in> (graph_edges pcfg b)\<^sup>*"
    with \<open>x \<noteq> y\<close> obtain k where "(x, k) \<in> (graph_edges pcfg b)\<^sup>*" "(k, y) \<in> graph_edges pcfg b"
      by (meson rtranclE)
    then have "(x, name) \<in> (graph_edges pcfg b)\<^sup>*"
      using xy(2) children_of_ok [OF ok] by (auto simp: graph_edges_def)
    then show False using graph_rank [OF r, of x name] up [OF xy(1)] by simp
  qed
  show "below pcfg b c \<inter> below pcfg b d = {}"
    using graph_chain [of c _ pcfg b d] no [OF c d] no [OF d(1) c] d(2) by (auto simp: below_def)
qed

fun tree_names :: "('w, 'h) fixtTree \<Rightarrow> string list" where
  "tree_names (FT f ts es cs) = map tName ts @ es @ concat (map tree_names cs)"

definition placed_at :: "('w, 'h) build \<Rightarrow> string \<Rightarrow> string multiset" where
  "placed_at b name = mset (map tName (mget (bTests b) name)) + mset (mget (bExternal b) name)"

lemma sum_list_distinct_set: "distinct xs \<Longrightarrow> (\<Sum>x\<leftarrow>xs. f x) = sum f (set xs)"
  by (simp add: sum_list_distinct_conv_sum_set)

lemma newTree_names:
  assumes ok: "build_ok pcfg b"
  shows "newTree n pcfg b name = Some t \<Longrightarrow> mset (tree_names t) = (\<Sum>m\<in>below pcfg b name. placed_at b m)"
proof (induction n arbitrary: name t)
  case (Suc n)
  let ?C = "children_of b name"
  from Suc.prems obtain f cs where cs: "those (map (newTree n pcfg b) ?C) = Some cs"
    and t: "t = FT f (tests_of b name) (externals_of b name) cs" by (auto split: option.splits if_splits)
  have IH: "mset (tree_names (the (newTree n pcfg b c))) = (\<Sum>m\<in>below pcfg b c. placed_at b m)" if "c \<in> set ?C" for c
    using Suc.IH [of c] those_SomeD [OF cs] that by fastforce
  have "mset (tree_names t) = placed_at b name + (\<Sum>c\<leftarrow>?C. mset (tree_names (the (newTree n pcfg b c))))"
    using those_SomeD [OF cs] by (simp add: t placed_at_def tests_of_def externals_of_def mset_concat_map o_def)
  also have "(\<Sum>c\<leftarrow>?C. mset (tree_names (the (newTree n pcfg b c)))) =
     (\<Sum>c\<in>set ?C. \<Sum>m\<in>below pcfg b c. placed_at b m)"
    using IH children_of_ok(2) [OF ok] by (simp add: sum_list_distinct_set cong: sum.cong)
  also have "\<dots> = (\<Sum>m\<in>(\<Union>c\<in>set ?C. below pcfg b c). placed_at b m)"
    using below_disjoint [OF ok] by (intro sum.UNION_disjoint [symmetric]) auto
  also have "placed_at b name + \<dots> = (\<Sum>m\<in>below pcfg b name. placed_at b m)"
    using below_disjoint [OF ok] below_unfold [OF ok, of name] by (simp add: sum.insert_if)
  finally show ?case .
qed simp


lemma rooted_below:
  "rooted_list pcfg xs \<Longrightarrow> set xs \<subseteq> set (bAdded b) \<Longrightarrow> x \<in> set xs \<Longrightarrow>
   x \<in> below pcfg b (pStartFixtureName pcfg)"
proof (induction xs arbitrary: x)
  case (Cons y ys)
  show ?case
  proof (cases "x \<in> set ys")
    case False
    then have x: "x = y" using Cons.prems by simp
    have "parent_of pcfg y \<in> below pcfg b (pStartFixtureName pcfg)"
      using Cons.prems Cons.IH [of "parent_of pcfg y"] by (auto simp: below_def)
    moreover have "(parent_of pcfg y, y) \<in> graph_edges pcfg b" using Cons.prems by (auto simp: graph_edges_def)
    ultimately show ?thesis using x by (auto simp: below_def intro: rtrancl_into_rtrancl)
  qed (use Cons in auto)
qed simp

lemma below_start:
  assumes "build_ok pcfg b" shows "below pcfg b (pStartFixtureName pcfg) = in_graph pcfg b"
proof
  show "below pcfg b (pStartFixtureName pcfg) \<subseteq> in_graph pcfg b"
  proof
    fix m assume "m \<in> below pcfg b (pStartFixtureName pcfg)"
    then have "(pStartFixtureName pcfg, m) \<in> (graph_edges pcfg b)\<^sup>*" by (simp add: below_def)
    then show "m \<in> in_graph pcfg b" by (cases rule: rtranclE) (auto simp: graph_edges_def in_graph_def)
  qed
  show "in_graph pcfg b \<subseteq> below pcfg b (pStartFixtureName pcfg)"
    using rooted_below [of pcfg "bAdded b" b] assms by (auto simp: in_graph_def build_ok_def below_def)
qed

subsection \<open>Every test has one place in the plan\<close>

abbreviation re_name :: "ResolvedEntity \<Rightarrow> string" where
  "re_name t \<equiv> EName (rEntity t)"

definition orphan_names :: "orphanTest list \<Rightarrow> string list" where
  "orphan_names os = map (\<lambda>o'. re_name (oTest o')) os"

text \<open>The registry of tests is keyed by the names of the tests.\<close>

definition names_ok :: "('w, 'h) Config \<Rightarrow> bool" where
  "names_ok pcfg = (\<forall>(n, t) \<in> set (pTests pcfg). tName t = n)"

lemma names_okD: "names_ok pcfg \<Longrightarrow> map_of (pTests pcfg) n = Some t \<Longrightarrow> tName t = n"
  by (auto simp: names_ok_def dest: map_of_SomeD)

text \<open>A test that is local and registered, or external and not lost.\<close>

definition placeable :: "('w, 'h) Config \<Rightarrow> ResolvedEntity \<Rightarrow> bool" where
  "placeable pcfg t = (if rHops t = 0 then map_of (pTests pcfg) (re_name t) \<noteq> None
     else pStartFixtureName pcfg = [] \<or> rSkip t = [])"

definition build_inv :: "('w, 'h) Config \<Rightarrow> string multiset \<Rightarrow> ('w, 'h) build \<Rightarrow> bool" where
  "build_inv pcfg N b = (build_ok pcfg b \<and> (\<forall>m. m \<notin> in_graph pcfg b \<longrightarrow> placed_at b m = {#}) \<and>
     (\<Sum>m\<in>in_graph pcfg b. placed_at b m) + mset (orphan_names (bOrphans b)) = N)"

lemma build_inv_0: "build_inv pcfg {#} build0"
  using build_ok_0 [of pcfg] by (simp add: build_inv_def placed_at_def build0_def orphan_names_def)

lemma in_graph_finite [simp]: "finite (in_graph pcfg b)"
  by (simp add: in_graph_def)

lemma build_inv_traverse:
  assumes "acyclic (parent_edges pcfg)" and "traverse n pcfg fx b = Some ((rooted, missing), b')" and "build_inv pcfg N b"
  shows "build_inv pcfg N b'" "rooted \<longleftrightarrow> fx \<in> in_graph pcfg b'"
proof -
  have ok: "build_ok pcfg b" and e: "\<forall>m. m \<notin> in_graph pcfg b \<longrightarrow> placed_at b m = {#}"
    using assms(3) by (auto simp: build_inv_def)
  note t = traverse_ok [OF assms(1,2) ok]
  then have p: "placed_at b' = placed_at b" by (auto simp: placed_at_def)
  have "(\<Sum>m\<in>in_graph pcfg b'. placed_at b m) = (\<Sum>m\<in>in_graph pcfg b. placed_at b m)"
    using t e by (intro sum.mono_neutral_right) auto
  then show "build_inv pcfg N b'" using t e assms(3) p by (auto simp: build_inv_def)
  show "rooted \<longleftrightarrow> fx \<in> in_graph pcfg b'" using t by blast
qed

lemma sum_point_mset:
  assumes "finite A" "a \<in> A" and "\<And>m. g m = (if m = a then h m + {#x#} else (h m :: 'x multiset))"
  shows "sum g A = add_mset x (sum h A)"
proof -
  have "sum g A = g a + sum g (A - {a})" using assms by (simp add: sum.remove)
  also have "sum g (A - {a}) = sum h (A - {a})" by (rule sum.cong) (auto simp: assms(3))
  finally show ?thesis using assms by (simp add: sum.remove)
qed

lemma build_inv_place:
  assumes inv: "build_inv pcfg N b" and pl: "placeable pcfg t" and nm: "names_ok pcfg"
    and r: "fst rm \<longleftrightarrow> fixtTreeParent t \<in> in_graph pcfg b"
  shows "build_inv pcfg (add_mset (re_name t) N) (place_test pcfg t rm b)"
proof -
  let ?b = "place_test pcfg t rm b"
  let ?k = "if rHops t = 0 \<or> rSkip t = [] then fixtTreeParent t else []"
  have same: "in_graph pcfg ?b = in_graph pcfg b" "build_ok pcfg ?b" using inv by (auto simp: place_test_ok build_inv_def)
  show ?thesis
  proof (cases "fst rm")
    case False
    then have "placed_at ?b = placed_at b" "bOrphans ?b = bOrphans b @ [\<lparr>oTest = t, missingFixtName = snd rm\<rparr>]"
      by (auto simp: place_test_def Let_def placed_at_def)
    then show ?thesis using inv same by (auto simp: build_inv_def orphan_names_def)
  next
    case True
    have k: "?k \<in> in_graph pcfg b"
      using True r pl by (auto simp: placeable_def in_graph_def split: if_splits)
    have p: "placed_at ?b m = (if m = ?k then placed_at b m + {#re_name t#} else placed_at b m)" for m
    proof (cases "rHops t = 0")
      case True
      with pl obtain ti where "map_of (pTests pcfg) (re_name t) = Some ti" by (auto simp: placeable_def)
      then show ?thesis using True \<open>fst rm\<close> names_okD [OF nm, of "re_name t" ti]
        by (simp add: place_test_def Let_def placed_at_def mget_mappend)
    qed (use True in \<open>simp add: place_test_def Let_def placed_at_def mget_mappend\<close>)
    have "bOrphans ?b = bOrphans b" using True by (simp add: place_test_def Let_def)
    moreover have "(\<Sum>m\<in>in_graph pcfg b. placed_at ?b m) = add_mset (re_name t) (\<Sum>m\<in>in_graph pcfg b. placed_at b m)"
      by (rule sum_point_mset [OF _ k p]) simp
    moreover have "\<forall>m. m \<notin> in_graph pcfg b \<longrightarrow> placed_at ?b m = {#}"
      using inv p k by (auto simp: build_inv_def)
    ultimately show ?thesis using inv same by (simp add: build_inv_def)
  qed
qed

lemma build_tests_inv:
  assumes ac: "acyclic (parent_edges pcfg)" and nm: "names_ok pcfg"
  shows "build_tests pcfg ts b = Some b' \<Longrightarrow> \<forall>t\<in>set ts. placeable pcfg t \<Longrightarrow> build_inv pcfg N b \<Longrightarrow>
    build_inv pcfg (N + mset (map re_name ts)) b'"
proof (induction ts arbitrary: b N)
  case (Cons t ts)
  then obtain rm b1 where t: "traverse (fixt_fuel pcfg) pcfg (fixtTreeParent t) b = Some (rm, b1)"
    and r: "build_tests pcfg ts (place_test pcfg t rm b1) = Some b'" by (auto split: option.splits)
  obtain rooted missing where rm: "rm = (rooted, missing)" by (cases rm)
  note tr = build_inv_traverse [OF ac t [unfolded rm] Cons.prems(3)]
  have "build_inv pcfg (add_mset (re_name t) N) (place_test pcfg t rm b1)"
    using build_inv_place [OF tr(1) _ nm, of t rm] tr(2) Cons.prems(2) rm by simp
  from Cons.IH [OF r _ this] Cons.prems(2) show ?case by simp
qed simp

lemma mset_orphan_insert: "mset (orphan_insert x os) = add_mset x (mset os)"
  by (induction os) auto

lemma mset_sort_orphans: "mset (sort_orphans os) = mset os"
  unfolding sort_orphans_def by (induction os) (simp_all add: mset_orphan_insert)

lemma buildFixtPlan_conserves:
  assumes "acyclic (parent_edges pcfg)" "names_ok pcfg" "\<forall>t\<in>set ts. placeable pcfg t"
    and "buildFixtPlan ts pcfg = Some fp"
  shows "mset (map re_name ts) = mset (orphan_names (fpOrphans fp)) + mset (tree_names (fpTree fp))"
proof -
  from assms(4) obtain b tree where b: "build_tests pcfg ts build0 = Some b"
    and t: "newTree (fixt_fuel pcfg) pcfg b (pStartFixtureName pcfg) = Some tree"
    and fp: "fp = \<lparr>fpTree = tree, fpOrphans = sort_orphans (bOrphans b)\<rparr>"
    by (auto simp: buildFixtPlan_def split: option.splits)
  have inv: "build_inv pcfg (mset (map re_name ts)) b"
    using build_tests_inv [OF assms(1,2) b assms(3) build_inv_0] by simp
  then have "mset (tree_names tree) = (\<Sum>m\<in>in_graph pcfg b. placed_at b m)"
    using newTree_names [OF _ t] below_start [of pcfg b] by (simp add: build_inv_def)
  then show ?thesis using inv by (auto simp: build_inv_def fp orphan_names_def mset_sort_orphans add.commute)
qed


subsection \<open>Dispatching tests\<close>

definition pre_tests_all :: "(string \<times> ('w, 'h) TestInstance list) list \<Rightarrow> ('w, 'h) TestInstance list" where
  "pre_tests_all m = concat (map snd m)"

lemma mset_pre_tests_mappend: "mset (pre_tests_all (mappend m k v)) = add_mset v (mset (pre_tests_all m))"
  by (induction m k v rule: mappend.induct) (auto simp: pre_tests_all_def)

lemma concat_mget:
  assumes "distinct (map fst m)"
  shows "mset (concat (map (mget m) (sort (map fst m)))) = mset (pre_tests_all m)"
proof -
  have "map (mget m) (map fst m) = map snd m" using assms by (auto simp: mget_nonempty)
  then show ?thesis using mset_concat_perm [of "sort (map fst m)" "map fst m" "mget m"]
    by (simp add: pre_tests_all_def del: map_map map_eq_conv)
qed

definition pre_groups_ok :: "(string \<times> ('w, 'h) TestInstance list) list \<Rightarrow> bool" where
  "pre_groups_ok m = (distinct (map fst m) \<and>
     (\<forall>(k, ts) \<in> set m. ts \<noteq> [] \<and> (\<forall>t\<in>set ts. \<exists>p. tPre t = Some p \<and> pcString p = k)))"

lemma set_mappendD: "(k', ts) \<in> set (mappend m k v) \<Longrightarrow> (k', ts) \<in> set m \<or> k' = k \<and> (ts = [v] \<or> (\<exists>us. (k, us) \<in> set m \<and> ts = us @ [v]))"
  by (induction m k v rule: mappend.induct) (auto split: if_splits)

lemma pre_groups_mappend:
  assumes "pre_groups_ok m" and "tPre t = Some p"
  shows "pre_groups_ok (mappend m (pcString p) t)"
proof -
  have "ts \<noteq> [] \<and> (\<forall>u\<in>set ts. \<exists>q. tPre u = Some q \<and> pcString q = k)"
    if "(k, ts) \<in> set (mappend m (pcString p) t)" for k ts
    using set_mappendD [OF that] assms by (fastforce simp: pre_groups_ok_def)
  then show ?thesis using assms(1) distinct_mappend [of m] by (auto simp: pre_groups_ok_def)
qed

abbreviation checked :: "('w, 'h) Config \<Rightarrow> ('w, 'h) TestInstance \<Rightarrow> string list res" where
  "checked pcfg t \<equiv> Check (pRegexp pcfg) (test_Deps t) (pFeatures pcfg)"

definition skip_ok :: "('w, 'h) Config \<Rightarrow> ('w, 'h) skippedTest \<Rightarrow> bool" where
  "skip_ok pcfg s = (case checked pcfg (skTest s) of
      Inl e \<Rightarrow> skErr s = Some e \<and> skReasons s = []
    | Inr rs \<Rightarrow> rs \<noteq> [] \<and> skErr s = None \<and> skReasons s = rs)"

definition dispatch_ok :: "('w, 'h) Config \<Rightarrow> ResolvedEntity set \<Rightarrow> string multiset \<Rightarrow> ('w, 'h) dispatch \<Rightarrow> bool" where
  "dispatch_ok pcfg R N d =
     (mset (map re_name (dpFixture d)) + mset (map tName (pre_tests_all (dpPre d))) +
        mset (map (\<lambda>s. tName (skTest s)) (dpSkips d)) = N \<and>
      pre_groups_ok (dpPre d) \<and> (\<forall>s\<in>set (dpSkips d). skip_ok pcfg s) \<and>
      (\<forall>t\<in>set (pre_tests_all (dpPre d)). checked pcfg t = Inr []) \<and>
      set (dpFixture d) \<subseteq> R \<and>
      (\<forall>t\<in>set (dpFixture d). rHops t \<le> 0 \<longrightarrow>
         (\<exists>ti. map_of (pTests pcfg) (re_name t) = Some ti \<and> checked pcfg ti = Inr [] \<and> tPre ti = None)))"

lemma dispatch_ok_0: "dispatch_ok pcfg R {#} dispatch0"
  by (simp add: dispatch_ok_def dispatch0_def pre_tests_all_def pre_groups_ok_def)

lemma dispatch_ok_fixture:
  assumes "dispatch_ok pcfg R N d" "t \<in> R"
    and "rHops t \<le> 0 \<Longrightarrow> \<exists>ti. map_of (pTests pcfg) (re_name t) = Some ti \<and> checked pcfg ti = Inr [] \<and> tPre ti = None"
  shows "dispatch_ok pcfg R (add_mset (re_name t) N) (d\<lparr>dpFixture := dpFixture d @ [t]\<rparr>)"
  using assms by (auto simp: dispatch_ok_def)

lemma dispatch_ok_skip:
  assumes "dispatch_ok pcfg R N d" "skip_ok pcfg s"
  shows "dispatch_ok pcfg R (add_mset (tName (skTest s)) N) (d\<lparr>dpSkips := dpSkips d @ [s]\<rparr>)"
  using assms by (auto simp: dispatch_ok_def)

lemma dispatch_ok_pre:
  assumes "dispatch_ok pcfg R N d" "tPre t = Some p" "checked pcfg t = Inr []"
  shows "dispatch_ok pcfg R (add_mset (tName t) N) (d\<lparr>dpPre := mappend (dpPre d) (pcString p) t\<rparr>)"
proof -
  have "set (pre_tests_all (mappend (dpPre d) (pcString p) t)) = insert t (set (pre_tests_all (dpPre d)))"
    by (metis mset_pre_tests_mappend set_mset_add_mset_insert set_mset_mset)
  then show ?thesis using assms pre_groups_mappend [of "dpPre d" t p]
    by (auto simp: dispatch_ok_def mset_pre_tests_mappend)
qed

lemma dispatch_tests_ok:
  assumes nm: "names_ok pcfg"
  shows "dispatch_tests pcfg ts d = Inr d' \<Longrightarrow> dispatch_ok pcfg R N d \<Longrightarrow> set ts \<subseteq> R \<Longrightarrow>
    dispatch_ok pcfg R (N + mset (map re_name ts)) d'"
proof (induction ts arbitrary: d N)
  case (Cons t ts)
  have step: "dispatch_ok pcfg R (N + mset (map re_name (t # ts))) d'"
    if "dispatch_tests pcfg ts d1 = Inr d'" "dispatch_ok pcfg R (add_mset (re_name t) N) d1" for d1
    using Cons.IH [OF that] Cons.prems(3) by simp
  show ?case
  proof (cases "rHops t > 0")
    case True
    then show ?thesis using step Cons.prems dispatch_ok_fixture [OF Cons.prems(2), of t] by auto
  next
    case False
    with Cons.prems(1) obtain ti where ti: "map_of (pTests pcfg) (re_name t) = Some ti"
      by (auto split: option.splits)
    have n: "tName ti = re_name t" using names_okD [OF nm ti] .
    show ?thesis
    proof (cases "checked pcfg ti")
      case (Inl e)
      then show ?thesis using step Cons.prems False ti n
          dispatch_ok_skip [OF Cons.prems(2), of "\<lparr>skTest = ti, skReasons = [], skErr = Some e\<rparr>"]
        by (simp add: skip_ok_def)
    next
      case rs: (Inr rs)
      consider (skip) "rs \<noteq> []" | (pre) p where "rs = []" "tPre ti = Some p" | (fixt) "rs = []" "tPre ti = None"
        by fastforce
      then show ?thesis
      proof cases
        case skip
        then show ?thesis using step Cons.prems False ti n rs
            dispatch_ok_skip [OF Cons.prems(2), of "\<lparr>skTest = ti, skReasons = rs, skErr = None\<rparr>"]
          by (simp add: skip_ok_def)
      next
        case pre
        then show ?thesis using step Cons.prems False ti n rs dispatch_ok_pre [OF Cons.prems(2) pre(2)] by simp
      next
        case fixt
        then show ?thesis using step Cons.prems False ti rs dispatch_ok_fixture [OF Cons.prems(2), of t] by simp
      qed
    qed
  qed
qed simp

lemma dispatch_tests_total:
  "\<forall>t\<in>set ts. rHops t > 0 \<or> map_of (pTests pcfg) (re_name t) \<noteq> None \<Longrightarrow> \<exists>d'. dispatch_tests pcfg ts d = Inr d'"
  by (induction ts arbitrary: d) (auto split: sum.split option.split)

lemma buildPlan_Some:
  assumes "names_ok pcfg" and "buildPlan tests pcfg = Some (Inr p)"
  obtains d fp where "dispatch_ok pcfg (set tests) (mset (map re_name tests)) d"
    and "buildFixtPlan (dpFixture d) pcfg = Some fp"
    and "p = \<lparr>plSkips = sort_by (\<lambda>s. tName (skTest s)) (dpSkips d), plFixtPlan = fp,
           plPrePlans = map (\<lambda>n. buildPrePlan (mget (dpPre d) n)) (sort (map fst (dpPre d)))\<rparr>"
  using assms(2) dispatch_tests_ok [OF assms(1), of tests dispatch0 _ "set tests" "{#}"] dispatch_ok_0
  by (auto simp: buildPlan_def split: sum.splits option.splits)


subsection \<open>Where tests are placed\<close>

fun tree_tests :: "('w, 'h) fixtTree \<Rightarrow> ('w, 'h) TestInstance list" where
  "tree_tests (FT f ts es cs) = ts @ concat (map tree_tests cs)"

text \<open>A tree for the fixture called \<open>name\<close>, whose local tests satisfy \<open>P name\<close>.\<close>

fun placed_tree :: "('w, 'h) Config \<Rightarrow> (string \<Rightarrow> ('w, 'h) TestInstance \<Rightarrow> bool) \<Rightarrow> string \<Rightarrow> ('w, 'h) fixtTree \<Rightarrow> bool" where
  "placed_tree pcfg P name (FT f ts es cs) =
     ((if name = pStartFixtureName pcfg then f = rootFixture pcfg else map_of (pFixtures pcfg) name = Some f) \<and>
      (\<forall>t\<in>set ts. P name t) \<and>
      (\<forall>c\<in>set cs. \<exists>n. n \<noteq> pStartFixtureName pcfg \<and> parent_of pcfg n = name \<and> placed_tree pcfg P n c))"

lemma placed_tree_tests: "placed_tree pcfg P name t \<Longrightarrow> \<forall>x\<in>set (tree_tests t). \<exists>n. P n x"
  by (induction pcfg P name t rule: placed_tree.induct) fastforce

definition tests_ok :: "('w, 'h) build \<Rightarrow> (string \<Rightarrow> ('w, 'h) TestInstance \<Rightarrow> bool) \<Rightarrow> bool" where
  "tests_ok b P = (\<forall>n. \<forall>t\<in>set (mget (bTests b) n). P n t)"

lemma build_tests_placed:
  assumes ac: "acyclic (parent_edges pcfg)"
  shows "build_tests pcfg ts b = Some b' \<Longrightarrow> build_ok pcfg b \<Longrightarrow> tests_ok b P \<Longrightarrow>
    (\<And>t ti. t \<in> set ts \<Longrightarrow> rHops t = 0 \<Longrightarrow> map_of (pTests pcfg) (re_name t) = Some ti \<Longrightarrow> P (fixtTreeParent t) ti) \<Longrightarrow>
    build_ok pcfg b' \<and> tests_ok b' P"
proof (induction ts arbitrary: b)
  case (Cons t ts)
  from Cons.prems(1) obtain rooted missing b1
    where t: "traverse (fixt_fuel pcfg) pcfg (fixtTreeParent t) b = Some ((rooted, missing), b1)"
      and r: "build_tests pcfg ts (place_test pcfg t (rooted, missing) b1) = Some b'"
    by (auto split: option.splits)
  have b1: "build_ok pcfg b1" "bTests b1 = bTests b" using traverse_ok [OF ac t Cons.prems(2)] by auto
  have "tests_ok (place_test pcfg t (rooted, missing) b1) P"
    using Cons.prems(3) Cons.prems(4) [of t] b1
    by (auto simp: tests_ok_def place_test_def Let_def mget_mappend split: option.splits if_splits)
  then show ?case using Cons.IH [OF r] b1 Cons.prems(4) by (simp add: place_test_ok)
qed simp

lemma newTree_placed:
  assumes ok: "build_ok pcfg b" and P: "tests_ok b P"
  shows "newTree n pcfg b name = Some t \<Longrightarrow> placed_tree pcfg P name t"
proof (induction n arbitrary: name t)
  case (Suc n)
  let ?C = "children_of b name"
  from Suc.prems obtain f cs where cs: "those (map (newTree n pcfg b) ?C) = Some cs"
    and t: "t = FT f (tests_of b name) (externals_of b name) cs"
    and f: "if name = pStartFixtureName pcfg then f = rootFixture pcfg else map_of (pFixtures pcfg) name = Some f"
    by (auto split: option.splits if_splits)
  have "\<forall>c\<in>set cs. \<exists>n. n \<noteq> pStartFixtureName pcfg \<and> parent_of pcfg n = name \<and> placed_tree pcfg P n c"
  proof
    fix c assume "c \<in> set cs"
    then obtain m where m: "m \<in> set ?C" "newTree n pcfg b m = Some c" using those_SomeD [OF cs] by auto
    have "m \<noteq> pStartFixtureName pcfg" if "rooted_list pcfg xs" "m \<in> set xs" for xs
      using that by (induction xs) auto
    then show "\<exists>n. n \<noteq> pStartFixtureName pcfg \<and> parent_of pcfg n = name \<and> placed_tree pcfg P n c"
      using m children_of_ok [OF ok] Suc.IH [OF m(2)] ok by (auto simp: build_ok_def)
  qed
  then show ?case using f P by (simp add: t tests_of_def tests_ok_def)
qed simp

lemma buildFixtPlan_placed:
  assumes ac: "acyclic (parent_edges pcfg)" and fp: "buildFixtPlan ts pcfg = Some fp"
    and P: "\<And>t ti. t \<in> set ts \<Longrightarrow> rHops t = 0 \<Longrightarrow> map_of (pTests pcfg) (re_name t) = Some ti \<Longrightarrow> P (EFixture (rEntity t)) ti"
  shows "placed_tree pcfg P (pStartFixtureName pcfg) (fpTree fp)"
proof -
  from fp obtain b where b: "build_tests pcfg ts build0 = Some b"
    and t: "newTree (fixt_fuel pcfg) pcfg b (pStartFixtureName pcfg) = Some (fpTree fp)"
    by (auto simp: buildFixtPlan_def split: option.splits)
  have "build_ok pcfg b \<and> tests_ok b P"
    using build_tests_placed [OF ac b build_ok_0, of P] P by (simp add: tests_ok_def build0_def fixtTreeParent_def)
  then show ?thesis using newTree_placed [OF _ _ t] by blast
qed

lemma buildFixtPlan_total:
  assumes "acyclic (parent_edges pcfg)"
  shows "\<exists>fp. buildFixtPlan ts pcfg = Some fp"
proof -
  obtain b where b: "build_tests pcfg ts build0 = Some b" using build_tests_total [OF assms] by blast
  then have "build_ok pcfg b"
    using build_tests_placed [OF assms b build_ok_0, of "\<lambda>_ _. True"] by (simp add: tests_ok_def)
  then show ?thesis using newTree_start [of pcfg b] b by (auto simp: buildFixtPlan_def)
qed

lemma plan_names:
  assumes "acyclic (parent_edges pcfg)" "names_ok pcfg" "buildPlan tests pcfg = Some (Inr p)"
    and ext: "\<forall>t\<in>set tests. rHops t = 0 \<or> rHops t > 0 \<and> (pStartFixtureName pcfg = [] \<or> rSkip t = [])"
  shows "mset (map re_name tests) =
    mset (map (\<lambda>s. tName (skTest s)) (plSkips p)) + mset (concat (map (\<lambda>pp. map tName (ppTests pp)) (plPrePlans p))) +
    mset (orphan_names (fpOrphans (plFixtPlan p))) + mset (tree_names (fpTree (plFixtPlan p)))"
proof -
  from buildPlan_Some [OF assms(2,3)] obtain d fp
    where d: "dispatch_ok pcfg (set tests) (mset (map re_name tests)) d"
      and fp: "buildFixtPlan (dpFixture d) pcfg = Some fp"
      and p: "p = \<lparr>plSkips = sort_by (\<lambda>s. tName (skTest s)) (dpSkips d), plFixtPlan = fp,
           plPrePlans = map (\<lambda>n. buildPrePlan (mget (dpPre d) n)) (sort (map fst (dpPre d)))\<rparr>" .
  have "\<forall>t\<in>set (dpFixture d). placeable pcfg t"
    using d ext by (fastforce simp: dispatch_ok_def placeable_def)
  from buildFixtPlan_conserves [OF assms(1,2) this fp]
  have f: "mset (map re_name (dpFixture d)) = mset (orphan_names (fpOrphans fp)) + mset (tree_names (fpTree fp))" .
  have "mset (concat (map (\<lambda>n. map tName (ppTests (buildPrePlan (mget (dpPre d) n)))) ns)) =
     image_mset tName (mset (concat (map (mget (dpPre d)) ns)))" for ns
    by (induction ns) (simp_all add: buildPrePlan_def Let_def)
  then have "mset (concat (map (\<lambda>pp. map tName (ppTests pp)) (plPrePlans p))) = mset (map tName (pre_tests_all (dpPre d)))"
    using concat_mget [of "dpPre d"] d by (simp add: p o_def dispatch_ok_def pre_groups_ok_def)
  moreover have "mset (map re_name (dpFixture d)) + mset (map tName (pre_tests_all (dpPre d))) +
      mset (map (\<lambda>s. tName (skTest s)) (dpSkips d)) = mset (map re_name tests)"
    using d by (simp add: dispatch_ok_def)
  ultimately show ?thesis unfolding f by (simp add: p ac_simps)
qed

lemma plan_placement:
  assumes "acyclic (parent_edges pcfg)" "names_ok pcfg" "buildPlan tests pcfg = Some (Inr p)"
  shows "(\<forall>s\<in>set (plSkips p). skip_ok pcfg s) \<and>
    placed_tree pcfg
      (\<lambda>n ti. checked pcfg ti = Inr [] \<and> tPre ti = None \<and> (\<exists>t\<in>set tests. re_name t = tName ti \<and> EFixture (rEntity t) = n))
      (pStartFixtureName pcfg) (fpTree (plFixtPlan p)) \<and>
    (\<forall>pp\<in>set (plPrePlans p). ppTests pp \<noteq> [] \<and> ppPre pp = tPre (hd (ppTests pp)) \<and>
      (\<exists>k. \<forall>ti\<in>set (ppTests pp). checked pcfg ti = Inr [] \<and> map_option pcString (tPre ti) = Some k))"
proof -
  from buildPlan_Some [OF assms(2,3)] obtain d fp
    where d: "dispatch_ok pcfg (set tests) (mset (map re_name tests)) d"
      and fp: "buildFixtPlan (dpFixture d) pcfg = Some fp"
      and p: "p = \<lparr>plSkips = sort_by (\<lambda>s. tName (skTest s)) (dpSkips d), plFixtPlan = fp,
           plPrePlans = map (\<lambda>n. buildPrePlan (mget (dpPre d) n)) (sort (map fst (dpPre d)))\<rparr>" .
  have "placed_tree pcfg
      (\<lambda>n ti. checked pcfg ti = Inr [] \<and> tPre ti = None \<and> (\<exists>t\<in>set tests. re_name t = tName ti \<and> EFixture (rEntity t) = n))
      (pStartFixtureName pcfg) (fpTree fp)"
  proof (rule buildFixtPlan_placed [OF assms(1) fp])
    fix t ti assume t: "t \<in> set (dpFixture d)" "rHops t = 0" "map_of (pTests pcfg) (re_name t) = Some ti"
    then have "checked pcfg ti = Inr [] \<and> tPre ti = None" "t \<in> set tests" using d by (auto simp: dispatch_ok_def)
    then show "checked pcfg ti = Inr [] \<and> tPre ti = None \<and>
      (\<exists>u\<in>set tests. re_name u = tName ti \<and> EFixture (rEntity u) = EFixture (rEntity t))"
      using names_okD [OF assms(2) t(3)] by auto
  qed
  moreover have "ppTests pp \<noteq> [] \<and> ppPre pp = tPre (hd (ppTests pp)) \<and>
      (\<exists>k. \<forall>ti\<in>set (ppTests pp). checked pcfg ti = Inr [] \<and> map_option pcString (tPre ti) = Some k)"
    if "pp \<in> set (plPrePlans p)" for pp
  proof -
    from that obtain k ts where k: "(k, ts) \<in> set (dpPre d)" "pp = buildPrePlan ts"
      using d by (auto simp: p dispatch_ok_def pre_groups_ok_def mget_nonempty)
    have ts: "ts \<noteq> []" "\<forall>t\<in>set ts. map_option pcString (tPre t) = Some k"
      using d k(1) by (fastforce simp: dispatch_ok_def pre_groups_ok_def)+
    have "\<forall>t\<in>set ts. checked pcfg t = Inr []" using d k(1) by (force simp: dispatch_ok_def pre_tests_all_def)
    moreover have "set (ppTests pp) = set ts" "ppPre pp = (case ppTests pp of [] \<Rightarrow> None | t # _ \<Rightarrow> tPre t)"
      by (simp_all add: k(2) buildPrePlan_def Let_def)
    ultimately show ?thesis using ts by (auto simp: neq_Nil_conv split: list.splits)
  qed
  moreover have "\<forall>s\<in>set (plSkips p). skip_ok pcfg s" using d by (simp add: p dispatch_ok_def)
  moreover have "plFixtPlan p = fp" by (simp add: p)
  ultimately show ?thesis by simp
qed


subsection \<open>Properties of plans\<close>

text \<open>Planning terminates when no chain of parents in the fixture registry is cyclic.\<close>

theorem buildPlan_total:
  assumes "acyclic (parent_edges pcfg)"
  shows "\<exists>r. buildPlan tests pcfg = Some r"
proof (cases "dispatch_tests pcfg tests dispatch0")
  case (Inr d)
  then show ?thesis using buildFixtPlan_total [OF assms, of "dpFixture d"] by (auto simp: buildPlan_def)
qed (simp add: buildPlan_def)

text \<open>C3: every requested test, counted with multiplicity, has exactly one place in the plan: it is skipped,
  it runs with a precondition, it is an orphan, or it is a local or external test of the fixture tree.  (An external
  test that is to be skipped needs the start fixture to be the unnamed one.)\<close>

theorem buildPlan_conserves:
  assumes "acyclic (parent_edges pcfg)" "names_ok pcfg" "buildPlan tests pcfg = Some (Inr p)"
    and ext: "\<forall>t\<in>set tests. rHops t = 0 \<or> rHops t > 0 \<and> (pStartFixtureName pcfg = [] \<or> rSkip t = [])"
  shows "mset (map re_name tests) =
    mset (map (\<lambda>s. tName (skTest s)) (plSkips p)) + mset (concat (map (\<lambda>pp. map tName (ppTests pp)) (plPrePlans p))) +
    mset (orphan_names (fpOrphans (plFixtPlan p))) + mset (tree_names (fpTree (plFixtPlan p)))"
  by (rule plan_names [OF assms])

text \<open>C4: only tests whose dependency check succeeds without reasons are planned to run; each skipped test carries the
  reasons or the error of its check.  Local tests of the fixture tree have no precondition, hang under the fixture they
  name, and every fixture hangs under its parent; the tests of a precondition plan all name the same precondition, which is the one the plan
  holds for them.\<close>

theorem buildPlan_placement:
  assumes "acyclic (parent_edges pcfg)" "names_ok pcfg" "buildPlan tests pcfg = Some (Inr p)"
  shows "(\<forall>s\<in>set (plSkips p). skip_ok pcfg s) \<and>
    placed_tree pcfg
      (\<lambda>n ti. checked pcfg ti = Inr [] \<and> tPre ti = None \<and> (\<exists>t\<in>set tests. re_name t = tName ti \<and> EFixture (rEntity t) = n))
      (pStartFixtureName pcfg) (fpTree (plFixtPlan p)) \<and>
    (\<forall>pp\<in>set (plPrePlans p). ppTests pp \<noteq> [] \<and> ppPre pp = tPre (hd (ppTests pp)) \<and>
      (\<exists>k. \<forall>ti\<in>set (ppTests pp). checked pcfg ti = Inr [] \<and> map_option pcString (tPre ti) = Some k))"
  by (rule plan_placement [OF assms])

lemma fixt_fuel_two:
  assumes "map_of (pFixtures pcfg) f = Some a" "map_of (pFixtures pcfg) g = Some b" "f \<noteq> g"
  shows "\<exists>k. fixt_fuel pcfg = Suc (Suc (Suc k))"
proof -
  have "{f, g} \<subseteq> fst ` set (pFixtures pcfg)" using assms by (force dest: map_of_SomeD)
  then have "card {f, g} \<le> card (fst ` set (pFixtures pcfg))" by (intro card_mono) auto
  also have "\<dots> \<le> length (pFixtures pcfg)" by (metis card_length card_image_le finite_set le_trans)
  finally have "2 \<le> length (pFixtures pcfg)" using assms(3) by simp
  then show ?thesis unfolding fixt_fuel_def by (metis add_2_eq_Suc le_Suc_ex)
qed


subsection \<open>Concrete instances\<close>

definition ex_test :: "string \<Rightarrow> string \<Rightarrow> unit Precondition option \<Rightarrow> string list \<Rightarrow> (unit, unit) TestInstance" where
  "ex_test name fx pre sw = \<lparr>tName = name, tPkg = ''p'', tFixture = fx, tData = [], tTimeout = second, tExitTimeout = 0,
     tVarDeps = [], tSoftwareDeps = [([], sw)], tHardwareDeps = [], tPre = pre,
     tFunc = (\<lambda>c v ps w. \<lparr>reports = [RLog ''ran''], finish = Some (0, UReturn ()), cancelled = None, uworld = w\<rparr>)\<rparr>"

definition ex_pre :: "unit Precondition" where
  "ex_pre = \<lparr>pcString = ''pre'', pcTimeout = second, pcPrepare = (\<lambda>c. returns (Some 7)), pcClose = (\<lambda>c. returns ())\<rparr>"

definition ex_downloader :: "unit downloader" where
  "ex_downloader = \<lparr>dlEnv = \<lparr>x_os = ex_os, x_decode = (\<lambda>s. Inl ''bad link''), x_sha256 = (\<lambda>s. s), x_fetch = (\<lambda>u w. (Inl ''none'', w))\<rparr>,
     dlMode = LAZY, beforeDownload = None\<rparr>"

definition ex_config :: "(unit, unit) TestInstance list \<Rightarrow> unit FixtureInstance list \<Rightarrow> (unit, unit) Config" where
  "ex_config tests fixts =
     \<lparr>pEnv = ex_env, pDataDir = ''/data'', pOutDir = ''/out'', pFeatures = ex_features, pRegexp = (\<lambda>p. Inr (\<lambda>s. False)),
      pDownloader = ex_downloader, pArtifactsURL = [], pClientErr = None, pTestHook = None, pDUT = None,
      pTests = map (\<lambda>t. (tName t, t)) tests, pFixtures = map (\<lambda>f. (fName f, f)) fixts,
      pStartFixtureName = [], pStartFixtureImpl = None, pCustomGracePeriod = None,
      pCaller = \<lparr>LFile = ''run.go'', LLine = 910\<rparr>, pGoroutines = (\<lambda>w. ([], None)), pConnCache = (\<lambda>w. (None, w)), pExternal = None\<rparr>"


definition ex_planner :: "(unit, unit) Config" where
  "ex_planner = ex_config
     [ex_test ''t1'' ''ab'' None [''chrome''], ex_test ''t2'' [] (Some ex_pre) [], ex_test ''t3'' [] None [''android''],
      ex_test ''t4'' ''x'' None []]
     [ex_fixture ''a'' [] [] None, ex_fixture ''ab'' ''a'' [] None]"

definition ex_resolved :: "string \<Rightarrow> string \<Rightarrow> int \<Rightarrow> string list \<Rightarrow> string \<Rightarrow> ResolvedEntity" where
  "ex_resolved name fx hops skip start =
     \<lparr>rEntity = \<lparr>EType = TEST, EName = name, EPackage = ''p'', EFixture = fx, EDataFiles = []\<rparr>, rHops = hops,
      rSkip = skip, rStartFixtureName = start\<rparr>"

definition ex_request :: "ResolvedEntity list" where
  "ex_request = [ex_resolved ''t4'' ''x'' 0 [] [], ex_resolved ''t3'' [] 0 [] [], ex_resolved ''t2'' [] 0 [] [],
     ex_resolved ''t1'' ''ab'' 0 [] [], ex_resolved ''e1'' [] 1 [] ''a'']"

lemma ex_planner_acyclic: "acyclic (parent_edges ex_planner)"
proof (rule acyclicI_order [where f = "\<lambda>x. - int (length x)"])
  fix x y assume "(x, y) \<in> parent_edges ex_planner"
  then show "- int (length y) < - int (length x)"
    by (auto simp: parent_edges_def ex_planner_def ex_config_def ex_fixture_def split: if_splits)
qed

lemma ex_planner_names: "names_ok ex_planner"
  by (simp add: names_ok_def ex_planner_def ex_config_def)

lemma ex_planner_plan: "\<exists>p. buildPlan ex_request ex_planner = Some (Inr p)"
proof -
  have "\<forall>t\<in>set ex_request. rHops t > 0 \<or> map_of (pTests ex_planner) (re_name t) \<noteq> None"
    by (simp add: ex_request_def ex_resolved_def ex_planner_def ex_config_def ex_test_def)
  then obtain d where "dispatch_tests ex_planner ex_request dispatch0 = Inr d" using dispatch_tests_total by blast
  then show ?thesis using buildFixtPlan_total [OF ex_planner_acyclic, of "dpFixture d"] by (auto simp: buildPlan_def)
qed

theorem buildPlan_total_witness: "\<exists>r. buildPlan ex_request ex_planner = Some r"
  by (rule buildPlan_total [OF ex_planner_acyclic])

theorem buildPlan_conserves_witness:
  "\<exists>p. buildPlan ex_request ex_planner = Some (Inr p) \<and> {#''t4'', ''t3'', ''t2'', ''t1'', ''e1''#} =
    mset (map (\<lambda>s. tName (skTest s)) (plSkips p)) + mset (concat (map (\<lambda>pp. map tName (ppTests pp)) (plPrePlans p))) +
    mset (orphan_names (fpOrphans (plFixtPlan p))) + mset (tree_names (fpTree (plFixtPlan p)))"
proof -
  obtain p where p: "buildPlan ex_request ex_planner = Some (Inr p)" using ex_planner_plan by blast
  have e: "\<forall>t\<in>set ex_request. rHops t = 0 \<or> rHops t > 0 \<and> (pStartFixtureName ex_planner = [] \<or> rSkip t = [])"
    by (simp add: ex_request_def ex_resolved_def)
  have n: "mset (map re_name ex_request) = {#''t4'', ''t3'', ''t2'', ''t1'', ''e1''#}"
    by (simp add: ex_request_def ex_resolved_def)
  show ?thesis using buildPlan_conserves [OF ex_planner_acyclic ex_planner_names p e, unfolded n] p by blast
qed

theorem buildPlan_placement_witness:
  "\<exists>p. buildPlan ex_request ex_planner = Some (Inr p) \<and>
    placed_tree ex_planner
      (\<lambda>n ti. checked ex_planner ti = Inr [] \<and> tPre ti = None \<and> (\<exists>t\<in>set ex_request. re_name t = tName ti \<and> EFixture (rEntity t) = n))
      [] (fpTree (plFixtPlan p))"
proof -
  obtain p where p: "buildPlan ex_request ex_planner = Some (Inr p)" using ex_planner_plan by blast
  have "pStartFixtureName ex_planner = []" by (simp add: ex_planner_def ex_config_def)
  note s = this
  show ?thesis
    using buildPlan_placement [OF ex_planner_acyclic ex_planner_names p, THEN conjunct2, THEN conjunct1, unfolded s] p
    by (intro exI [of _ p] conjI)
qed


end
