(* ===== verification/GoTime.thy ===== *)
theory GoTime
  imports Prelude
begin

text \<open>
  Time in the modelled code.  A \<open>time.Time\<close> is the number of nanoseconds since the Unix epoch, a
  \<open>time.Duration\<close> a number of nanoseconds; \<open>zero_time\<close> is Go's zero \<open>time.Time\<close> (the beginning of the
  year 1).  The formats are those of the Go standard library for the layouts the code uses.  The
  protocol buffer library is not part of the sources: its timestamps and durations are the messages
  themselves, and the library's functions on them are a parameter, \<open>pb\<close>, with \<open>pb_laws\<close> for what it
  documents about valid times.
\<close>

subsection \<open>Formatting\<close>

text \<open>\<open>strconv.Quote\<close> for printable characters.\<close>

definition Quote :: "string \<Rightarrow> string" where
  "Quote s = CHR 0x22 # concat (map (\<lambda>c. if c = CHR 0x22 \<or> c = CHR 0x5C then [CHR 0x5C, c] else [c]) s) @ [CHR 0x22]"

text \<open>\<open>time.Duration.String\<close>.\<close>

definition fmtFrac :: "nat \<Rightarrow> nat \<Rightarrow> string" where
  "fmtFrac u prec =
     (let ds = show_nat (u mod 10 ^ prec);
          padded = replicate (prec - length ds) (CHR ''0'') @ ds;
          digits = rev (dropWhile (\<lambda>c. c = CHR ''0'') (rev padded))
      in show_nat (u div 10 ^ prec) @ (if prec = 0 \<or> digits = [] then [] else CHR ''.'' # digits))"

definition Duration_String :: "int \<Rightarrow> string" where
  "Duration_String d =
     (let u = nat \<bar>d\<bar>;
          secs = u div 1000000000;
          body =
            (if u = 0 then ''0s''
             else if u < 1000 then fmtFrac u 0 @ ''ns''
             else if u < 1000000 then fmtFrac u 3 @ [CHR 0xC2, CHR 0xB5] @ ''s''
             else if u < 1000000000 then fmtFrac u 6 @ ''ms''
             else (if secs \<ge> 3600 then show_nat (secs div 3600) @ ''h'' else []) @
                  (if secs \<ge> 60 then show_nat (secs div 60 mod 60) @ ''m'' else []) @
                  fmtFrac (secs mod 60 * 1000000000 + u mod 1000000000) 9 @ ''s'')
      in if d < 0 then CHR ''-'' # body else body)"

subsection \<open>Times\<close>

definition zero_time :: int where
  "zero_time = - 62135596800000000000"

definition IsZero :: "int \<Rightarrow> bool" where
  "IsZero t = (t = zero_time)"

definition max_int64 :: int where
  "max_int64 = 9223372036854775807"

definition min_int64 :: int where
  "min_int64 = - 9223372036854775808"

text \<open>\<open>time.Time.Sub\<close> saturates at the ends of the range of \<open>time.Duration\<close>.\<close>

definition Time_Sub :: "int \<Rightarrow> int \<Rightarrow> int" where
  "Time_Sub t u = max min_int64 (min max_int64 (t - u))"

text \<open>\<open>time.Duration.Round\<close>: to the nearest multiple of \<open>m\<close>, halves away from zero, saturating.\<close>

definition Duration_Round :: "int \<Rightarrow> int \<Rightarrow> int" where
  "Duration_Round d m =
     (if m \<le> 0 then d
      else
        let r = \<bar>d\<bar> mod m;
            a = (if r + r < m then \<bar>d\<bar> - r else \<bar>d\<bar> + (m - r))
        in max min_int64 (min max_int64 (if d < 0 then - a else a)))"

definition Millisecond :: int where
  "Millisecond = 1000000"

text \<open>Digits of a clock, padded with zeros.\<close>

definition pad0 :: "nat \<Rightarrow> nat \<Rightarrow> string" where
  "pad0 k n = (let ds = show_nat n in replicate (k - length ds) (CHR ''0'') @ ds)"

definition clock_of :: "int \<Rightarrow> nat \<times> nat \<times> nat" where
  "clock_of t = (let s = nat (t div 1000000000 mod 86400) in (s div 3600, s div 60 mod 60, s mod 60))"

text \<open>The civil date of a time, as year, month and day of the proleptic Gregorian calendar.\<close>

definition date_of :: "int \<Rightarrow> int \<times> nat \<times> nat" where
  "date_of t =
     (let z = t div 86400000000000 + 719468;
          era = z div 146097;
          doe = z mod 146097;
          yoe = (doe - doe div 1460 + doe div 36524 - doe div 146096) div 365;
          doy = doe - (365 * yoe + yoe div 4 - yoe div 100);
          mp = (5 * doy + 2) div 153;
          d = doy - (153 * mp + 2) div 5 + 1;
          m = (if mp < 10 then mp + 3 else mp - 9)
      in (yoe + era * 400 + (if m \<le> 2 then 1 else 0), nat m, nat d))"

text \<open>The layouts \<open>15:04:05.000\<close>, \<open>20060102150405\<close> and \<open>2006-01-02T15:04:05.000000Z\<close> on UTC times.\<close>

definition Format_clock :: "int \<Rightarrow> string" where
  "Format_clock t =
     (let (h, m, s) = clock_of t
      in pad0 2 h @ '':'' @ pad0 2 m @ '':'' @ pad0 2 s @ ''.'' @ pad0 3 (nat (t mod 1000000000 div 1000000)))"

definition Format_compact :: "int \<Rightarrow> string" where
  "Format_compact t =
     (let (y, mo, d) = date_of t; (h, m, s) = clock_of t
      in pad0 4 (nat y) @ pad0 2 mo @ pad0 2 d @ pad0 2 h @ pad0 2 m @ pad0 2 s)"

definition Format_iso :: "int \<Rightarrow> string" where
  "Format_iso t =
     (let (y, mo, d) = date_of t; (h, m, s) = clock_of t
      in pad0 4 (nat y) @ ''-'' @ pad0 2 mo @ ''-'' @ pad0 2 d @ ''T'' @ pad0 2 h @ '':'' @ pad0 2 m @ '':'' @
         pad0 2 s @ ''.'' @ pad0 6 (nat (t mod 1000000000 div 1000)) @ ''Z'')"

subsection \<open>Deadlines of a context\<close>

text \<open>A context's deadline, if it has one.\<close>

definition DeadlineBefore :: "int option \<Rightarrow> int \<Rightarrow> bool" where
  "DeadlineBefore deadline t = (case deadline of None \<Rightarrow> False | Some dl \<Rightarrow> dl < t)"

subsection \<open>Messages of the protocol buffer library\<close>

record Timestamp =
  ts_seconds :: int
  ts_nanos :: int

record Duration =
  d_seconds :: int
  d_nanos :: int

record pb =
  ts_CheckValid :: "Timestamp option \<Rightarrow> string option"
  ts_AsTime :: "Timestamp option \<Rightarrow> int"
  ts_New :: "int \<Rightarrow> Timestamp"
  d_CheckValid :: "Duration \<Rightarrow> string option"
  d_AsDuration :: "Duration \<Rightarrow> int"
  d_New :: "int \<Rightarrow> Duration"

text \<open>The times the library documents as valid, from the year 1 to the year 9999; a timestamp made
  from one of them is valid and gives it back.\<close>

definition valid_time :: "int \<Rightarrow> bool" where
  "valid_time t \<longleftrightarrow> zero_time \<le> t \<and> t < 253402300800000000000"

definition pb_laws :: "pb \<Rightarrow> bool" where
  "pb_laws P \<longleftrightarrow>
     (\<forall>t. valid_time t \<longrightarrow> ts_CheckValid P (Some (ts_New P t)) = None \<and> ts_AsTime P (Some (ts_New P t)) = t)"

lemma pb_valid:
  "pb_laws P \<Longrightarrow> valid_time t \<Longrightarrow> ts_CheckValid P (Some (ts_New P t)) = None"
  by (simp add: pb_laws_def)

lemma pb_time:
  "pb_laws P \<Longrightarrow> valid_time t \<Longrightarrow> ts_AsTime P (Some (ts_New P t)) = t"
  by (simp add: pb_laws_def)

text \<open>An instance, for examples.\<close>

definition ex_pb :: pb where
  "ex_pb =
     \<lparr>ts_CheckValid = (\<lambda>ts. case ts of None \<Rightarrow> Some ''invalid nil Timestamp''
        | Some x \<Rightarrow> if valid_time (ts_seconds x * 1000000000 + ts_nanos x) \<and> 0 \<le> ts_nanos x \<and> ts_nanos x < 1000000000
            then None else Some ''timestamp out of range''),
      ts_AsTime = (\<lambda>ts. case ts of None \<Rightarrow> 0 | Some x \<Rightarrow> ts_seconds x * 1000000000 + ts_nanos x),
      ts_New = (\<lambda>t. \<lparr>ts_seconds = t div 1000000000, ts_nanos = t mod 1000000000\<rparr>),
      d_CheckValid = (\<lambda>d. None),
      d_AsDuration = (\<lambda>d. d_seconds d * 1000000000 + d_nanos d),
      d_New = (\<lambda>d. \<lparr>d_seconds = sgn d * (\<bar>d\<bar> div 1000000000), d_nanos = sgn d * (\<bar>d\<bar> mod 1000000000)\<rparr>)\<rparr>"

lemma ex_pb_laws: "pb_laws ex_pb"
  by (simp add: pb_laws_def ex_pb_def)

end
