(* ===== verification/PlanRun.thy ===== *)
theory PlanRun
  imports Plan GoTime
begin

text \<open>
  Executing a plan, the second half of \<open>internal/planner/run.go\<close> and \<open>internal/planner/external.go\<close>:
  running one test around the hooks of its fixtures and its precondition, running a tree of fixtures
  with the set-up, reset and tear-down of fixtures in between, running tests of a local bundle from a
  remote one, and reporting tests that do not run.  The state of a run is the world with the output
  stream, the manager of external data files and the fixture stack.

  The loop of \<open>runFixtTree\<close> takes fuel; the lemmas show that one more than twice the number of fixtures
  and tests of the tree is enough, whatever fixtures, tests and local bundles do.
\<close>

subsection \<open>Sequences of user code\<close>

text \<open>Framework code around user code inside one \<open>SafeCall\<close>: a function that runs one piece and, if
  it returns, the next.\<close>

definition ufatal :: "report list \<Rightarrow> ('w, 'a) ucode" where
  "ufatal rs w = \<lparr>reports = rs, finish = Some (0, UGoexit), cancelled = None, uworld = w\<rparr>"

definition ureport :: "report list \<Rightarrow> ('w, 'a) ucode \<Rightarrow> ('w, 'a) ucode" where
  "ureport rs f w = (let c = f w in c\<lparr>reports := rs @ reports c\<rparr>)"

definition ustop :: "int \<Rightarrow> 'b uend \<Rightarrow> ('w, 'a) ucall \<Rightarrow> ('w, 'b) ucall" where
  "ustop t e c = \<lparr>reports = reports c, finish = Some (t, e), cancelled = cancelled c, uworld = uworld c\<rparr>"

definition ubind :: "('w, 'a) ucode \<Rightarrow> ('a \<Rightarrow> ('w, 'b) ucode) \<Rightarrow> ('w, 'b) ucode" where
  "ubind f g w =
     (let c = f w in
      case finish c of
        None \<Rightarrow> \<lparr>reports = reports c, finish = None, cancelled = cancelled c, uworld = uworld c\<rparr>
      | Some (t, UGoexit) \<Rightarrow> ustop t UGoexit c
      | Some (t, UPanic v) \<Rightarrow> ustop t (UPanic v) c
      | Some (t, UForced e) \<Rightarrow> ustop t (UForced e) c
      | Some (t, UReturn x) \<Rightarrow>
          let d = g x (uworld c) in
          \<lparr>reports = reports c @ reports d,
           finish = map_option (\<lambda>(t', e). (t + t', e)) (finish d),
           cancelled = (case cancelled c of Some p \<Rightarrow> Some p | None \<Rightarrow> map_option (\<lambda>(t', e). (t + t', e)) (cancelled d)),
           uworld = uworld d\<rparr>)"

subsection \<open>Running a test\<close>

record 'w pst =
  psys :: "'w sys"
  pmgr :: Manager
  pstk :: "'w pstack"

definition timeoutOrDefault :: "int \<Rightarrow> int \<Rightarrow> int" where
  "timeoutOrDefault timeout def = (if timeout > 0 then timeout else def)"

definition TestDidNotRunMsg :: string where
  "TestDidNotRunMsg = ''Test did not run''"

definition preFailPrefix :: string where
  "preFailPrefix = ''[Precondition failure] ''"

definition msg_error :: "string \<Rightarrow> PError" where
  "msg_error m = \<lparr>Reason = m, Location = None\<rparr>"

text \<open>The function of the first \<open>SafeCall\<close>; it returns \<open>postTestFunc\<close>.\<close>

definition reconnect :: "('w, 'h) Config \<Rightarrow> ('w, unit) ucode" where
  "reconnect pcfg w =
     (case pDUT pcfg of
        None \<Rightarrow> returns () w
      | Some (connected, connect) \<Rightarrow>
          if connected w then returns () w
          else ureport [RLog ''Reconnecting to DUT'']
            (ubind connect
              (\<lambda>err. case err of
                 None \<Rightarrow> returns ()
               | Some e \<Rightarrow> ufatal [RError (msg_error TestDidNotRunMsg),
                                   RError (msg_error (''Failed to reconnect to DUT: '' @ e))])) w)"

definition pre_test_func ::
  "('w, 'h) Config \<Rightarrow> ('w, 'h) TestInstance \<Rightarrow> RuntimeConfig \<Rightarrow> ('w, ('w, unit) ucode option) ucode" where
  "pre_test_func pcfg t rcfg w =
     (if tTimeout t \<le> 0 then ufatal [RError (msg_error (''Invalid timeout '' @ Duration_String (tTimeout t)))] w
      else
        let pre = PreCheck (e_os (pEnv pcfg)) w (rDataDir rcfg) (tData t) in
        if has_error_report pre then ureport pre (returns None) w
        else ureport pre
          (ubind (reconnect pcfg)
            (\<lambda>_. case pTestHook pcfg of None \<Rightarrow> returns None | Some hook \<Rightarrow> hook rcfg (tName t))) w)"

text \<open>User code that reports through a precondition's state object: errors get its prefix.\<close>

fun pre_report :: "report \<Rightarrow> report" where
  "pre_report (RLog m) = RLog m"
| "pre_report (RError e) = RError (e\<lparr>Reason := preFailPrefix @ Reason e\<rparr>)"

definition pre_code :: "string \<Rightarrow> ('w, 'a) ucode \<Rightarrow> ('w, 'a) ucode" where
  "pre_code msg f w = (let c = f w in c\<lparr>reports := RLog msg # map pre_report (reports c)\<rparr>)"

definition preparing :: "string \<Rightarrow> string" where
  "preparing pre = ''Preparing precondition '' @ Quote pre"

definition closing :: "string \<Rightarrow> string" where
  "closing pre = ''Closing precondition '' @ Quote pre"

definition codeName :: string where
  "codeName = ''Test''"

definition prepare_pre ::
  "('w, 'h) Config \<Rightarrow> ('w, 'h) TestInstance \<Rightarrow> RuntimeConfig \<Rightarrow> 'w trun \<Rightarrow> val res \<times> 'w trun" where
  "prepare_pre pcfg t rcfg tr =
     (case tPre t of
        Some pre \<Rightarrow>
          if condition tr then (Inr None, tr)
          else
            let (r, tr1) = run_test_user codeName (pcTimeout pre) (GracePeriod pcfg) preFailPrefix
                   (pre_code (preparing (pcString pre)) (pcPrepare pre rcfg)) tr
            in (case sc_err r of Some e \<Rightarrow> (Inl e, tr1)
                | None \<Rightarrow> (Inr (case sc_ret r of Some v \<Rightarrow> v | None \<Rightarrow> None), tr1))
      | None \<Rightarrow> (Inr None, tr))"

text \<open>The pre-test hooks of the fixtures, the test function, the post-test hooks.\<close>

definition run_func ::
  "('w, 'h) Config \<Rightarrow> ('w, 'h) TestInstance \<Rightarrow> RuntimeConfig \<Rightarrow> val \<Rightarrow> string list \<Rightarrow> 'w trun \<Rightarrow> goerr option \<times> 'w trun" where
  "run_func pcfg t rcfg preVal purgeable tr =
     (if condition tr then (None, tr)
      else
        let (r, tr1) = run_test_user codeName (tTimeout t) (timeoutOrDefault (tExitTimeout t) (GracePeriod pcfg)) []
               (tFunc t rcfg preVal purgeable) tr
        in (sc_err r, tr1))"

definition run_with_hooks ::
  "('w, 'h) Config \<Rightarrow> ('w, 'h) TestInstance \<Rightarrow> RuntimeConfig \<Rightarrow> val \<Rightarrow> string list \<Rightarrow> 'w pstack \<Rightarrow> 'w trun \<Rightarrow> goerr option \<times> 'w trun" where
  "run_with_hooks pcfg t rcfg preVal purgeable stk tr =
     (case ps_PreTest (pEnv pcfg) (FixtureConfig pcfg) (test_EntityProto t) (rOutDir rcfg) stk tr of
        (Inl e, tr1) \<Rightarrow> (Some e, tr1)
      | (Inr hooks, tr1) \<Rightarrow>
          (case run_func pcfg t rcfg preVal purgeable tr1 of
             (Some e, tr2) \<Rightarrow> (Some e, tr2)
           | (None, tr2) \<Rightarrow> ps_PostTest (pEnv pcfg) (FixtureConfig pcfg) (test_EntityProto t) hooks stk tr2))"

definition close_pre ::
  "('w, 'h) Config \<Rightarrow> bool \<Rightarrow> ('w, 'h) TestInstance \<Rightarrow> RuntimeConfig \<Rightarrow> 'w trun \<Rightarrow> goerr option \<times> 'w trun" where
  "close_pre pcfg close t rcfg tr =
     (case tPre t of
        Some pre \<Rightarrow>
          if close then
            let (r, tr1) = run_test_user codeName (pcTimeout pre) (GracePeriod pcfg) preFailPrefix
                   (pre_code (closing (pcString pre)) (pcClose pre rcfg)) tr
            in (sc_err r, tr1)
          else (None, tr)
      | None \<Rightarrow> (if close then Some (BUG ''nil precondition'') else None, tr))"

definition test_rcfg :: "('w, 'h) Config \<Rightarrow> ('w, 'h) TestInstance \<Rightarrow> string \<Rightarrow> 'w pstack \<Rightarrow> RuntimeConfig" where
  "test_rcfg pcfg t outDir stk =
     \<lparr>rDataDir = path_Join [pDataDir pcfg, RelativeDataDir (tPkg t)], rOutDir = outDir, rFixtValue = ps_Val stk\<rparr>"

definition runTestWithConfig ::
  "('w, 'h) Config \<Rightarrow> bool \<Rightarrow> ('w, 'h) TestInstance \<Rightarrow> string \<Rightarrow> string list \<Rightarrow> 'w pstack \<Rightarrow> 'w trun \<Rightarrow> goerr option \<times> 'w trun" where
  "runTestWithConfig pcfg close t outDir purgeable stk tr =
     (let rcfg = test_rcfg pcfg t outDir stk;
          (r1, tr1) = run_test_user codeName preTestTimeout (GracePeriod pcfg) [] (pre_test_func pcfg t rcfg) tr
      in case sc_err r1 of
           Some e \<Rightarrow> (Some e, tr1)
         | None \<Rightarrow>
           (case prepare_pre pcfg t rcfg tr1 of
              (Inl e, tr2) \<Rightarrow> (Some e, tr2)
            | (Inr preVal, tr2) \<Rightarrow>
              (case run_with_hooks pcfg t rcfg preVal purgeable stk tr2 of
                 (Some e, tr3) \<Rightarrow> (Some e, tr3)
               | (None, tr3) \<Rightarrow>
                 (case close_pre pcfg close t rcfg tr3 of
                    (Some e, tr4) \<Rightarrow> (Some e, tr4)
                  | (None, tr4) \<Rightarrow>
                      (case sc_ret r1 of
                         Some (Some post) \<Rightarrow>
                           (let (r5, tr5) = run_test_user codeName postTestTimeout (GracePeriod pcfg) [] post tr4
                            in (sc_err r5, tr5))
                       | _ \<Rightarrow> (None, tr4))))))"

text \<open>Reports the framework itself makes on the stream of a test.\<close>

definition tr_report :: "report list \<Rightarrow> 'w trun \<Rightarrow> 'w trun" where
  "tr_report rs tr =
     (let (es, o') = apply_reports rs (tout tr, out (tsys tr)) in tr\<lparr>tout := es, tsys := (tsys tr)\<lparr>out := o'\<rparr>\<rparr>)"

definition dumpGoroutines :: "('w, 'h) Config \<Rightarrow> 'w trun \<Rightarrow> 'w trun" where
  "dumpGoroutines pcfg tr =
     (let (ls, err) = pGoroutines pcfg (world (tsys tr)) in
      tr_report (RLog ''Dumping all goroutines'' # map RLog ls @
        (case err of None \<Rightarrow> [] | Some e \<Rightarrow> [RError (msg_error (''Failed to dump goroutines: '' @ e))])) tr)"

definition run_marked ::
  "('w, 'h) Config \<Rightarrow> bool \<Rightarrow> ('w, 'h) TestInstance \<Rightarrow> string \<Rightarrow> Manager \<Rightarrow> 'w pstack \<Rightarrow> 'w trun \<Rightarrow> goerr option \<times> 'w trun" where
  "run_marked pcfg close t outDir m stk tr =
     (case ps_Status stk of
        StatusYellow \<Rightarrow> (Some (BUG ''Cannot run a test on a yellow fixture stack''), tr)
      | StatusRed \<Rightarrow> (None, tr_report (map RError (ps_Errors stk)) tr)
      | StatusGreen \<Rightarrow>
          (case runTestWithConfig pcfg close t outDir (Purgeable (dlEnv (pDownloader pcfg)) m (world (tsys tr))) stk tr of
             (None, tr1) \<Rightarrow> (None, tr1)
           | (Some e, tr1) \<Rightarrow>
               (Some e, dumpGoroutines pcfg (tr_report [RError (msg_error (err_msg e @ '' (see log for goroutine dump)''))] tr1))))"

definition runTest ::
  "('w, 'h) Config \<Rightarrow> bool \<Rightarrow> ('w, 'h) TestInstance \<Rightarrow> 'w pst \<Rightarrow> goerr option \<times> 'w pst" where
  "runTest pcfg close t st =
     (case CreateOutDir (e_os (pEnv pcfg)) (pOutDir pcfg) (tName t) (world (psys st)) of
        (Inl e, w) \<Rightarrow> (Some e, st\<lparr>psys := (psys st)\<lparr>world := w\<rparr>\<rparr>)
      | (Inr outDir, w) \<Rightarrow>
          let (to0, o0) = es_start outDir (NewEntityStream (test_EntityProto t), out (psys st));
              (rel, m1, w1) = BeforeEntity (pDownloader pcfg) (test_EntityProto t) (pmgr st) w;
              (merr, stk1, s1) = ps_MarkDirty (pEnv pcfg) (pstk st) ((psys st)\<lparr>world := w1, out := o0\<rparr>);
              tr0 = \<lparr>tout = to0, condition = False, tsys = s1\<rparr>;
              (err, tr1) = (case merr of Some e \<Rightarrow> (Some e, tr0) | None \<Rightarrow> run_marked pcfg close t outDir m1 stk1 tr0);
              (to2, o2) = es_end [] (tout tr1, out (tsys tr1))
          in (err, \<lparr>psys = (tsys tr1)\<lparr>out := o2\<rparr>, pmgr = release rel m1, pstk = stk1\<rparr>))"

subsection \<open>Tests that do not run\<close>

definition report_only :: "Entity \<Rightarrow> report list \<Rightarrow> string list \<Rightarrow> 'w sys \<Rightarrow> 'w sys" where
  "report_only e rs skips s =
     s\<lparr>out := snd (es_end skips (apply_reports rs (es_start [] (NewEntityStream e, out s))))\<rparr>"

definition reportOrphanTest :: "('w, 'h) Config \<Rightarrow> orphanTest \<Rightarrow> 'w sys \<Rightarrow> 'w sys" where
  "reportOrphanTest pcfg o' =
     report_only (rEntity (oTest o'))
       [RError \<lparr>Reason = ''Fixture '' @ Quote (missingFixtName o') @ '' not found'', Location = Some (pCaller pcfg)\<rparr>] []"

definition reportSkippedTest :: "('w, 'h) Config \<Rightarrow> ('w, 'h) skippedTest \<Rightarrow> 'w sys \<Rightarrow> 'w sys" where
  "reportSkippedTest pcfg s =
     (case skErr s of
        None \<Rightarrow> report_only (test_EntityProto (skTest s)) [] (skReasons s)
      | Some e \<Rightarrow> report_only (test_EntityProto (skTest s)) [RError \<lparr>Reason = err_msg e, Location = Some (pCaller pcfg)\<rparr>] [])"


subsection \<open>External tests\<close>

text \<open>A local bundle runs and this bundle answers its stack operations until it is done.\<close>

primrec run_ext ::
  "'w ext \<Rightarrow> 'w env \<Rightarrow> FixtConfig \<Rightarrow> 'w StackServer \<Rightarrow> 'w sys \<Rightarrow> string list \<times> ext_status \<times> 'w StackServer \<times> 'w sys" where
  "run_ext (ExtDone names r w) = (\<lambda>env cfg srv s. (names, r, srv, s\<lparr>world := w\<rparr>))"
| "run_ext (ExtEmit ev k) = (\<lambda>env cfg srv s. run_ext k env cfg srv (s\<lparr>out := snd (send ev (out s))\<rparr>))"
| "run_ext (ExtReq req w k) = (\<lambda>env cfg srv s.
     let (resp, srv1, s1) = srv_Handle env cfg req srv (s\<lparr>world := w\<rparr>)
     in run_ext (k resp (world s1)) env cfg srv1 s1)"

definition errNoTestRan :: goerr where
  "errNoTestRan = Errorf ''no test ran in the last attempt''"

definition runExternalTests ::
  "('w, 'h) Config \<Rightarrow> string list \<Rightarrow> 'w pstack \<Rightarrow> 'w sys \<Rightarrow> string list res \<times> 'w pstack \<times> 'w sys" where
  "runExternalTests pcfg names stk s =
     (case (pExternal pcfg, stk) of
        (Some runLocalTests, PCombined c) \<Rightarrow>
          (case pConnCache pcfg (world s) of
             (Some e, w) \<Rightarrow> (Inl (Errorf e), stk, s\<lparr>world := w\<rparr>)
           | (None, w) \<Rightarrow>
               let (results, r, srv, s1) = run_ext (runLocalTests names (cs_Top c) w) (pEnv pcfg) (FixtureConfig pcfg)
                      \<lparr>srv_stack = c, srv_postTest = None\<rparr> (s\<lparr>world := w\<rparr>);
                   stk1 = PCombined (srv_stack srv)
               in case r of
                    ExtErr e \<Rightarrow> (Inl (Errorf e), stk1, s1)
                  | ExtNoTestRan \<Rightarrow>
                      if results = [] then (Inl errNoTestRan, stk1, s1)
                      else (Inr (filter (\<lambda>n. n \<notin> set results) names), stk1, s1)
                  | ExtNil \<Rightarrow> (Inr (filter (\<lambda>n. n \<notin> set results) names), stk1, s1))
      | _ \<Rightarrow> (Inl (BUG ''nil external target''), stk, s))"

subsection \<open>Running a fixture tree\<close>

abbreviation pst_Status :: "'w pst \<Rightarrow> Status" where
  "pst_Status st \<equiv> ps_Status (pstk st)"

definition p_reset :: "('w, 'h) Config \<Rightarrow> 'w pst \<Rightarrow> goerr option \<times> 'w pst" where
  "p_reset pcfg st =
     (let (e, stk, s) = ps_Reset (pEnv pcfg) (FixtureConfig pcfg) (pstk st) (psys st)
      in (e, st\<lparr>pstk := stk, psys := s\<rparr>))"

definition p_push :: "('w, 'h) Config \<Rightarrow> 'w FixtureInstance \<Rightarrow> 'w pst \<Rightarrow> goerr option \<times> 'w pst" where
  "p_push pcfg f st =
     (let (e, stk, s) = ps_Push (pEnv pcfg) (FixtureConfig pcfg) f (pstk st) (psys st)
      in (e, st\<lparr>pstk := stk, psys := s\<rparr>))"

definition p_pop :: "('w, 'h) Config \<Rightarrow> 'w pst \<Rightarrow> goerr option \<times> 'w pst" where
  "p_pop pcfg st =
     (let (e, stk, s) = ps_Pop (FixtureConfig pcfg) (pstk st) (psys st)
      in (e, st\<lparr>pstk := stk, psys := s\<rparr>))"

text \<open>The loop over the direct child tests; \<open>rest\<close> tells if the tree has external tests or children.
  The second result is the tests that remain.\<close>

fun run_tests ::
  "('w, 'h) Config \<Rightarrow> bool \<Rightarrow> ('w, 'h) TestInstance list \<Rightarrow> 'w pst \<Rightarrow> goerr option \<times> ('w, 'h) TestInstance list \<times> 'w pst" where
  "run_tests pcfg rest [] st = (None, [], st)"
| "run_tests pcfg rest (t # ts) st =
     (if pst_Status st = StatusYellow then (None, t # ts, st)
      else case runTest pcfg False t st of
        (Some e, st1) \<Rightarrow> (Some e, ts, st1)
      | (None, st1) \<Rightarrow>
          if ts \<noteq> [] \<or> rest then
            (case p_reset pcfg st1 of
               (Some e, st2) \<Rightarrow> (Some e, ts, st2)
             | (None, st2) \<Rightarrow> run_tests pcfg rest ts st2)
          else run_tests pcfg rest ts st1)"

lemma unstarted_shorter:
  "runExternalTests pcfg names stk s = (Inr un, stk', s') \<Longrightarrow> length un \<le> length names"
  by (auto simp: runExternalTests_def Let_def split: option.splits pstack.splits prod.splits ext_status.splits if_splits)

function run_externals ::
  "('w, 'h) Config \<Rightarrow> string list \<Rightarrow> 'w pst \<Rightarrow> goerr option \<times> string list \<times> 'w pst" where
  "run_externals pcfg names st =
     (if pst_Status st = StatusYellow \<or> names = [] then (None, names, st)
      else case runExternalTests pcfg names (pstk st) (psys st) of
        (Inl e, stk, s) \<Rightarrow> (Some e, names, st\<lparr>pstk := stk, psys := s\<rparr>)
      | (Inr unstarted, stk, s) \<Rightarrow>
          if length unstarted = length names
          then (Some (BUG ''runExternalTests succeeds but no external test has run''), names, st\<lparr>pstk := stk, psys := s\<rparr>)
          else run_externals pcfg unstarted (st\<lparr>pstk := stk, psys := s\<rparr>))"
  by pat_completeness auto
termination
proof (relation "measure (\<lambda>(pcfg, names, st). length names)", goal_cases)
  case (2 pcfg names st x y unstarted stk s)
  then have "runExternalTests pcfg names (pstk st) (psys st) = (Inr unstarted, stk, s)" by metis
  with 2(5) show ?case by (auto dest: unstarted_shorter)
qed simp

declare run_externals.simps [simp del]

text \<open>One round of the loop over a tree: push the fixture, run the direct child tests, the external tests
  and, with \<open>children\<close>, the child fixtures, and pop the fixture.\<close>

type_synonym ('w, 'h) tree_result = "goerr option \<times> ('w, 'h) fixtTree \<times> 'w pst"
type_synonym ('w, 'h) children_result = "goerr option \<times> ('w, 'h) fixtTree list \<times> 'w pst"

definition tree_round ::
  "('w, 'h) Config \<Rightarrow> (bool \<Rightarrow> bool \<Rightarrow> ('w, 'h) fixtTree list \<Rightarrow> 'w pst \<Rightarrow> ('w, 'h) children_result option) \<Rightarrow>
     ('w, 'h) fixtTree \<Rightarrow> 'w pst \<Rightarrow> ('w, 'h) tree_result option" where
  "tree_round pcfg children tree st =
     (case tree of FT f ts es cs \<Rightarrow>
       (case p_push pcfg f st of
          (Some e, st1) \<Rightarrow> Some (Some e, FT f ts es cs, st1)
        | (None, st1) \<Rightarrow>
       (case run_tests pcfg (es \<noteq> [] \<or> cs \<noteq> []) ts st1 of
          (Some e, ts1, st2) \<Rightarrow> Some (Some e, FT f ts1 es cs, st2)
        | (None, ts1, st2) \<Rightarrow>
       (case run_externals pcfg es st2 of
          (Some e, es1, st3) \<Rightarrow> Some (Some e, FT f ts1 es1 cs, st3)
        | (None, es1, st3) \<Rightarrow>
       (case children (es \<noteq> []) (ts1 \<noteq> [] \<or> es1 \<noteq> []) cs st3 of
          None \<Rightarrow> None
        | Some (Some e, cs1, st4) \<Rightarrow> Some (Some e, FT f ts1 es1 cs1, st4)
        | Some (None, cs1, st4) \<Rightarrow>
            (let (e, st5) = p_pop pcfg st4 in Some (e, FT f ts1 es1 cs1, st5)))))))"

text \<open>The files of the fixture are downloaded before the round and released after it.\<close>

definition tree_scope ::
  "('w, 'h) Config \<Rightarrow> (('w, 'h) fixtTree \<Rightarrow> 'w pst \<Rightarrow> ('w, 'h) tree_result option) \<Rightarrow> ('w, 'h) fixtTree \<Rightarrow> 'w pst \<Rightarrow>
     ('w, 'h) tree_result option" where
  "tree_scope pcfg round tree st =
     (let (rel, m1, w1) = BeforeEntity (pDownloader pcfg) (fixt_EntityProto (ft_fixt tree)) (pmgr st) (world (psys st))
      in map_option (\<lambda>(e, t, s). (e, t, s\<lparr>pmgr := release rel (pmgr s)\<rparr>))
           (round tree (st\<lparr>pmgr := m1, psys := (psys st)\<lparr>world := w1\<rparr>\<rparr>)))"

text \<open>One step of the loop over the child fixtures: the first child is run with \<open>sub\<close>.\<close>

definition child_step ::
  "('w, 'h) Config \<Rightarrow> (('w, 'h) fixtTree \<Rightarrow> 'w pst \<Rightarrow> ('w, 'h) tree_result option) \<Rightarrow> bool \<Rightarrow> bool \<Rightarrow>
     ('w, 'h) fixtTree \<Rightarrow> ('w, 'h) fixtTree list \<Rightarrow> 'w pst \<Rightarrow> ('w, 'h) children_result option" where
  "child_step pcfg sub hasExternalTests rest c cs st =
     (case (if hasExternalTests then p_reset pcfg st else (None, st)) of
        (Some e, st1) \<Rightarrow> Some (Some e, c # cs, st1)
      | (None, st1) \<Rightarrow>
          (case sub c st1 of
             None \<Rightarrow> None
           | Some (Some e, c1, st2) \<Rightarrow> Some (Some e, c1 # cs, st2)
           | Some (None, c1, st2) \<Rightarrow>
               (let cs1 = (if ft_Empty c1 then cs else c1 # cs);
                    (e, st3) = (if pst_Status st2 \<noteq> StatusYellow \<and> (cs1 \<noteq> [] \<or> rest) then p_reset pcfg st2 else (None, st2))
                in Some (e, cs1, st3))))"

fun runFixtTree ::
  "nat \<Rightarrow> ('w, 'h) Config \<Rightarrow> ('w, 'h) fixtTree \<Rightarrow> 'w pst \<Rightarrow> ('w, 'h) tree_result option"
and run_children ::
  "nat \<Rightarrow> ('w, 'h) Config \<Rightarrow> bool \<Rightarrow> bool \<Rightarrow> ('w, 'h) fixtTree list \<Rightarrow> 'w pst \<Rightarrow> ('w, 'h) children_result option"
where
  "runFixtTree 0 pcfg tree st = None"
| "runFixtTree (Suc n) pcfg tree st =
     (if ft_Empty tree \<or> pst_Status st = StatusYellow then Some (None, tree, st)
      else case tree_scope pcfg (tree_round pcfg (run_children n pcfg)) tree st of
             None \<Rightarrow> None
           | Some (Some e, tree1, st1) \<Rightarrow> Some (Some e, tree1, st1)
           | Some (None, tree1, st1) \<Rightarrow> runFixtTree n pcfg tree1 st1)"
| "run_children 0 pcfg hasExternalTests rest cs st = None"
| "run_children (Suc n) pcfg hasExternalTests rest cs st =
     (if pst_Status st = StatusYellow \<or> cs = [] then Some (None, cs, st)
      else case child_step pcfg (runFixtTree n pcfg) hasExternalTests rest (hd cs) (tl cs) st of
             None \<Rightarrow> None
           | Some (Some e, cs1, st1) \<Rightarrow> Some (Some e, cs1, st1)
           | Some (None, cs1, st1) \<Rightarrow> run_children n pcfg hasExternalTests rest cs1 st1)"

subsection \<open>Running a plan\<close>

fun tree_size :: "('w, 'h) fixtTree \<Rightarrow> nat" where
  "tree_size (FT f ts es cs) = Suc (length ts + length es + sum_list (map tree_size cs))"

definition tree_fuel :: "('w, 'h) fixtTree \<Rightarrow> nat" where
  "tree_fuel t = Suc (2 * tree_size t)"

definition fp_run :: "('w, 'h) Config \<Rightarrow> ('w, 'h) fixtPlan \<Rightarrow> Manager \<Rightarrow> 'w sys \<Rightarrow> (goerr option \<times> Manager \<times> 'w sys) option" where
  "fp_run pcfg p m s =
     (let s1 = foldl (\<lambda>s o'. reportOrphanTest pcfg o' s) s (fpOrphans p);
          go = (\<lambda>stk s. map_option (\<lambda>(e, t, st). (e, pmgr st, psys st))
                  (runFixtTree (tree_fuel (fpTree p)) pcfg (fpTree p) \<lparr>psys = s, pmgr = m, pstk = stk\<rparr>))
      in if pExternal pcfg \<noteq> None then
           (case NewExternalStack (pEnv pcfg) s1 of
              (Inl e, s2) \<Rightarrow> Some (Some e, m, s2)
            | (Inr x, s2) \<Rightarrow> go (PCombined \<lparr>cparent = x, cchild = NewInternalStack\<rparr>) s2)
         else go (PInternal NewInternalStack) s1)"

text \<open>\<open>preLogger.Log\<close> forwards the logs of a precondition-scoped context to the current test; such logs
  are part of the reports of the user code that makes them.\<close>

fun pp_run_tests :: "('w, 'h) Config \<Rightarrow> bool \<Rightarrow> ('w, 'h) TestInstance list \<Rightarrow> 'w pst \<Rightarrow> goerr option \<times> 'w pst" where
  "pp_run_tests pcfg hasPre [] st = (None, st)"
| "pp_run_tests pcfg hasPre (t # ts) st =
     (case runTest pcfg (hasPre \<and> ts = []) t st of
        (Some e, st1) \<Rightarrow> (Some e, st1)
      | (None, st1) \<Rightarrow>
          if ts = [] then (None, st1)
          else case p_reset pcfg st1 of
                 (Some e, st2) \<Rightarrow> (Some e, st2)
               | (None, st2) \<Rightarrow> pp_run_tests pcfg hasPre ts st2)"

definition pp_run :: "('w, 'h) Config \<Rightarrow> ('w, 'h) prePlan \<Rightarrow> Manager \<Rightarrow> 'w sys \<Rightarrow> goerr option \<times> Manager \<times> 'w sys" where
  "pp_run pcfg p m s =
     (let (e, st) = pp_run_tests pcfg (ppPre p \<noteq> None) (ppTests p) \<lparr>psys = s, pmgr = m, pstk = PInternal NewInternalStack\<rparr>
      in (e, pmgr st, psys st))"

fun pps_run :: "('w, 'h) Config \<Rightarrow> ('w, 'h) prePlan list \<Rightarrow> Manager \<Rightarrow> 'w sys \<Rightarrow> goerr option \<times> Manager \<times> 'w sys" where
  "pps_run pcfg [] m s = (None, m, s)"
| "pps_run pcfg (p # ps) m s =
     (case pp_run pcfg p m s of
        (Some e, m1, s1) \<Rightarrow> (Some e, m1, s1)
      | (None, m1, s1) \<Rightarrow> pps_run pcfg ps m1 s1)"

definition plan_run :: "('w, 'h) Config \<Rightarrow> ('w, 'h) plan \<Rightarrow> 'w sys \<Rightarrow> (goerr option \<times> 'w sys) option" where
  "plan_run pcfg p s =
     (case newDownloader (pDownloader pcfg) (pClientErr pcfg) (pDataDir pcfg) (pArtifactsURL pcfg) (world s) of
        Inl e \<Rightarrow> Some (Some (Wrap ''failed to create new downloader'' e), s)
      | Inr m \<Rightarrow>
          let (m1, w1) = BeforeRun (pDownloader pcfg) (entitiesToRun p) m (world s);
              s2 = foldl (\<lambda>s sk. reportSkippedTest pcfg sk s) (s\<lparr>world := w1\<rparr>) (plSkips p)
          in case fp_run pcfg (plFixtPlan p) m1 s2 of
               None \<Rightarrow> None
             | Some (Some e, m3, s3) \<Rightarrow> Some (Some e, s3)
             | Some (None, m3, s3) \<Rightarrow> (let (e, m4, s4) = pps_run pcfg (plPrePlans p) m3 s3 in Some (e, s4)))"

definition RunTests :: "('w, 'h) Config \<Rightarrow> ResolvedEntity list \<Rightarrow> 'w sys \<Rightarrow> (goerr option \<times> 'w sys) option" where
  "RunTests pcfg tests s =
     (case buildPlan tests pcfg of
        None \<Rightarrow> None
      | Some (Inl e) \<Rightarrow> Some (Some e, s)
      | Some (Inr p) \<Rightarrow> plan_run pcfg p s)"

definition RunTestsLegacy :: "('w, 'h) Config \<Rightarrow> ('w, 'h) TestInstance list \<Rightarrow> 'w sys \<Rightarrow> (goerr option \<times> 'w sys) option" where
  "RunTestsLegacy pcfg tests s =
     (if pTests pcfg \<noteq> [] then Some (Some (BUG ''RunTestsLegacy pcfg.Tests is set, want nil''), s)
      else RunTests (pcfg\<lparr>pTests := rev (map (\<lambda>t. (tName t, t)) tests)\<rparr>)
             (map (\<lambda>t. \<lparr>rEntity = test_EntityProto t, rHops = 0, rSkip = [], rStartFixtureName = []\<rparr>) tests) s)"


subsection \<open>Running a tree terminates\<close>

lemma is_Push_status:
  assumes "is_Push os cfg fi st s = (None, st', s')" and "is_Status st \<noteq> StatusYellow"
  shows "is_Status st' \<noteq> StatusYellow"
  using is_Push_shape [OF assms(1)] assms(2)
  by (auto simp: is_Status_def first_not_green_append split: if_splits)

lemma ps_Push_status:
  assumes "ps_Push env cfg fi stk s = (None, stk', s')" and "ps_Status stk \<noteq> StatusYellow"
  shows "ps_Status stk' \<noteq> StatusYellow"
  using assms is_Push_status
  by (cases stk) (fastforce simp: cs_Push_def cs_Status_def split: prod.splits if_splits)+

lemma p_push_status:
  "p_push pcfg f st = (None, st') \<Longrightarrow> pst_Status st \<noteq> StatusYellow \<Longrightarrow> pst_Status st' \<noteq> StatusYellow"
  by (auto simp: p_push_def dest: ps_Push_status split: prod.splits)

lemma run_tests_progress:
  "run_tests pcfg rest ts st = (e, ts', st') \<Longrightarrow> length ts' \<le> length ts \<and>
     (ts \<noteq> [] \<and> pst_Status st \<noteq> StatusYellow \<longrightarrow> length ts' < length ts) \<and> (ts = [] \<longrightarrow> st' = st)"
proof (induction pcfg rest ts st rule: run_tests.induct)
  case (2 pcfg rest t ts st)
  then show ?case by (fastforce split: if_splits prod.splits option.splits)
qed simp

lemma run_externals_progress:
  "run_externals pcfg names st = (e, names', st') \<Longrightarrow> length names' \<le> length names \<and>
     (names \<noteq> [] \<and> pst_Status st \<noteq> StatusYellow \<and> e = None \<longrightarrow> length names' < length names) \<and> (names = [] \<longrightarrow> st' = st)"
proof (induction pcfg names st rule: run_externals.induct)
  case (1 pcfg names st)
  show ?case
  proof (cases "pst_Status st = StatusYellow \<or> names = []")
    case True
    then show ?thesis using 1(2) by (auto simp: run_externals.simps [of pcfg names st])
  next
    case False
    obtain r stk s where r: "runExternalTests pcfg names (pstk st) (psys st) = (r, stk, s)" by (metis prod_cases3)
    show ?thesis
    proof (cases r)
      case (Inl e')
      then show ?thesis using 1(2) r False by (auto simp: run_externals.simps [of pcfg names st])
    next
      case (Inr un)
      have "length un \<le> length names" using r Inr by (auto dest: unstarted_shorter)
      then show ?thesis using 1(1) [OF False r [symmetric] Inr refl] 1(2) r Inr False
        by (fastforce simp: run_externals.simps [of pcfg names st] split: if_splits)
    qed
  qed
qed

abbreviation trees_size :: "('w, 'h) fixtTree list \<Rightarrow> nat" where
  "trees_size cs \<equiv> sum_list (map tree_size cs)"

lemma tree_size_pos: "0 < tree_size t"
  by (cases t) simp

definition children_shrink ::
  "(bool \<Rightarrow> bool \<Rightarrow> ('w, 'h) fixtTree list \<Rightarrow> 'w pst \<Rightarrow> ('w, 'h) children_result option) \<Rightarrow> ('w, 'h) fixtTree list \<Rightarrow> bool" where
  "children_shrink f cs = (\<forall>he rest st. \<exists>e cs' st'. f he rest cs st = Some (e, cs', st') \<and> trees_size cs' \<le> trees_size cs \<and>
     (e = None \<and> cs \<noteq> [] \<and> pst_Status st \<noteq> StatusYellow \<and> \<not> he \<longrightarrow> trees_size cs' < trees_size cs))"

definition tree_shrinks :: "(('w, 'h) fixtTree \<Rightarrow> 'w pst \<Rightarrow> ('w, 'h) tree_result option) \<Rightarrow> ('w, 'h) fixtTree \<Rightarrow> bool" where
  "tree_shrinks f t = (\<forall>st. \<exists>e t' st'. f t st = Some (e, t', st') \<and> tree_size t' \<le> tree_size t \<and>
     (e = None \<and> \<not> ft_Empty t \<and> pst_Status st \<noteq> StatusYellow \<longrightarrow> tree_size t' < tree_size t))"

lemma tree_round_shrinks:
  assumes ch: "children_shrink children (ft_children t)"
  shows "tree_shrinks (tree_round pcfg children) t"
  unfolding tree_shrinks_def
proof
  fix st :: "'a pst"
  obtain f ts es cs where t: "t = FT f ts es cs" by (cases t)
  obtain e1 st1 where p: "p_push pcfg f st = (e1, st1)" by fastforce
  obtain e2 ts1 st2 where r2: "run_tests pcfg (es \<noteq> [] \<or> cs \<noteq> []) ts st1 = (e2, ts1, st2)" by (metis prod_cases3)
  obtain e3 es1 st3 where r3: "run_externals pcfg es st2 = (e3, es1, st3)" by (metis prod_cases3)
  obtain e4 cs1 st4 where r4: "children (es \<noteq> []) (ts1 \<noteq> [] \<or> es1 \<noteq> []) cs st3 = Some (e4, cs1, st4)"
    and s4: "trees_size cs1 \<le> trees_size cs"
      "e4 = None \<and> cs \<noteq> [] \<and> pst_Status st3 \<noteq> StatusYellow \<and> es = [] \<longrightarrow> trees_size cs1 < trees_size cs"
    using ch unfolding children_shrink_def t by (metis fixtTree.sel(4))
  note s2 = run_tests_progress [OF r2] and s3 = run_externals_progress [OF r3]
  show "\<exists>e t' st'. tree_round pcfg children t st = Some (e, t', st') \<and> tree_size t' \<le> tree_size t \<and>
     (e = None \<and> \<not> ft_Empty t \<and> pst_Status st \<noteq> StatusYellow \<longrightarrow> tree_size t' < tree_size t)"
  proof (cases "e1 = None \<and> e2 = None \<and> e3 = None \<and> e4 = None")
    case True
    obtain e5 st5 where r5: "p_pop pcfg st4 = (e5, st5)" by fastforce
    have y: "pst_Status st1 \<noteq> StatusYellow" if "pst_Status st \<noteq> StatusYellow" using p_push_status p True that by blast
    have "tree_size (FT f ts1 es1 cs1) < tree_size t" if "\<not> ft_Empty t" "pst_Status st \<noteq> StatusYellow"
      using s2 s3 s4 y True that by (cases "ts = []"; cases "es = []") (auto simp: t ft_Empty_def)
    moreover have "tree_round pcfg children t st = Some (e5, FT f ts1 es1 cs1, st5)"
      using True p r2 r3 r4 r5 by (simp add: tree_round_def t)
    ultimately show ?thesis using s2 s3 s4(1) by (auto simp: t)
  next
    case False
    then show ?thesis using p r2 r3 r4 s2 s3 s4(1) by (auto simp: tree_round_def t split: option.splits)
  qed
qed

lemma tree_scope_shrinks:
  assumes "tree_shrinks f t" shows "tree_shrinks (tree_scope pcfg f) t"
  unfolding tree_shrinks_def
proof
  fix st :: "'a pst"
  obtain rel m1 w1 where b: "BeforeEntity (pDownloader pcfg) (fixt_EntityProto (ft_fixt t)) (pmgr st) (world (psys st)) = (rel, m1, w1)"
    by (metis prod_cases3)
  from assms obtain e t' st' where "f t (st\<lparr>pmgr := m1, psys := (psys st)\<lparr>world := w1\<rparr>\<rparr>) = Some (e, t', st')"
    and "tree_size t' \<le> tree_size t"
    and "e = None \<and> \<not> ft_Empty t \<and> pst_Status st \<noteq> StatusYellow \<longrightarrow> tree_size t' < tree_size t"
    unfolding tree_shrinks_def by (metis pst.select_convs(3) pst.surjective pst.update_convs(1,2))
  then show "\<exists>e t' st'. tree_scope pcfg f t st = Some (e, t', st') \<and> tree_size t' \<le> tree_size t \<and>
     (e = None \<and> \<not> ft_Empty t \<and> pst_Status st \<noteq> StatusYellow \<longrightarrow> tree_size t' < tree_size t)"
    by (simp add: tree_scope_def b)
qed

lemma child_step_shrinks:
  assumes "tree_shrinks sub c"
    and idle: "\<And>st. ft_Empty c \<or> pst_Status st = StatusYellow \<Longrightarrow> sub c st = Some (None, c, st)"
  shows "\<exists>e cs' st'. child_step pcfg sub he rest c cs st = Some (e, cs', st') \<and> trees_size cs' \<le> trees_size (c # cs) \<and>
    (e = None \<and> pst_Status st \<noteq> StatusYellow \<longrightarrow> trees_size cs' < trees_size (c # cs) \<or> he \<and> pst_Status st' = StatusYellow)"
proof -
  obtain e1 st1 where r1: "(if he then p_reset pcfg st else (None, st)) = (e1, st1)" by fastforce
  obtain e2 c1 st2 where r2: "sub c st1 = Some (e2, c1, st2)" and le: "tree_size c1 \<le> tree_size c"
    and less: "e2 = None \<and> \<not> ft_Empty c \<and> pst_Status st1 \<noteq> StatusYellow \<longrightarrow> tree_size c1 < tree_size c"
    using assms(1) unfolding tree_shrinks_def by blast
  let ?cs = "if ft_Empty c1 then cs else c1 # cs"
  obtain e3 st3 where r3: "(if pst_Status st2 \<noteq> StatusYellow \<and> (?cs \<noteq> [] \<or> rest) then p_reset pcfg st2 else (None, st2)) = (e3, st3)"
    by fastforce
  show ?thesis
  proof (cases "e1 = None \<and> e2 = None")
    case True
    then have s: "child_step pcfg sub he rest c cs st = Some (e3, ?cs, st3)"
      using r1 r2 r3 by (simp add: child_step_def Let_def)
    have "trees_size ?cs < trees_size (c # cs)" if "pst_Status st1 \<noteq> StatusYellow"
      using less le tree_size_pos [of c] that True idle [of st1] r2 by auto
    moreover have "st3 = st1" "he" if "pst_Status st1 = StatusYellow" "pst_Status st \<noteq> StatusYellow"
      using idle [of st1] r1 r2 r3 that by (auto split: if_splits)
    ultimately show ?thesis using s le by (cases "pst_Status st1 = StatusYellow") auto
  next
    case False
    then show ?thesis using r1 r2 le by (cases e1; cases e2) (auto simp: child_step_def)
  qed
qed

lemma runFixtTree_idle:
  "ft_Empty t \<or> pst_Status st = StatusYellow \<Longrightarrow> 0 < n \<Longrightarrow> runFixtTree n pcfg t st = Some (None, t, st)"
  by (cases n) auto

lemma run_children_idle:
  "pst_Status st = StatusYellow \<or> cs = [] \<Longrightarrow> 0 < n \<Longrightarrow> run_children n pcfg he rest cs st = Some (None, cs, st)"
  by (cases n) auto

lemma run_shrinks:
  "(\<forall>t. 2 * tree_size t < n \<longrightarrow> tree_shrinks (runFixtTree n pcfg) t) \<and>
   (\<forall>cs. 2 * trees_size cs + 1 < n \<longrightarrow> children_shrink (run_children n pcfg) cs)"
proof (induction n)
  case (Suc n)
  then have IHt: "\<And>t. 2 * tree_size t < n \<Longrightarrow> tree_shrinks (runFixtTree n pcfg) t"
    and IHc: "\<And>cs. 2 * trees_size cs + 1 < n \<Longrightarrow> children_shrink (run_children n pcfg) cs" by blast+
  have "tree_shrinks (runFixtTree (Suc n) pcfg) t" if "2 * tree_size t < Suc n" for t
    unfolding tree_shrinks_def
  proof
    fix st :: "'a pst"
    let ?g = "tree_scope pcfg (tree_round pcfg (run_children n pcfg))"
    have "2 * trees_size (ft_children t) + 1 < n" using that by (cases t) simp
    then have "tree_shrinks ?g t" using IHc by (blast intro: tree_scope_shrinks tree_round_shrinks)
    then obtain e t1 st1 where g: "?g t st = Some (e, t1, st1)" "tree_size t1 \<le> tree_size t"
      "e = None \<and> \<not> ft_Empty t \<and> pst_Status st \<noteq> StatusYellow \<longrightarrow> tree_size t1 < tree_size t"
      unfolding tree_shrinks_def by blast
    show "\<exists>e t' st'. runFixtTree (Suc n) pcfg t st = Some (e, t', st') \<and> tree_size t' \<le> tree_size t \<and>
       (e = None \<and> \<not> ft_Empty t \<and> pst_Status st \<noteq> StatusYellow \<longrightarrow> tree_size t' < tree_size t)"
    proof (cases "\<not> ft_Empty t \<and> pst_Status st \<noteq> StatusYellow \<and> e = None")
      case True
      with g have l: "tree_size t1 < tree_size t" by simp
      then have "tree_shrinks (runFixtTree n pcfg) t1" using IHt that by simp
      then obtain e2 t2 st2 where "runFixtTree n pcfg t1 st1 = Some (e2, t2, st2)" "tree_size t2 \<le> tree_size t1"
        unfolding tree_shrinks_def by blast
      then show ?thesis using True g(1) l by auto
    next
      case False
      then show ?thesis using g by (cases e) auto
    qed
  qed
  moreover have "children_shrink (run_children (Suc n) pcfg) cs" if "2 * trees_size cs + 1 < Suc n" for cs
    unfolding children_shrink_def
  proof (intro allI)
    fix he rest and st :: "'a pst"
    show "\<exists>e cs' st'. run_children (Suc n) pcfg he rest cs st = Some (e, cs', st') \<and> trees_size cs' \<le> trees_size cs \<and>
     (e = None \<and> cs \<noteq> [] \<and> pst_Status st \<noteq> StatusYellow \<and> \<not> he \<longrightarrow> trees_size cs' < trees_size cs)"
    proof (cases "pst_Status st = StatusYellow \<or> cs = []")
      case False
      then obtain c cs0 where cs: "cs = c # cs0" by (cases cs) auto
      have n: "2 * tree_size c < n" "0 < n" using that by (auto simp: cs)
      obtain e1 cs1 st1 where g: "child_step pcfg (runFixtTree n pcfg) he rest c cs0 st = Some (e1, cs1, st1)"
        "trees_size cs1 \<le> trees_size cs"
        "e1 = None \<longrightarrow> trees_size cs1 < trees_size cs \<or> he \<and> pst_Status st1 = StatusYellow"
        using child_step_shrinks [OF IHt [OF n(1)] runFixtTree_idle [OF _ n(2)], of pcfg he rest cs0 st] False
        unfolding cs by blast
      show ?thesis
      proof (cases "e1 = None \<and> trees_size cs1 < trees_size cs")
        case True
        then have "children_shrink (run_children n pcfg) cs1" using IHc that by simp
        then obtain e2 cs2 st2 where "run_children n pcfg he rest cs1 st1 = Some (e2, cs2, st2)"
          "trees_size cs2 \<le> trees_size cs1" unfolding children_shrink_def by blast
        then show ?thesis using True False g(1) cs by auto
      next
        case no: False
        then show ?thesis using g False cs run_children_idle [OF _ n(2), of st1 cs1 pcfg he rest]
          by (cases e1) auto
      qed
    qed auto
  qed
  ultimately show ?case by blast
qed simp

lemma tree_fuel_enough: "\<exists>e t' st'. runFixtTree (tree_fuel t) pcfg t st = Some (e, t', st')"
  using run_shrinks [of "tree_fuel t" pcfg] unfolding tree_shrinks_def tree_fuel_def by fastforce

lemma fp_run_total: "\<exists>e m' s'. fp_run pcfg p m s = Some (e, m', s')"
proof -
  have go: "\<exists>e m' s'. map_option (\<lambda>(e, t, st). (e, pmgr st, psys st)) (runFixtTree (tree_fuel (fpTree p)) pcfg (fpTree p) st) =
    Some (e, m', s')" for st :: "'a pst"
    using tree_fuel_enough [of "fpTree p" pcfg st] by auto
  show ?thesis unfolding fp_run_def Let_def using go by (auto split: prod.split sum.split)
qed

lemma plan_run_total: "\<exists>e s'. plan_run pcfg p s = Some (e, s')"
proof (cases "newDownloader (pDownloader pcfg) (pClientErr pcfg) (pDataDir pcfg) (pArtifactsURL pcfg) (world s)")
  case (Inr m)
  obtain m1 w1 where b: "BeforeRun (pDownloader pcfg) (entitiesToRun p) m (world s) = (m1, w1)" by fastforce
  obtain e m3 s3 where f: "fp_run pcfg (plFixtPlan p) m1
      (foldl (\<lambda>s sk. reportSkippedTest pcfg sk s) (s\<lparr>world := w1\<rparr>) (plSkips p)) = Some (e, m3, s3)"
    using fp_run_total by blast
  obtain e4 m4 s4 where "pps_run pcfg (plPrePlans p) m3 s3 = (e4, m4, s4)" by (metis prod_cases3)
  then show ?thesis using Inr b f by (cases e) (auto simp: plan_run_def)
qed (simp add: plan_run_def)



end
