(* ===== verification/PlanSpec.thy ===== *)
theory PlanSpec
  imports PlanRun
begin

text \<open>
  What running a plan guarantees.  The first part specifies running one test on an internal fixture
  stack.  The locale \<open>planner_stack\<close> is the contract between the loops over fixture trees and the
  fixture stack: an invariant, the fixtures on the stack, whether the stack may run another test, and
  what pushing, popping, resetting and running a test do to them.  The lemmas on the loops are proved
  in it, and it is interpreted on the internal stack of a local bundle.  The last part composes planning,
  dependency checks, downloads, the fixture stack and the output stream to properties of \<open>RunTests\<close>.
\<close>

subsection \<open>One test\<close>

definition tests_closed :: "Stream \<Rightarrow> bool" where
  "tests_closed sn = (\<forall>e. EType e = TEST \<longrightarrow> EName e \<noteq> [] \<longrightarrow> session e (sent sn) = Some False)"

lemma test_proto_simps [simp]:
  "EType (test_EntityProto t) = TEST" "EName (test_EntityProto t) = tName t" "EPackage (test_EntityProto t) = tPkg t"
  "EFixture (test_EntityProto t) = tFixture t" "EDataFiles (test_EntityProto t) = tData t"
  by (simp_all add: test_EntityProto_def)

lemma tr_report_ok:
  assumes "trun_ok tr"
  shows "stream_open (tout (tr_report rs tr)) (out (tsys (tr_report rs tr)))" "trun_le tr (tr_report rs tr)"
    "trun_ok (tr_report rs tr)" "errs (tout (tr_report rs tr)) = errs (tout tr) @ concat (map report_error rs)"
    "condition (tr_report rs tr) = condition tr" "extends (out (tsys tr)) (out (tsys (tr_report rs tr)))"
  using assms apply_reports_open [of "(tout tr, out (tsys tr))" rs] apply_reports_trace [of "(tout tr, out (tsys tr))" FIXTURE rs]
    apply_reports_extends [of "(tout tr, out (tsys tr))" rs] starts_apply_reports [of rs "(tout tr, out (tsys tr))"]
  by (auto simp: tr_report_def trun_ok_def trun_le_def Let_def simp del: starts_apply_reports split: prod.splits)

lemma dumpGoroutines_ok:
  assumes "trun_ok tr"
  shows "trun_ok (dumpGoroutines pcfg tr)" "trun_le tr (dumpGoroutines pcfg tr)"
    "extends (out (tsys tr)) (out (tsys (dumpGoroutines pcfg tr)))"
  using tr_report_ok [OF assms] by (auto simp: dumpGoroutines_def Let_def split: prod.splits)

lemma prepare_pre_ok:
  assumes "prepare_pre pcfg t rcfg tr = (r, tr')" and "trun_ok tr"
  shows "trun_ok tr' \<and> trun_le tr tr' \<and> no_bug r"
proof (cases "tPre t = None \<or> condition tr")
  case True
  then show ?thesis using assms by (auto simp: prepare_pre_def split: option.splits)
next
  case False
  then obtain pre where pre: "tPre t = Some pre" by auto
  obtain r1 tr1 where u: "run_test_user codeName (pcTimeout pre) (GracePeriod pcfg) preFailPrefix
      (pre_code (preparing (pcString pre)) (pcPrepare pre rcfg)) tr = (r1, tr1)" by fastforce
  show ?thesis using run_test_user_ok [OF u assms(2)] assms(1) False
    by (cases "sc_err r1") (auto simp: prepare_pre_def pre u no_bug_def)
qed

lemma run_func_ok:
  assumes "run_func pcfg t rcfg pv ps tr = (e, tr')" and "trun_ok tr"
  shows "trun_ok tr' \<and> trun_le tr tr' \<and> bugfree e"
proof (cases "condition tr")
  case False
  obtain r1 tr1 where u: "run_test_user codeName (tTimeout t) (timeoutOrDefault (tExitTimeout t) (GracePeriod pcfg)) []
      (tFunc t rcfg pv ps) tr = (r1, tr1)" by fastforce
  show ?thesis using run_test_user_ok [OF u assms(2)] assms(1) False by (simp add: run_func_def u)
qed (use assms in \<open>simp add: run_func_def\<close>)

lemma close_pre_ok:
  assumes "close_pre pcfg close t rcfg tr = (e, tr')" and "trun_ok tr" and "close \<longrightarrow> tPre t \<noteq> None"
  shows "trun_ok tr' \<and> trun_le tr tr' \<and> bugfree e"
proof (cases "tPre t")
  case (Some pre)
  obtain r1 tr1 where u: "run_test_user codeName (pcTimeout pre) (GracePeriod pcfg) preFailPrefix
      (pre_code (closing (pcString pre)) (pcClose pre rcfg)) tr = (r1, tr1)" by fastforce
  show ?thesis using run_test_user_ok [OF u assms(2)] assms(1,2) Some
    by (cases close) (auto simp: close_pre_def u)
qed (use assms in \<open>auto simp: close_pre_def\<close>)

lemma run_with_hooks_ok:
  assumes "run_with_hooks pcfg t rcfg pv ps (PInternal ist) tr = (e, tr')" and ok: "trun_ok tr"
    and green: "is_Status ist = StatusGreen"
  shows "trun_ok tr' \<and> trun_le tr tr' \<and> bugfree e"
proof -
  have gs: "\<forall>f\<in>set (stack ist). status f = StatusGreen"
    using green by (simp add: is_Status_def first_not_green_Green)
  obtain r1 tr1 where p: "pre_tests (FixtureConfig pcfg) (newRuntimeConfig (FixtureConfig pcfg) ist (rOutDir rcfg))
      (tName t) (stack ist) tr = (r1, tr1)" by fastforce
  note p1 = pre_tests_spec [OF p ok gs]
  show ?thesis
  proof (cases r1)
    case (Inl e1)
    then show ?thesis using assms(1) p p1 green by (auto simp: run_with_hooks_def is_PreTest_def no_bug_def)
  next
    case (Inr hooks)
    obtain e2 tr2 where f: "run_func pcfg t rcfg pv ps tr1 = (e2, tr2)" by fastforce
    note f1 = run_func_ok [OF f] p1
    show ?thesis
    proof (cases e2)
      case (Some e')
      then show ?thesis using assms(1) p f f1 green Inr
        by (auto simp: run_with_hooks_def is_PreTest_def intro: trun_le_trans)
    next
      case None
      then have q: "post_tests (FixtureConfig pcfg) (rev (zip (stack ist) hooks)) tr2 = (e, tr')"
        using assms(1) p f green Inr by (simp add: run_with_hooks_def is_PreTest_def is_PostTest_def)
      have "\<forall>p\<in>set (rev (zip (stack ist) hooks)). status (fst p) = StatusGreen"
        using gs by (auto dest: set_zip_leftD)
      from post_tests_spec [OF q _ this] show ?thesis using f1 by (auto intro: trun_le_trans)
    qed
  qed
qed

lemma runTestWithConfig_ok:
  assumes r: "runTestWithConfig pcfg close t od ps (PInternal ist) tr = (e, tr')" and ok: "trun_ok tr"
    and green: "is_Status ist = StatusGreen" and close: "close \<longrightarrow> tPre t \<noteq> None"
  shows "trun_ok tr' \<and> trun_le tr tr' \<and> bugfree e"
proof -
  let ?rc = "test_rcfg pcfg t od (PInternal ist)"
  obtain r1 tr1 where u1: "run_test_user codeName preTestTimeout (GracePeriod pcfg) [] (pre_test_func pcfg t ?rc) tr = (r1, tr1)"
    by fastforce
  obtain r2 tr2 where u2: "prepare_pre pcfg t ?rc tr1 = (r2, tr2)" by fastforce
  note o1 = run_test_user_ok [OF u1 ok]
  note o2 = prepare_pre_ok [OF u2 o1(1)]
  show ?thesis
  proof (cases "sc_err r1")
    case (Some e1)
    then show ?thesis using r u1 o1 by (simp add: runTestWithConfig_def Let_def)
  next
    case n1: None
    show ?thesis
    proof (cases r2)
      case (Inl e2)
      then show ?thesis using r u1 u2 n1 o1 o2
        by (auto simp: runTestWithConfig_def Let_def no_bug_def intro: trun_le_trans)
    next
      case (Inr pv)
      obtain e3 tr3 where u3: "run_with_hooks pcfg t ?rc pv ps (PInternal ist) tr2 = (e3, tr3)" by fastforce
      obtain e4 tr4 where u4: "close_pre pcfg close t ?rc tr3 = (e4, tr4)" by fastforce
      have o3: "trun_ok tr3" "trun_le tr tr3" "bugfree e3"
        using run_with_hooks_ok [OF u3 _ green] o1 o2 by (auto intro: trun_le_trans)
      have o4: "trun_ok tr4" "trun_le tr tr4" "bugfree e4"
        using close_pre_ok [OF u4 o3(1) close] o3(2) by (auto intro: trun_le_trans)
      show ?thesis
      proof (cases "e3 = None \<and> e4 = None \<and> (\<exists>post. sc_ret r1 = Some (Some post))")
        case True
        then obtain post where post: "sc_ret r1 = Some (Some post)" by blast
        obtain r5 tr5 where u5: "run_test_user codeName postTestTimeout (GracePeriod pcfg) [] post tr4 = (r5, tr5)" by fastforce
        show ?thesis using run_test_user_ok [OF u5 o4(1)] o4(2) r u1 u2 u3 u4 u5 n1 Inr True post
          by (auto simp: runTestWithConfig_def Let_def intro: trun_le_trans)
      next
        case False
        then show ?thesis using r u1 u2 u3 u4 n1 Inr o3 o4
          by (auto simp: runTestWithConfig_def Let_def split: option.splits)
      qed
    qed
  qed
qed


text \<open>The state of a local bundle between two steps of the loops.\<close>

definition pinv :: "'w pst \<Rightarrow> bool" where
  "pinv st = (case pstk st of
      PInternal ist \<Rightarrow> stack_inv (out (psys st)) ist \<and> tests_closed (out (psys st)) \<and> (is_Status ist = StatusYellow \<longrightarrow> \<not> dirty ist)
    | PCombined c \<Rightarrow> False)"

definition pclean :: "'w pst \<Rightarrow> bool" where
  "pclean st = (case pstk st of PInternal ist \<Rightarrow> \<not> dirty ist | PCombined c \<Rightarrow> False)"

definition pfixts :: "'w pst \<Rightarrow> string list" where
  "pfixts st = (case pstk st of PInternal ist \<Rightarrow> fixt_names ist | PCombined c \<Rightarrow> [])"

abbreviation pstarts :: "'w pst \<Rightarrow> string list" where
  "pstarts st \<equiv> starts (out (psys st))"

lemma pinvE:
  assumes "pinv st"
  obtains ist where "pstk st = PInternal ist" "stack_inv (out (psys st)) ist" "tests_closed (out (psys st))"
    "is_Status ist = StatusYellow \<longrightarrow> \<not> dirty ist"
  using assms by (auto simp: pinv_def split: pstack.splits)

lemma stack_inv_trace:
  assumes "stack_inv sn st" and "trace_of FIXTURE sn' = trace_of FIXTURE sn" shows "stack_inv sn' st"
proof -
  have s: "session e (sent sn') = session e (sent sn)" if "EType e = FIXTURE" for e
    using session_same_trace [of e sn' sn] assms(2) that by simp
  have "fixture_ok sn' f" if "fixture_ok sn f" for f
    using that s [of "proto f"] by (auto simp: fixture_ok_def stream_open_def proto_def)
  then show ?thesis using assms(1) s by (auto simp: stack_inv_def sessions_match_def)
qed

lemma stack_inv_dirty [simp]: "stack_inv sn (st\<lparr>dirty := b\<rparr>) = stack_inv sn st"
  by (simp add: stack_inv_def fixt_names_def is_Status_def is_Errors_def)

definition abandoned :: "goerr \<Rightarrow> PError" where
  "abandoned e = msg_error (err_msg e @ '' (see log for goroutine dump)'')"

lemma tr_report_error:
  assumes "trun_ok tr" and "EName (ei (tout tr)) \<noteq> []"
  shows "EntityError (ei (tout tr)) pe \<in> set (sent (out (tsys (tr_report [RError pe] tr))))"
  using assms by (simp add: tr_report_def trun_ok_def stream_open_def es_defs)

lemma run_marked_ok:
  assumes r: "run_marked pcfg close t od m (PInternal ist) tr = (e, tr')" and ok: "trun_ok tr"
    and ny: "is_Status ist \<noteq> StatusYellow" and close: "close \<longrightarrow> tPre t \<noteq> None"
  shows "trun_ok tr' \<and> trun_le tr tr' \<and> bugfree e \<and> (\<forall>e'. e = Some e' \<longrightarrow> EName (ei (tout tr)) \<noteq> [] \<longrightarrow>
    EntityError (ei (tout tr)) (abandoned e') \<in> set (sent (out (tsys tr'))))"
proof (cases "is_Status ist")
  case StatusRed
  then show ?thesis using r tr_report_ok [OF ok] by (auto simp: run_marked_def)
next
  case StatusGreen
  obtain e1 tr1 where c: "runTestWithConfig pcfg close t od (Purgeable (dlEnv (pDownloader pcfg)) m (world (tsys tr)))
      (PInternal ist) tr = (e1, tr1)" by fastforce
  note c1 = runTestWithConfig_ok [OF c ok StatusGreen close]
  show ?thesis
  proof (cases e1)
    case None
    then show ?thesis using r c c1 StatusGreen by (simp add: run_marked_def)
  next
    case (Some e')
    let ?tr = "tr_report [RError (abandoned e')] tr1"
    note t1 = tr_report_ok [of tr1 "[RError (abandoned e')]"]
    note t2 = dumpGoroutines_ok [of ?tr pcfg]
    have res: "e = Some e'" "tr' = dumpGoroutines pcfg ?tr" using r c Some StatusGreen
      by (simp_all add: run_marked_def abandoned_def)
    have ei: "ei (tout tr1) = ei (tout tr)" using c1 by (simp add: trun_le_def)
    have "EntityError (ei (tout tr)) (abandoned e') \<in> set (sent (out (tsys tr')))" if "EName (ei (tout tr)) \<noteq> []"
      using extends_mem [OF t2(3)] tr_report_error [of tr1 "abandoned e'"] c1 t1 that ei by (simp add: res)
    then show ?thesis using t1 t2 c1 Some res by (auto intro: trun_le_trans)
  qed
qed (use ny in simp)

lemma runTest_cases:
  assumes r: "runTest pcfg close t st = (e, st')" and st: "pstk st = PInternal ist" and clean: "\<not> dirty ist"
  obtains
    (no_dir) e' w where "CreateOutDir (e_os (pEnv pcfg)) (pOutDir pcfg) (tName t) (world (psys st)) = (Inl e', w)" "e = Some e'"
      "st' = st\<lparr>psys := (psys st)\<lparr>world := w\<rparr>\<rparr>"
  | (run) od m1 w1 tr1 where "run_marked pcfg close t od m1 (PInternal (ist\<lparr>dirty := True\<rparr>))
        \<lparr>tout = NewEntityStream (test_EntityProto t), condition = False,
         tsys = (psys st)\<lparr>world := w1, out := snd (es_start od (NewEntityStream (test_EntityProto t), out (psys st)))\<rparr>\<rparr> = (e, tr1)"
      "psys st' = (tsys tr1)\<lparr>out := snd (es_end [] (tout tr1, out (tsys tr1)))\<rparr>"
      "pstk st' = PInternal (ist\<lparr>dirty := True\<rparr>)"
proof (cases "CreateOutDir (e_os (pEnv pcfg)) (pOutDir pcfg) (tName t) (world (psys st))")
  case (Pair d w)
  show thesis
  proof (cases d)
    case (Inl e')
    then show thesis using r Pair no_dir by (simp add: runTest_def)
  next
    case (Inr od)
    obtain rel m1 w1 where b: "BeforeEntity (pDownloader pcfg) (test_EntityProto t) (pmgr st) w = (rel, m1, w1)"
      by (metis prod_cases3)
    have "fst (es_start od (NewEntityStream (test_EntityProto t), out (psys st))) = NewEntityStream (test_EntityProto t)"
      by (simp add: es_defs)
    then obtain o0 where o0: "es_start od (NewEntityStream (test_EntityProto t), out (psys st)) = (NewEntityStream (test_EntityProto t), o0)"
      by (metis prod.collapse)
    obtain e1 tr1 where m: "run_marked pcfg close t od m1 (PInternal (ist\<lparr>dirty := True\<rparr>))
        \<lparr>tout = NewEntityStream (test_EntityProto t), condition = False, tsys = (psys st)\<lparr>world := w1, out := o0\<rparr>\<rparr> = (e1, tr1)"
      by fastforce
    obtain to2 o2 where e2: "es_end [] (tout tr1, out (tsys tr1)) = (to2, o2)" by fastforce
    have "(e, st') = (e1, \<lparr>psys = (tsys tr1)\<lparr>out := o2\<rparr>, pmgr = release rel m1, pstk = PInternal (ist\<lparr>dirty := True\<rparr>)\<rparr>)"
      using r Pair Inr b o0 m e2 st clean by (simp add: runTest_def is_MarkDirty_def)
    then show thesis using run [of od m1 w1 tr1] m o0 e2 by simp
  qed
qed

lemma runTest_started:
  assumes r: "runTest pcfg close t st = (e, st')" and inv: "pinv st" and clean: "pclean st"
    and ny: "pst_Status st \<noteq> StatusYellow" and n: "tName t \<noteq> []" and close: "close \<longrightarrow> tPre t \<noteq> None"
    and dir: "CreateOutDir (e_os (pEnv pcfg)) (pOutDir pcfg) (tName t) (world (psys st)) = (Inr d, w)"
  shows "bugfree e" "pinv st'" "pfixts st' = pfixts st" "pst_Status st' = pst_Status st" "pstarts st' = pstarts st @ [tName t]"
    "e = Some e' \<Longrightarrow> EntityError (test_EntityProto t) (abandoned e') \<in> set (sent (out (psys st')))"
proof -
  from inv obtain ist where ist: "pstk st = PInternal ist" "stack_inv (out (psys st)) ist" "tests_closed (out (psys st))"
    by (rule pinvE)
  have cl: "\<not> dirty ist" and ny': "is_Status ist \<noteq> StatusYellow" using clean ny ist by (simp_all add: pclean_def)
  from runTest_cases [OF r ist(1) cl] dir obtain od m1 w1 tr1 where
    run: "run_marked pcfg close t od m1 (PInternal (ist\<lparr>dirty := True\<rparr>))
        \<lparr>tout = NewEntityStream (test_EntityProto t), condition = False,
         tsys = (psys st)\<lparr>world := w1, out := snd (es_start od (NewEntityStream (test_EntityProto t), out (psys st)))\<rparr>\<rparr> = (e, tr1)"
      "psys st' = (tsys tr1)\<lparr>out := snd (es_end [] (tout tr1, out (tsys tr1)))\<rparr>"
      "pstk st' = PInternal (ist\<lparr>dirty := True\<rparr>)" by (metis Inl_Inr_False prod.inject)
  let ?es = "NewEntityStream (test_EntityProto t)"
  let ?o0 = "snd (es_start od (?es, out (psys st)))"
  have ses: "session (test_EntityProto t) (sent (out (psys st))) = Some False" using ist(3) n by (simp add: tests_closed_def)
  have es0: "\<not> ended ?es" "ei ?es = test_EntityProto t" by (simp_all add: NewEntityStream_def)
  note s0 = es_start_session [of ?es "out (psys st)", unfolded es0(2), OF es0(1)]
  have ok0: "trun_ok \<lparr>tout = ?es, condition = False, tsys = (psys st)\<lparr>world := w1, out := ?o0\<rparr>\<rparr>"
    using s0(1,3) ses by (simp add: trun_ok_def es0)
  have f0: "trace_of FIXTURE ?o0 = trace_of FIXTURE (out (psys st))"
    using es_step_trace [of "(?es, out (psys st))" FIXTURE "OStart od"] by (simp add: es0)
  have st0: "starts ?o0 = starts (out (psys st)) @ [tName t]" using starts_start [of ?es] es0 n by simp
  have nd: "is_Status (ist\<lparr>dirty := True\<rparr>) \<noteq> StatusYellow" using ny' by (simp add: is_Status_def)
  note m = run_marked_ok [OF run(1) ok0 nd close]
  then have le: "ei (tout tr1) = test_EntityProto t" "same_sessions ?o0 (out (tsys tr1))"
    "trace_of FIXTURE (out (tsys tr1)) = trace_of FIXTURE ?o0" "starts (out (tsys tr1)) = starts ?o0"
    and op: "stream_open (tout tr1) (out (tsys tr1))" by (auto simp: trun_le_def trun_ok_def es0)
  let ?o2 = "snd (es_end [] (tout tr1, out (tsys tr1)))"
  have f2: "trace_of FIXTURE ?o2 = trace_of FIXTURE (out (psys st))"
    using le f0 es_step_trace [of "(tout tr1, out (tsys tr1))" FIXTURE "OEnd []"] by simp
  have "tests_closed ?o2" unfolding tests_closed_def
  proof (intro allI impI)
    fix e' :: Entity assume "EType e' = TEST" "EName e' \<noteq> []"
    then show "session e' (sent ?o2) = Some False"
      using es_end_session(1) [OF op, of e'] s0(2) [of e'] ses ist(3) le(1,2) by (simp add: tests_closed_def same_sessions_def)
  qed
  moreover have "stack_inv ?o2 (ist\<lparr>dirty := True\<rparr>)" using stack_inv_trace [OF ist(2) f2] by simp
  ultimately show "pinv st'" using run nd by (simp add: pinv_def)
  show "pst_Status st' = pst_Status st" using run ist by (simp add: is_Status_def)
  show "pfixts st' = pfixts st" using run ist by (simp add: pfixts_def fixt_names_def)
  show "pstarts st' = pstarts st @ [tName t]"
    using run(2) le(4) st0 starts_end [of "[]" "(tout tr1, out (tsys tr1))"] by (simp del: starts_end)
  show "bugfree e" using m by blast
  assume "e = Some e'"
  then have "EntityError (test_EntityProto t) (abandoned e') \<in> set (sent (out (tsys tr1)))" using m n by (simp add: es0)
  then show "EntityError (test_EntityProto t) (abandoned e') \<in> set (sent (out (psys st')))"
    using run(2) extends_mem [OF es_step_extends [of "(tout tr1, out (tsys tr1))" "OEnd []"]] by simp
qed

lemma runTest_spec:
  assumes r: "runTest pcfg close t st = (e, st')" and inv: "pinv st" and clean: "pclean st"
    and ny: "pst_Status st \<noteq> StatusYellow" and n: "tName t \<noteq> []" and close: "close \<longrightarrow> tPre t \<noteq> None"
  shows "bugfree e \<and> (e = None \<longrightarrow> pinv st' \<and> pfixts st' = pfixts st \<and> pst_Status st' = pst_Status st \<and>
    pstarts st' = pstarts st @ [tName t])"
proof (cases "CreateOutDir (e_os (pEnv pcfg)) (pOutDir pcfg) (tName t) (world (psys st))")
  case (Pair d w)
  show ?thesis
  proof (cases d)
    case (Inl e')
    then show ?thesis using r Pair CreateOutDir_no_bug [of "e_os (pEnv pcfg)" "pOutDir pcfg" "tName t" "world (psys st)"]
      by (auto simp: runTest_def no_bug_def)
  next
    case (Inr od)
    then show ?thesis using runTest_started [OF assms] Pair by simp
  qed
qed

subsection \<open>The contract of the fixture stack\<close>

definition set_world :: "'w \<Rightarrow> Manager \<Rightarrow> 'w pst \<Rightarrow> 'w pst" where
  "set_world w m st = st\<lparr>pmgr := m, psys := (psys st)\<lparr>world := w\<rparr>\<rparr>"

lemma set_world_simps [simp]: "pstk (set_world w m st) = pstk st" "out (psys (set_world w m st)) = out (psys st)"
  by (simp_all add: set_world_def)

fun path_ok :: "string set \<Rightarrow> ('w, 'h) fixtTree \<Rightarrow> bool" where
  "path_ok used (FT f ts es cs) =
     (fName f \<notin> used \<and> es = [] \<and> (\<forall>t\<in>set ts. tName t \<noteq> []) \<and> (\<forall>c\<in>set cs. path_ok (insert (fName f) used) c))"

text \<open>What a step of the loops leaves, where \<open>ns\<close> and \<open>ns'\<close> are the tests that remain to be run: the
  invariant, the fixtures on the stack, and that the tests started and the tests remaining are the same.\<close>

definition round_post ::
  "('w pst \<Rightarrow> bool) \<Rightarrow> ('w pst \<Rightarrow> string list) \<Rightarrow> 'w pst \<Rightarrow> string list \<Rightarrow> 'w pst \<Rightarrow> string list \<Rightarrow> bool" where
  "round_post stinv fixts st ns st' ns' \<longleftrightarrow> stinv st' \<and> fixts st' = fixts st \<and>
     mset (pstarts st') + mset ns' = mset (pstarts st) + mset ns"

lemma mset_account:
  assumes "a + x' = b + x" and "c + y' = a + y" shows "c + (x' + y') = b + (x + y :: 'x multiset)"
proof (rule multiset_eqI)
  fix v
  show "count (c + (x' + y')) v = count (b + (x + y)) v"
    using arg_cong [OF assms(1), of "\<lambda>M. count M v"] arg_cong [OF assms(2), of "\<lambda>M. count M v"] by simp
qed

lemma runFixtTree_done:
  "runFixtTree n pcfg t st = Some (None, t', st') \<Longrightarrow> ft_Empty t' \<or> pst_Status st' = StatusYellow"
proof (induction n arbitrary: t st)
  case (Suc n)
  then show ?case by (auto split: if_splits option.splits)
qed simp

locale planner_stack =
  fixes pcfg :: "('w, 'h) Config"
    and stinv :: "'w pst \<Rightarrow> bool" and clean :: "'w pst \<Rightarrow> bool" and fixts :: "'w pst \<Rightarrow> string list"
  assumes frame: "stinv (set_world w m st) = stinv st" "clean (set_world w m st) = clean st" "fixts (set_world w m st) = fixts st"
    and push: "p_push pcfg f st = (e, st1) \<Longrightarrow> stinv st \<Longrightarrow> fName f \<notin> set (fixts st) \<Longrightarrow> pst_Status st \<noteq> StatusYellow \<Longrightarrow>
      bugfree e \<and> pstarts st1 = pstarts st \<and>
      (e = None \<longrightarrow> stinv st1 \<and> fixts st1 = fixts st @ [fName f] \<and> clean st1 = clean st)"
    and pop: "p_pop pcfg st = (e, st1) \<Longrightarrow> stinv st \<Longrightarrow> fixts st \<noteq> [] \<Longrightarrow>
      bugfree e \<and> pstarts st1 = pstarts st \<and>
      (e = None \<longrightarrow> stinv st1 \<and> fixts st1 = butlast (fixts st) \<and> clean st1 = clean st)"
    and reset: "p_reset pcfg st = (e, st1) \<Longrightarrow> stinv st \<Longrightarrow> pst_Status st \<noteq> StatusYellow \<Longrightarrow>
      bugfree e \<and> pstarts st1 = pstarts st \<and> stinv st1 \<and> fixts st1 = fixts st \<and> clean st1"
    and test: "runTest pcfg close t st = (e, st1) \<Longrightarrow> stinv st \<Longrightarrow> clean st \<Longrightarrow> pst_Status st \<noteq> StatusYellow \<Longrightarrow>
      tName t \<noteq> [] \<Longrightarrow> close \<longrightarrow> tPre t \<noteq> None \<Longrightarrow>
      bugfree e \<and> (e = None \<longrightarrow> stinv st1 \<and> fixts st1 = fixts st \<and> pst_Status st1 = pst_Status st \<and>
        pstarts st1 = pstarts st @ [tName t])"
    and empty: "stinv st \<Longrightarrow> fixts st = [] \<Longrightarrow> pst_Status st \<noteq> StatusYellow"
    and yellow: "stinv st \<Longrightarrow> pst_Status st = StatusYellow \<Longrightarrow> clean st"
begin

lemma frame_mgr: "stinv (st\<lparr>pmgr := m\<rparr>) = stinv st" "clean (st\<lparr>pmgr := m\<rparr>) = clean st" "fixts (st\<lparr>pmgr := m\<rparr>) = fixts st"
  using frame [of "world (psys st)" m st] by (simp_all add: set_world_def)

lemma post_trans:
  "round_post stinv fixts a x b y \<Longrightarrow> round_post stinv fixts b y c z \<Longrightarrow> round_post stinv fixts a x c z"
  by (simp add: round_post_def)

lemma reset_post:
  "p_reset pcfg st = (e, st1) \<Longrightarrow> stinv st \<Longrightarrow> pst_Status st \<noteq> StatusYellow \<Longrightarrow>
   bugfree e \<and> round_post stinv fixts st ns st1 ns \<and> clean st1"
  using reset [of st e st1] by (simp add: round_post_def)

lemma run_tests_spec:
  "run_tests pcfg rest ts st = (e, ts', st') \<Longrightarrow> stinv st \<Longrightarrow> clean st \<Longrightarrow> \<forall>t\<in>set ts. tName t \<noteq> [] \<Longrightarrow>
    bugfree e \<and> (e = None \<longrightarrow> round_post stinv fixts st (map tName ts) st' (map tName ts') \<and> set ts' \<subseteq> set ts \<and> (ts' \<noteq> [] \<or> rest \<longrightarrow> clean st'))"
proof (induction ts arbitrary: st)
  case (Cons t ts)
  show ?case
  proof (cases "pst_Status st = StatusYellow")
    case True
    then show ?thesis using Cons.prems by (auto simp: round_post_def)
  next
    case ny: False
    obtain e1 st1 where r1: "runTest pcfg False t st = (e1, st1)" by fastforce
    have t: "bugfree e1"
      "e1 = None \<Longrightarrow> round_post stinv fixts st (map tName (t # ts)) st1 (map tName ts) \<and> pst_Status st1 \<noteq> StatusYellow"
      using test [OF r1 Cons.prems(2,3) ny] Cons.prems(4) ny by (auto simp: round_post_def)
    show ?thesis
    proof (cases "e1 = None \<and> (ts \<noteq> [] \<or> rest)")
      case True
      obtain e2 st2 where r2: "p_reset pcfg st1 = (e2, st2)" by fastforce
      have r: "bugfree e2" "round_post stinv fixts st1 (map tName ts) st2 (map tName ts)" "clean st2" "stinv st2"
        using reset_post [OF r2] t True by (auto simp: round_post_def)
      show ?thesis
      proof (cases e2)
        case None
        then have "run_tests pcfg rest ts st2 = (e, ts', st')" using Cons.prems(1) r1 r2 True ny by simp
        from Cons.IH [OF this r(4,3)] Cons.prems(4) show ?thesis using t True r(2) by (auto intro: post_trans)
      next
        case (Some e')
        then show ?thesis using Cons.prems(1) r1 r2 True ny r(1) by auto
      qed
    next
      case False
      then show ?thesis using Cons.prems r1 t ny by (auto split: option.splits)
    qed
  qed
qed (simp add: round_post_def)

text \<open>One round of a tree and one child, given what they call.\<close>

definition children_spec ::
  "(bool \<Rightarrow> bool \<Rightarrow> ('w, 'h) fixtTree list \<Rightarrow> 'w pst \<Rightarrow> ('w, 'h) children_result option) \<Rightarrow> bool" where
  "children_spec f \<longleftrightarrow> (\<forall>rest cs st e cs' st'. f False rest cs st = Some (e, cs', st') \<longrightarrow> stinv st \<longrightarrow>
     (cs \<noteq> [] \<or> rest \<longrightarrow> clean st) \<longrightarrow> (\<forall>c\<in>set cs. path_ok (set (fixts st)) c) \<longrightarrow>
     bugfree e \<and> (e = None \<longrightarrow> round_post stinv fixts st (concat (map tree_names cs)) st' (concat (map tree_names cs')) \<and>
       (\<forall>c\<in>set cs'. path_ok (set (fixts st)) c) \<and> (cs' \<noteq> [] \<or> rest \<longrightarrow> clean st')))"

definition tree_spec :: "(('w, 'h) fixtTree \<Rightarrow> 'w pst \<Rightarrow> ('w, 'h) tree_result option) \<Rightarrow> bool" where
  "tree_spec f \<longleftrightarrow> (\<forall>t st e t' st'. f t st = Some (e, t', st') \<longrightarrow> stinv st \<longrightarrow> (\<not> ft_Empty t \<longrightarrow> clean st) \<longrightarrow>
     path_ok (set (fixts st)) t \<longrightarrow>
     bugfree e \<and> (e = None \<longrightarrow> round_post stinv fixts st (tree_names t) st' (tree_names t') \<and>
       path_ok (set (fixts st)) t' \<and> (\<not> ft_Empty t' \<longrightarrow> clean st')))"

lemma tree_round_spec:
  assumes ch: "children_spec children" and r: "tree_round pcfg children t st = Some (e, t', st')"
    and inv: "stinv st" "clean st" "pst_Status st \<noteq> StatusYellow" and p: "path_ok (set (fixts st)) t"
  shows "bugfree e \<and> (e = None \<longrightarrow> round_post stinv fixts st (tree_names t) st' (tree_names t') \<and>
       path_ok (set (fixts st)) t' \<and> (\<not> ft_Empty t' \<longrightarrow> clean st'))"
proof -
  obtain f ts es cs where t: "t = FT f ts es cs" by (cases t)
  have p': "fName f \<notin> set (fixts st)" "es = []" "\<forall>t\<in>set ts. tName t \<noteq> []" "\<forall>c\<in>set cs. path_ok (insert (fName f) (set (fixts st))) c"
    using p by (simp_all add: t)
  obtain e1 st1 where r1: "p_push pcfg f st = (e1, st1)" by fastforce
  note s1 = push [OF r1 inv(1) p'(1) inv(3)]
  show ?thesis
  proof (cases e1)
    case (Some e')
    then show ?thesis using r r1 s1 by (auto simp: tree_round_def t)
  next
    case n1: None
    then have i1: "stinv st1" "clean st1" "fixts st1 = fixts st @ [fName f]" "pstarts st1 = pstarts st" using s1 inv by auto
    obtain e2 ts1 st2 where r2: "run_tests pcfg (es \<noteq> [] \<or> cs \<noteq> []) ts st1 = (e2, ts1, st2)" by (metis prod_cases3)
    note s2 = run_tests_spec [OF r2 i1(1,2) p'(3)]
    show ?thesis
    proof (cases e2)
      case (Some e')
      then show ?thesis using r r1 r2 n1 s2 by (auto simp: tree_round_def t)
    next
      case n2: None
      then have i2: "round_post stinv fixts st1 (map tName ts) st2 (map tName ts1)" "set ts1 \<subseteq> set ts"
        "ts1 \<noteq> [] \<or> cs \<noteq> [] \<longrightarrow> clean st2" using s2 p'(2) by auto
      have x: "run_externals pcfg es st2 = (None, [], st2)" using p'(2) by (simp add: run_externals.simps)
      obtain e4 cs1 st4 where r4: "children False (ts1 \<noteq> []) cs st2 = Some (e4, cs1, st4)"
        using r r1 r2 n1 n2 x p'(2) by (auto simp: tree_round_def t split: option.splits)
      have c4: "bugfree e4 \<and> (e4 = None \<longrightarrow> round_post stinv fixts st2 (concat (map tree_names cs)) st4 (concat (map tree_names cs1)) \<and>
       (\<forall>c\<in>set cs1. path_ok (set (fixts st2)) c) \<and> (cs1 \<noteq> [] \<or> ts1 \<noteq> [] \<longrightarrow> clean st4))"
        using ch [unfolded children_spec_def, rule_format, OF r4] i2 p'(4) i1(3) unfolding round_post_def by auto
      show ?thesis
      proof (cases e4)
        case (Some e')
        then show ?thesis using r r1 r2 r4 n1 n2 x p'(2) c4 by (auto simp: tree_round_def t)
      next
        case n4: None
        with c4 have i4: "round_post stinv fixts st2 (concat (map tree_names cs)) st4 (concat (map tree_names cs1))"
          "\<forall>c\<in>set cs1. path_ok (set (fixts st2)) c" "cs1 \<noteq> [] \<or> ts1 \<noteq> [] \<longrightarrow> clean st4" by auto
        obtain e5 st5 where r5: "p_pop pcfg st4 = (e5, st5)" by fastforce
        have res: "e = e5" "t' = FT f ts1 [] cs1" "st' = st5"
          using r r1 r2 r4 r5 n1 n2 n4 x p'(2) by (auto simp: tree_round_def t)
        have f4: "stinv st4" "fixts st4 = fixts st @ [fName f]" using i1 i2 i4 by (auto simp: round_post_def)
        have p4: "\<forall>c\<in>set cs1. path_ok (insert (fName f) (set (fixts st))) c"
          using i4(2) i2(1) i1(3) by (simp add: round_post_def)
        note s5 = pop [OF r5 f4(1)]
        have "mset (pstarts st4) + mset (tree_names t') = mset (pstarts st) + mset (tree_names t)"
          using i1(4) i2(1) i4(1) by (auto simp: round_post_def res t p'(2) intro: mset_account)
        then show ?thesis using s5 f4 i2(2) i4(1,3) p4 p' by (auto simp: res round_post_def ft_Empty_def)
      qed
    qed
  qed
qed

lemma tree_scope_spec:
  assumes ch: "children_spec children" and r: "tree_scope pcfg (tree_round pcfg children) t st = Some (e, t', st')"
    and inv: "stinv st" "clean st" "pst_Status st \<noteq> StatusYellow" and p: "path_ok (set (fixts st)) t"
  shows "bugfree e \<and> (e = None \<longrightarrow> round_post stinv fixts st (tree_names t) st' (tree_names t') \<and>
       path_ok (set (fixts st)) t' \<and> (\<not> ft_Empty t' \<longrightarrow> clean st'))"
proof -
  obtain rel m1 w1 where b: "BeforeEntity (pDownloader pcfg) (fixt_EntityProto (ft_fixt t)) (pmgr st) (world (psys st)) = (rel, m1, w1)"
    by (metis prod_cases3)
  let ?st = "set_world w1 m1 st"
  from r obtain st1 where r1: "tree_round pcfg children t ?st = Some (e, t', st1)"
    and st': "st' = st1\<lparr>pmgr := release rel (pmgr st1)\<rparr>"
    by (auto simp: tree_scope_def b set_world_def)
  show ?thesis using tree_round_spec [OF ch r1] inv p frame frame_mgr by (auto simp: st' round_post_def)
qed

lemma child_step_spec:
  assumes sub: "tree_spec sub" and r: "child_step pcfg sub False rest c cs st = Some (e, cs', st')"
    and inv: "stinv st" "clean st" and p: "\<forall>x\<in>set (c # cs). path_ok (set (fixts st)) x"
  shows "bugfree e \<and> (e = None \<longrightarrow> round_post stinv fixts st (concat (map tree_names (c # cs))) st' (concat (map tree_names cs')) \<and>
       (\<forall>c\<in>set cs'. path_ok (set (fixts st)) c) \<and> (cs' \<noteq> [] \<or> rest \<longrightarrow> clean st'))"
proof -
  from r obtain e1 c1 st1 where s1: "sub c st = Some (e1, c1, st1)" by (auto simp: child_step_def split: option.splits)
  have c1: "bugfree e1 \<and> (e1 = None \<longrightarrow> round_post stinv fixts st (tree_names c) st1 (tree_names c1) \<and>
       path_ok (set (fixts st)) c1 \<and> (\<not> ft_Empty c1 \<longrightarrow> clean st1))"
    using sub s1 inv p unfolding tree_spec_def by (auto dest: spec)
  show ?thesis
  proof (cases e1)
    case (Some e')
    then show ?thesis using r s1 c1 by (auto simp: child_step_def)
  next
    case None
    with c1 have i1: "round_post stinv fixts st (tree_names c) st1 (tree_names c1)" "path_ok (set (fixts st)) c1"
      "stinv st1" by (auto simp: round_post_def)
    let ?cs = "if ft_Empty c1 then cs else c1 # cs"
    obtain e2 st2 where r2: "(if pst_Status st1 \<noteq> StatusYellow \<and> (?cs \<noteq> [] \<or> rest) then p_reset pcfg st1 else (None, st1)) = (e2, st2)"
      by fastforce
    have res: "e = e2" "cs' = ?cs" "st' = st2" using r s1 r2 None by (auto simp: child_step_def Let_def)
    have n: "mset (concat (map tree_names ?cs)) = mset (tree_names c1) + mset (concat (map tree_names cs))"
      by (cases c1) (auto simp: ft_Empty_def)
    have "bugfree e2 \<and> round_post stinv fixts st1 x st2 x \<and> (?cs \<noteq> [] \<or> rest \<longrightarrow> clean st2)" for x
    proof (cases "pst_Status st1 \<noteq> StatusYellow \<and> (?cs \<noteq> [] \<or> rest)")
      case True
      then show ?thesis using r2 reset_post [of st1 e2 st2 x] i1(3) by auto
    next
      case False
      then have "e2 = None" "st2 = st1" using r2 by auto
      then show ?thesis using False yellow [OF i1(3)] i1(3) by (auto simp: round_post_def)
    qed
    then show ?thesis using i1 p n by (auto simp: res round_post_def)
  qed
qed

lemma run_spec: "tree_spec (runFixtTree n pcfg) \<and> children_spec (run_children n pcfg)"
proof (induction n)
  case 0
  then show ?case by (simp add: tree_spec_def children_spec_def)
next
  case (Suc n)
  have "tree_spec (runFixtTree (Suc n) pcfg)"
    unfolding tree_spec_def
  proof (intro allI impI)
    fix t st e t' st'
    assume r: "runFixtTree (Suc n) pcfg t st = Some (e, t', st')" and inv: "stinv st" and cl: "\<not> ft_Empty t \<longrightarrow> clean st"
      and p: "path_ok (set (fixts st)) t"
    let ?goal = "bugfree e \<and> (e = None \<longrightarrow> round_post stinv fixts st (tree_names t) st' (tree_names t') \<and>
       path_ok (set (fixts st)) t' \<and> (\<not> ft_Empty t' \<longrightarrow> clean st'))"
    show ?goal
    proof (cases "ft_Empty t \<or> pst_Status st = StatusYellow")
      case True
      then show ?thesis using r inv p cl by (auto simp: round_post_def)
    next
      case False
      let ?g = "tree_scope pcfg (tree_round pcfg (run_children n pcfg))"
      from False r obtain e1 t1 st1 where g: "?g t st = Some (e1, t1, st1)" by (auto split: option.splits)
      note s1 = tree_scope_spec [OF conjunct2 [OF Suc.IH] g inv _ _ p]
      show ?thesis
      proof (cases e1)
        case None
        then have r1: "runFixtTree n pcfg t1 st1 = Some (e, t', st')" using r g False by simp
        have i: "round_post stinv fixts st (tree_names t) st1 (tree_names t1)" "path_ok (set (fixts st)) t1" "\<not> ft_Empty t1 \<longrightarrow> clean st1"
          using s1 None False cl by auto
        then have "fixts st1 = fixts st" "stinv st1" by (auto simp: round_post_def)
        then show ?thesis using conjunct1 [OF Suc.IH] r1 i unfolding tree_spec_def by (metis post_trans)
      next
        case (Some e')
        then show ?thesis using r g s1 False cl by auto
      qed
    qed
  qed
  moreover have "children_spec (run_children (Suc n) pcfg)"
    unfolding children_spec_def
  proof (intro allI impI)
    fix rest cs st e cs' st'
    assume r: "run_children (Suc n) pcfg False rest cs st = Some (e, cs', st')" and inv: "stinv st"
      and cl: "cs \<noteq> [] \<or> rest \<longrightarrow> clean st" and p: "\<forall>c\<in>set cs. path_ok (set (fixts st)) c"
    let ?goal = "bugfree e \<and> (e = None \<longrightarrow> round_post stinv fixts st (concat (map tree_names cs)) st' (concat (map tree_names cs')) \<and>
       (\<forall>c\<in>set cs'. path_ok (set (fixts st)) c) \<and> (cs' \<noteq> [] \<or> rest \<longrightarrow> clean st'))"
    show ?goal
    proof (cases "pst_Status st = StatusYellow \<or> cs = []")
      case True
      then show ?thesis using r inv p cl by (auto simp: round_post_def)
    next
      case False
      then obtain c cs0 where cs: "cs = c # cs0" by (cases cs) auto
      from False r obtain e1 cs1 st1 where g: "child_step pcfg (runFixtTree n pcfg) False rest c cs0 st = Some (e1, cs1, st1)"
        by (auto simp: cs split: option.splits)
      note s1 = child_step_spec [OF conjunct1 [OF Suc.IH] g inv]
      show ?thesis
      proof (cases e1)
        case None
        then have r1: "run_children n pcfg False rest cs1 st1 = Some (e, cs', st')" using r g False by (simp add: cs)
        have i: "round_post stinv fixts st (concat (map tree_names cs)) st1 (concat (map tree_names cs1))"
          "\<forall>c\<in>set cs1. path_ok (set (fixts st)) c" "cs1 \<noteq> [] \<or> rest \<longrightarrow> clean st1"
          using s1 None cl p by (auto simp: cs)
        then have f: "fixts st1 = fixts st" "stinv st1" by (auto simp: round_post_def)
        have "bugfree e \<and> (e = None \<longrightarrow> round_post stinv fixts st1 (concat (map tree_names cs1)) st' (concat (map tree_names cs')) \<and>
           (\<forall>c\<in>set cs'. path_ok (set (fixts st)) c) \<and> (cs' \<noteq> [] \<or> rest \<longrightarrow> clean st'))"
          using conjunct2 [OF Suc.IH, unfolded children_spec_def, rule_format, OF r1 f(2)] i f by auto
        then show ?thesis using i(1) post_trans by blast
      next
        case (Some e')
        then show ?thesis using r g s1 False cl p by (auto simp: cs)
      qed
    qed
  qed
  ultimately show ?case by blast
qed

text \<open>A run of a tree on an empty stack that returns without an error has started all its tests.\<close>

lemma runFixtTree_complete:
  assumes "runFixtTree n pcfg t st = Some (e, t', st')" and inv: "stinv st" "clean st" "fixts st = []" and "path_ok {} t"
  shows "bugfree e \<and> (e = None \<longrightarrow> stinv st' \<and> fixts st' = [] \<and> mset (pstarts st') = mset (pstarts st) + mset (tree_names t))"
proof -
  have s: "bugfree e \<and> (e = None \<longrightarrow> round_post stinv fixts st (tree_names t) st' (tree_names t'))"
    using conjunct1 [OF run_spec, unfolded tree_spec_def, rule_format, OF assms(1) inv(1)] inv assms(5) by auto
  have "tree_names t' = []" if "e = None"
  proof -
    have "stinv st' \<and> fixts st' = []" using s inv(3) that by (simp add: round_post_def)
    then have "ft_Empty t'" using empty [of st'] runFixtTree_done [of n pcfg t st t' st'] assms(1) that by blast
    then show ?thesis by (cases t') (simp add: ft_Empty_def)
  qed
  then show ?thesis using s inv(3) by (auto simp: round_post_def)
qed

lemma pp_run_tests_spec:
  "pp_run_tests pcfg hasPre ts st = (e, st') \<Longrightarrow> stinv st \<Longrightarrow> clean st \<Longrightarrow> fixts st = [] \<Longrightarrow>
   \<forall>t\<in>set ts. tName t \<noteq> [] \<and> (hasPre \<longrightarrow> tPre t \<noteq> None) \<Longrightarrow>
   bugfree e \<and> (e = None \<longrightarrow> stinv st' \<and> fixts st' = [] \<and> pstarts st' = pstarts st @ map tName ts)"
proof (induction ts arbitrary: st)
  case (Cons t ts)
  obtain e1 st1 where r1: "runTest pcfg (hasPre \<and> ts = []) t st = (e1, st1)" by fastforce
  note t1 = test [OF r1 Cons.prems(2,3) empty [OF Cons.prems(2,4)]]
  show ?case
  proof (cases "e1 = None \<and> ts \<noteq> []")
    case True
    obtain e2 st2 where r2: "p_reset pcfg st1 = (e2, st2)" by fastforce
    have i1: "stinv st1" "fixts st1 = []" "pstarts st1 = pstarts st @ [tName t]" using t1 True Cons.prems by auto
    note s2 = reset [OF r2 i1(1) empty [OF i1(1,2)]]
    show ?thesis
    proof (cases e2)
      case None
      then have "pp_run_tests pcfg hasPre ts st2 = (e, st')" using Cons.prems(1) r1 r2 True by simp
      from Cons.IH [OF this] show ?thesis using s2 i1 Cons.prems(5) by auto
    next
      case (Some e')
      then show ?thesis using Cons.prems(1) r1 r2 True s2 by auto
    qed
  next
    case False
    then show ?thesis using Cons.prems r1 t1 by (auto split: option.splits)
  qed
qed simp

end

subsection \<open>The internal stack keeps the contract\<close>

lemma pop_yellow:
  "is_Status (st\<lparr>stack := butlast (stack st)\<rparr>) = StatusYellow \<Longrightarrow> is_Status st = StatusYellow"
proof (cases "stack st" rule: rev_cases)
  case (snoc fs f)
  then show "is_Status (st\<lparr>stack := butlast (stack st)\<rparr>) = StatusYellow \<Longrightarrow> ?thesis"
    by (simp add: is_Status_def first_not_green_append split: if_splits)
qed (simp add: is_Status_def)

lemma tests_closed_trace: "trace_of TEST sn' = trace_of TEST sn \<Longrightarrow> tests_closed sn \<Longrightarrow> tests_closed sn'"
  using session_same_trace [of _ sn' sn] by (simp add: tests_closed_def)

interpretation local_stack: planner_stack pcfg pinv pclean pfixts
  for pcfg :: "('w, 'h) Config"
proof (unfold_locales, goal_cases)
  case (1 w m st)
  then show ?case by (simp add: pinv_def split: pstack.split)
next
  case (2 w m st)
  then show ?case by (simp add: pclean_def)
next
  case (3 w m st)
  then show ?case by (simp add: pfixts_def)
next
  case (4 f st e st1)
  from 4(2) obtain ist where ist: "pstk st = PInternal ist" "stack_inv (out (psys st)) ist" "tests_closed (out (psys st))"
    "is_Status ist = StatusYellow \<longrightarrow> \<not> dirty ist" by (rule pinvE)
  obtain ist' s' where p: "is_Push (e_os (pEnv pcfg)) (FixtureConfig pcfg) f ist (psys st) = (e, ist', s')"
    and st1: "st1 = st\<lparr>pstk := PInternal ist', psys := s'\<rparr>" using 4(1) ist(1) by (auto simp: p_push_def split: prod.splits)
  have "fName f \<notin> set (fixt_names ist)" "is_Status ist \<noteq> StatusYellow" using 4(3,4) ist(1) by (simp_all add: pfixts_def)
  note s = is_Push_spec [OF p ist(2) this]
  have "fixt_names ist' = fixt_names ist @ [fName f]" if "map fixt (stack ist') = map fixt (stack ist) @ [f]"
    using arg_cong [OF that, of "map fName"] by (simp add: fixt_names_def o_def)
  then show ?case using s ist starts_trace [OF s(2)] tests_closed_trace [OF s(2)]
    by (auto simp: st1 pinv_def pclean_def pfixts_def)
next
  case (5 st e st1)
  from 5(2) obtain ist where ist: "pstk st = PInternal ist" "stack_inv (out (psys st)) ist" "tests_closed (out (psys st))"
    "is_Status ist = StatusYellow \<longrightarrow> \<not> dirty ist" by (rule pinvE)
  obtain ist' s' where p: "is_Pop (FixtureConfig pcfg) ist (psys st) = (e, ist', s')"
    and st1: "st1 = st\<lparr>pstk := PInternal ist', psys := s'\<rparr>" using 5(1) ist(1) by (auto simp: p_pop_def split: prod.splits)
  have ne: "stack ist \<noteq> []" using 5(3) ist(1) by (auto simp: pfixts_def fixt_names_def)
  note s = is_Pop_spec [OF p ist(2) ne]
  have "fixt_names ist' = butlast (fixt_names ist)" using s(3) by (simp add: fixt_names_def map_butlast)
  then show ?case using s ist pop_yellow [of ist] starts_trace [OF s(2)] tests_closed_trace [OF s(2)]
    by (auto simp: st1 pinv_def pclean_def pfixts_def)
next
  case (6 st e st1)
  from 6(2) obtain ist where ist: "pstk st = PInternal ist" "stack_inv (out (psys st)) ist" "tests_closed (out (psys st))"
    by (rule pinvE)
  obtain ist' s' where p: "is_Reset (FixtureConfig pcfg) ist (psys st) = (e, ist', s')"
    and st1: "st1 = st\<lparr>pstk := PInternal ist', psys := s'\<rparr>" using 6(1) ist(1) by (auto simp: p_reset_def split: prod.splits)
  have "is_Status ist \<noteq> StatusYellow" using 6(3) ist(1) by simp
  note s = is_Reset_spec [OF p ist(2) this]
  have "fixt_names ist' = fixt_names ist" using arg_cong [OF s(5), of "map fName"] by (simp add: fixt_names_def o_def)
  then show ?case using s ist starts_trace [OF s(2)] tests_closed_trace [OF s(2)]
    by (auto simp: st1 pinv_def pclean_def pfixts_def)
next
  case (7 close t st e st1)
  then show ?case using runTest_spec [OF 7] by blast
next
  case (8 st)
  then show ?case by (auto simp: pinv_def pfixts_def fixt_names_def is_Status_def split: pstack.splits)
next
  case (9 st)
  then show ?case by (auto simp: pinv_def pclean_def split: pstack.splits)
qed


subsection \<open>Whole plans\<close>

definition all_closed :: "Stream \<Rightarrow> bool" where
  "all_closed sn \<longleftrightarrow> sessions_match sn {} \<and> tests_closed sn"

lemma all_closed_iff: "all_closed sn \<longleftrightarrow> (\<forall>e. EName e \<noteq> [] \<longrightarrow> session e (sent sn) = Some False)"
proof -
  have "EType e = TEST \<or> EType e = FIXTURE" for e :: Entity by (cases "EType e") auto
  then show ?thesis by (auto simp: all_closed_def sessions_match_def tests_closed_def)
qed

lemma pinv_start:
  "all_closed (out s) \<Longrightarrow> pinv \<lparr>psys = s, pmgr = m, pstk = PInternal NewInternalStack\<rparr> \<and>
     pclean \<lparr>psys = s, pmgr = m, pstk = PInternal NewInternalStack\<rparr> \<and> pfixts \<lparr>psys = s, pmgr = m, pstk = PInternal NewInternalStack\<rparr> = []"
  by (auto simp: pinv_def pclean_def pfixts_def all_closed_def stack_inv_new)
     (auto simp: NewInternalStack_def fixt_names_def is_Status_def)

lemma pinv_end: "pinv st \<Longrightarrow> pfixts st = [] \<Longrightarrow> all_closed (out (psys st))"
  by (auto simp: pinv_def pfixts_def fixt_names_def all_closed_def stack_inv_def open_ents_def split: pstack.splits)

lemma report_only_ok:
  assumes "all_closed (out s)" and "EType e = TEST" "EName e \<noteq> []"
  shows "all_closed (out (report_only e rs sk s))" "starts (out (report_only e rs sk s)) = starts (out s) @ [EName e]"
proof -
  let ?es = "NewEntityStream e"
  let ?p0 = "es_start [] (?es, out s)"
  let ?p1 = "apply_reports rs ?p0"
  have es: "\<not> ended ?es" "ei ?es = e" by (simp_all add: NewEntityStream_def)
  have ses: "session e (sent (out s)) = Some False" using assms by (simp add: all_closed_iff)
  note s0 = es_start_session [of ?es "out s", unfolded es(2), OF es(1)]
  have o0: "stream_open (fst ?p0) (snd ?p0)" using s0(1) ses by simp
  note a = apply_reports_open [OF o0, of rs]
  have e1: "ei (fst ?p1) = e" using a s0(3) ses es by simp
  show "all_closed (out (report_only e rs sk s))" unfolding all_closed_iff
  proof (intro allI impI)
    fix e' :: Entity assume "EName e' \<noteq> []"
    then show "session e' (sent (out (report_only e rs sk s))) = Some False"
      using es_end_session(1) [of "fst ?p1" "snd ?p1" e' sk] a s0(2) [of e'] ses e1 assms(1)
      by (simp add: report_only_def same_sessions_def all_closed_iff)
  qed
  have "starts (snd ?p0) = starts (out s) @ [EName e]" using starts_start [of ?es] es assms by simp
  then show "starts (out (report_only e rs sk s)) = starts (out s) @ [EName e]"
    using starts_end [of sk ?p1] starts_apply_reports [of rs ?p0] by (simp add: report_only_def del: starts_end starts_apply_reports)
qed

lemma report_fold_ok:
  assumes "\<And>x s. x \<in> set xs \<Longrightarrow> \<exists>e rs sk. f s x = report_only e rs sk s \<and> EType e = TEST \<and> EName e = nm x \<and> nm x \<noteq> []"
  shows "all_closed (out s) \<Longrightarrow> all_closed (out (foldl f s xs)) \<and> starts (out (foldl f s xs)) = starts (out s) @ map nm xs"
  using assms
proof (induction xs arbitrary: s)
  case (Cons x xs)
  obtain e rs sk where x: "f s x = report_only e rs sk s" "EType e = TEST" "EName e = nm x" "nm x \<noteq> []"
    using Cons.prems(2) [of x s] by auto
  note r = report_only_ok [OF Cons.prems(1) x(2), of rs sk]
  show ?case using Cons.IH [of "f s x"] r x Cons.prems(2) by auto
qed simp

definition local_config :: "('w, 'h) Config \<Rightarrow> bool" where
  "local_config pcfg \<longleftrightarrow> pExternal pcfg = None \<and> names_ok pcfg \<and> (\<forall>(n, t)\<in>set (pTests pcfg). n \<noteq> []) \<and>
     (\<forall>(n, f)\<in>set (pFixtures pcfg). fName f = n \<and> n \<noteq> []) \<and> acyclic (parent_edges pcfg)"

definition local_request :: "('w, 'h) Config \<Rightarrow> ResolvedEntity list \<Rightarrow> bool" where
  "local_request pcfg tests \<longleftrightarrow>
     (\<forall>t\<in>set tests. rHops t = 0 \<and> EType (rEntity t) = TEST \<and> map_of (pTests pcfg) (re_name t) \<noteq> None)"

lemma local_name: "local_config pcfg \<Longrightarrow> map_of (pTests pcfg) n = Some t \<Longrightarrow> tName t = n \<and> n \<noteq> []"
  by (fastforce simp: local_config_def names_ok_def dest!: map_of_SomeD)

text \<open>In a tree of fixtures with acyclic parents, no fixture is its own ancestor.\<close>

lemma parent_used:
  assumes "acyclic (parent_edges pcfg)" and f: "map_of (pFixtures pcfg) n = Some f" and "n \<noteq> []"
    and "used \<subseteq> insert [] (ancestors pcfg (fParent f))"
  shows "n \<notin> used" "insert n used \<subseteq> insert [] (ancestors pcfg n)"
proof -
  show "n \<notin> used" using ancestors_irrefl [OF assms(1) f] assms(3,4) by auto
  have "(fParent f, n) \<in> parent_edges pcfg" using f by (auto simp: parent_edges_def)
  then have "ancestors pcfg (fParent f) \<subseteq> ancestors pcfg n" "n \<in> ancestors pcfg n"
    using f by (auto simp: ancestors_def intro: rtrancl_into_rtrancl)
  then show "insert n used \<subseteq> insert [] (ancestors pcfg n)" using assms(4) by auto
qed

fun no_externals :: "('w, 'h) fixtTree \<Rightarrow> bool" where
  "no_externals (FT f ts es cs) = (es = [] \<and> (\<forall>c\<in>set cs. no_externals c))"

lemma placed_path:
  assumes ac: "acyclic (parent_edges pcfg)" and fx: "\<forall>(n, f)\<in>set (pFixtures pcfg). fName f = n \<and> n \<noteq> []"
    and P: "\<And>n t. P n t \<Longrightarrow> tName t \<noteq> []"
  shows "placed_tree pcfg P name t \<Longrightarrow> no_externals t \<Longrightarrow> fName (ft_fixt t) \<notin> used \<Longrightarrow>
     insert (fName (ft_fixt t)) used \<subseteq> insert [] (ancestors pcfg name) \<Longrightarrow> path_ok used t"
proof (induction t arbitrary: name used rule: tree_size.induct)
  case (1 f ts es cs)
  have "path_ok (insert (fName f) used) c" if c: "c \<in> set cs" for c
  proof -
    from 1(2) c obtain n where n: "n \<noteq> pStartFixtureName pcfg" "parent_of pcfg n = name" "placed_tree pcfg P n c" by auto
    obtain f' where f': "map_of (pFixtures pcfg) n = Some f'" "ft_fixt c = f'"
      using n(1,3) by (cases c) auto
    then have "fName f' = n" "n \<noteq> []" "fParent f' = name" using fx n(2) by (auto simp: parent_of_def dest!: map_of_SomeD)
    with parent_used [OF ac f'(1), of "insert (fName f) used"] 1(5)
    have "n \<notin> insert (fName f) used" "insert n (insert (fName f) used) \<subseteq> insert [] (ancestors pcfg n)" by auto
    then show ?thesis using 1(1) [OF c n(3)] 1(3) c f'(2) \<open>fName f' = n\<close> by auto
  qed
  then show ?case using 1(2-4) P by auto
qed


lemma build_tests_local:
  assumes ac: "acyclic (parent_edges pcfg)"
  shows "build_tests pcfg ts b = Some b' \<Longrightarrow> build_ok pcfg b \<Longrightarrow> \<forall>t\<in>set ts. rHops t = 0 \<Longrightarrow> bExternal b' = bExternal b"
proof (induction ts arbitrary: b)
  case (Cons t ts)
  from Cons.prems(1) obtain rooted missing b1
    where t: "traverse (fixt_fuel pcfg) pcfg (fixtTreeParent t) b = Some ((rooted, missing), b1)"
      and r: "build_tests pcfg ts (place_test pcfg t (rooted, missing) b1) = Some b'"
    by (auto split: option.splits)
  have b1: "build_ok pcfg b1" "bExternal b1 = bExternal b" using traverse_ok [OF ac t Cons.prems(2)] by auto
  have "bExternal (place_test pcfg t (rooted, missing) b1) = bExternal b1"
    using Cons.prems(3) by (simp add: place_test_def Let_def)
  then show ?case using Cons.IH [OF r] b1 Cons.prems(3) by (simp add: place_test_ok)
qed simp

lemma newTree_local: "newTree n pcfg b name = Some t \<Longrightarrow> bExternal b = [] \<Longrightarrow> no_externals t"
proof (induction n arbitrary: name t)
  case (Suc n)
  from Suc.prems(1) obtain f cs where cs: "those (map (newTree n pcfg b) (children_of b name)) = Some cs"
    and t: "t = FT f (tests_of b name) (externals_of b name) cs"
    by (auto split: option.splits if_splits)
  have "no_externals c" if "c \<in> set cs" for c
    using those_SomeD [OF cs] that Suc.IH [OF _ Suc.prems(2)] by fastforce
  then show ?case using Suc.prems(2) by (simp add: t externals_of_def mget_def)
qed simp

lemma buildFixtPlan_path:
  assumes lc: "local_config pcfg" and fp: "buildFixtPlan ts pcfg = Some fp" and loc: "\<forall>t\<in>set ts. rHops t = 0"
  shows "path_ok {} (fpTree fp)"
proof -
  have ac: "acyclic (parent_edges pcfg)" and fx: "\<forall>(n, f)\<in>set (pFixtures pcfg). fName f = n \<and> n \<noteq> []"
    using lc by (auto simp: local_config_def)
  from fp obtain b where b: "build_tests pcfg ts build0 = Some b"
    and t: "newTree (fixt_fuel pcfg) pcfg b (pStartFixtureName pcfg) = Some (fpTree fp)"
    by (auto simp: buildFixtPlan_def split: option.splits)
  have "bExternal b = []" using build_tests_local [OF ac b build_ok_0 loc] by (simp add: build0_def)
  then have x: "no_externals (fpTree fp)" using newTree_local [OF t] by simp
  have pl: "placed_tree pcfg (\<lambda>n t. tName t \<noteq> []) (pStartFixtureName pcfg) (fpTree fp)"
  proof (rule buildFixtPlan_placed [OF ac fp])
    fix t ti assume "map_of (pTests pcfg) (re_name t) = Some ti"
    then show "tName ti \<noteq> []" using local_name [OF lc] by auto
  qed
  have "fName (ft_fixt (fpTree fp)) = []" using pl by (cases "fpTree fp") (simp add: rootFixture_def)
  then show ?thesis using placed_path [OF ac fx _ pl x, of "{}"] by simp
qed

lemma fp_run_spec:
  assumes lc: "local_config pcfg" and fp: "buildFixtPlan ts pcfg = Some fp"
    and loc: "\<forall>t\<in>set ts. rHops t = 0 \<and> EType (rEntity t) = TEST \<and> re_name t \<noteq> []"
    and orph: "\<forall>x\<in>set (fpOrphans fp). oTest x \<in> set ts"
    and r: "fp_run pcfg fp m s = Some (e, m', s')" and cl: "all_closed (out s)"
  shows "bugfree e \<and> (e = None \<longrightarrow> all_closed (out s') \<and>
    mset (starts (out s')) = mset (starts (out s)) + mset (orphan_names (fpOrphans fp)) + mset (tree_names (fpTree fp)))"
proof -
  let ?s = "foldl (\<lambda>s o'. reportOrphanTest pcfg o' s) s (fpOrphans fp)"
  have "all_closed (out ?s) \<and> starts (out ?s) = starts (out s) @ map (\<lambda>o'. re_name (oTest o')) (fpOrphans fp)"
    by (rule report_fold_ok [OF _ cl]) (use loc orph in \<open>auto simp: reportOrphanTest_def\<close>)
  then have o1: "all_closed (out ?s)" "starts (out ?s) = starts (out s) @ orphan_names (fpOrphans fp)"
    by (simp_all add: orphan_names_def)
  let ?st = "\<lparr>psys = ?s, pmgr = m, pstk = PInternal NewInternalStack\<rparr>"
  have "pExternal pcfg = None" using lc by (simp add: local_config_def)
  with r obtain t' st' where run: "runFixtTree (tree_fuel (fpTree fp)) pcfg (fpTree fp) ?st = Some (e, t', st')" and s': "s' = psys st'"
    by (auto simp: fp_run_def Let_def)
  have path: "path_ok {} (fpTree fp)" using buildFixtPlan_path [OF lc fp] loc by blast
  note i = pinv_start [OF o1(1), of m]
  from local_stack.runFixtTree_complete [OF run] i path
  have "bugfree e \<and> (e = None \<longrightarrow> pinv st' \<and> pfixts st' = [] \<and> mset (pstarts st') = mset (starts (out ?s)) + mset (tree_names (fpTree fp)))"
    by simp
  then show ?thesis using o1 pinv_end [of st'] by (auto simp: s')
qed

lemma pps_run_spec:
  assumes "\<forall>p\<in>set ps. \<forall>t\<in>set (ppTests p). tName t \<noteq> [] \<and> (ppPre p \<noteq> None \<longrightarrow> tPre t \<noteq> None)"
  shows "pps_run pcfg ps m s = (e, m', s') \<Longrightarrow> all_closed (out s) \<Longrightarrow>
    bugfree e \<and> (e = None \<longrightarrow> all_closed (out s') \<and>
      mset (starts (out s')) = mset (starts (out s)) + mset (concat (map (\<lambda>pp. map tName (ppTests pp)) ps)))"
  using assms
proof (induction ps arbitrary: m s)
  case (Cons p ps)
  obtain e1 st1 where r1: "pp_run_tests pcfg (ppPre p \<noteq> None) (ppTests p) \<lparr>psys = s, pmgr = m, pstk = PInternal NewInternalStack\<rparr> = (e1, st1)"
    by fastforce
  note i = pinv_start [OF Cons.prems(2), of m]
  have s1: "bugfree e1 \<and> (e1 = None \<longrightarrow> pinv st1 \<and> pfixts st1 = [] \<and> pstarts st1 = starts (out s) @ map tName (ppTests p))"
    using local_stack.pp_run_tests_spec [OF r1] i Cons.prems(3) by simp
  show ?case
  proof (cases e1)
    case None
    then have "pps_run pcfg ps (pmgr st1) (psys st1) = (e, m', s')" using Cons.prems(1) r1 by (simp add: pp_run_def)
    from Cons.IH [OF this] show ?thesis using s1 None pinv_end [of st1] Cons.prems(3) by auto
  next
    case (Some e')
    then show ?thesis using Cons.prems(1) r1 s1 by (auto simp: pp_run_def)
  qed
qed simp


lemma build_tests_orphans:
  assumes ac: "acyclic (parent_edges pcfg)"
  shows "build_tests pcfg ts b = Some b' \<Longrightarrow> build_ok pcfg b \<Longrightarrow> oTest ` set (bOrphans b') \<subseteq> oTest ` set (bOrphans b) \<union> set ts"
proof (induction ts arbitrary: b)
  case (Cons t ts)
  from Cons.prems(1) obtain rooted missing b1
    where t: "traverse (fixt_fuel pcfg) pcfg (fixtTreeParent t) b = Some ((rooted, missing), b1)"
      and r: "build_tests pcfg ts (place_test pcfg t (rooted, missing) b1) = Some b'"
    by (auto split: option.splits)
  have b1: "build_ok pcfg b1" "bOrphans b1 = bOrphans b" using traverse_ok [OF ac t Cons.prems(2)] by auto
  have "oTest ` set (bOrphans (place_test pcfg t (rooted, missing) b1)) \<subseteq> insert t (oTest ` set (bOrphans b))"
    using b1(2) by (auto simp: place_test_def Let_def)
  moreover have "oTest ` set (bOrphans b') \<subseteq> oTest ` set (bOrphans (place_test pcfg t (rooted, missing) b1)) \<union> set ts"
    using Cons.IH [OF r] b1(1) by (simp add: place_test_ok)
  ultimately show ?case by simp blast
qed simp

lemma reportSkippedTest_form:
  "\<exists>rs sk. reportSkippedTest pcfg x s = report_only (test_EntityProto (skTest x)) rs sk s"
  by (cases "skErr x") (auto simp: reportSkippedTest_def)

lemma buildFixtPlan_orphans:
  assumes ac: "acyclic (parent_edges pcfg)" and fp: "buildFixtPlan ts pcfg = Some fp"
  shows "\<forall>x\<in>set (fpOrphans fp). oTest x \<in> set ts"
proof -
  from fp obtain b where b: "build_tests pcfg ts build0 = Some b" and o1: "fpOrphans fp = sort_orphans (bOrphans b)"
    by (auto simp: buildFixtPlan_def split: option.splits)
  have "set (fpOrphans fp) = set (bOrphans b)" using arg_cong [OF mset_sort_orphans, of set_mset] by (simp add: o1)
  then show ?thesis using build_tests_orphans [OF ac b build_ok_0] by (auto simp: build0_def)
qed

lemma newDownloader_no_bug: "newDownloader d ce dir url w = Inl e \<Longrightarrow> \<not> is_bug e"
  by (auto simp: newDownloader_def NewManager_def split: option.splits sum.splits)

text \<open>A plan of local tests, in the parts that its run needs.\<close>

lemma local_plan:
  assumes lc: "local_config pcfg" and lr: "local_request pcfg tests" and p: "buildPlan tests pcfg = Some (Inr p)"
  shows "mset (map re_name tests) =
      mset (map (\<lambda>s. tName (skTest s)) (plSkips p)) + mset (concat (map (\<lambda>pp. map tName (ppTests pp)) (plPrePlans p))) +
      mset (orphan_names (fpOrphans (plFixtPlan p))) + mset (tree_names (fpTree (plFixtPlan p)))"
    and "\<forall>x\<in>set (plSkips p). tName (skTest x) \<noteq> []"
    and "\<forall>q\<in>set (plPrePlans p). \<forall>t\<in>set (ppTests q). tName t \<noteq> [] \<and> (ppPre q \<noteq> None \<longrightarrow> tPre t \<noteq> None)"
    and "\<exists>ts. buildFixtPlan ts pcfg = Some (plFixtPlan p) \<and>
      (\<forall>t\<in>set ts. rHops t = 0 \<and> EType (rEntity t) = TEST \<and> re_name t \<noteq> []) \<and> (\<forall>x\<in>set (fpOrphans (plFixtPlan p)). oTest x \<in> set ts)"
proof -
  have ac: "acyclic (parent_edges pcfg)" and nm: "names_ok pcfg" using lc by (auto simp: local_config_def)
  show names: "mset (map re_name tests) =
      mset (map (\<lambda>s. tName (skTest s)) (plSkips p)) + mset (concat (map (\<lambda>pp. map tName (ppTests pp)) (plPrePlans p))) +
      mset (orphan_names (fpOrphans (plFixtPlan p))) + mset (tree_names (fpTree (plFixtPlan p)))"
    using plan_names [OF ac nm p] lr by (simp add: local_request_def)
  have ne: "re_name t \<noteq> []" if "t \<in> set tests" for t
    using lr that local_name [OF lc] by (auto simp: local_request_def)
  then have nes: "\<forall>n\<in>set_mset (mset (map re_name tests)). n \<noteq> []" by auto
  then show "\<forall>x\<in>set (plSkips p). tName (skTest x) \<noteq> []" unfolding names by auto
  have "tName t \<noteq> []" if "q \<in> set (plPrePlans p)" "t \<in> set (ppTests q)" for q t using nes that unfolding names by auto
  moreover have "tPre t \<noteq> None" if "q \<in> set (plPrePlans p)" "t \<in> set (ppTests q)" for q t
    using plan_placement [OF ac nm p] that by fastforce
  ultimately show "\<forall>q\<in>set (plPrePlans p). \<forall>t\<in>set (ppTests q). tName t \<noteq> [] \<and> (ppPre q \<noteq> None \<longrightarrow> tPre t \<noteq> None)" by blast
  from buildPlan_Some [OF nm p] obtain d fp where d: "dispatch_ok pcfg (set tests) (mset (map re_name tests)) d"
    and fp: "buildFixtPlan (dpFixture d) pcfg = Some fp" and pe: "plFixtPlan p = fp"
    by (metis plan.select_convs(2))
  have "set (dpFixture d) \<subseteq> set tests" using d by (simp add: dispatch_ok_def)
  then have "\<forall>t\<in>set (dpFixture d). rHops t = 0 \<and> EType (rEntity t) = TEST \<and> re_name t \<noteq> []"
    using lr ne by (auto simp: local_request_def)
  then show "\<exists>ts. buildFixtPlan ts pcfg = Some (plFixtPlan p) \<and>
      (\<forall>t\<in>set ts. rHops t = 0 \<and> EType (rEntity t) = TEST \<and> re_name t \<noteq> []) \<and> (\<forall>x\<in>set (fpOrphans (plFixtPlan p)). oTest x \<in> set ts)"
    using fp pe buildFixtPlan_orphans [OF ac fp] by blast
qed

lemma skips_reported:
  assumes "\<forall>x\<in>set sks. tName (skTest x) \<noteq> []" and "all_closed (out s)"
  shows "all_closed (out (foldl (\<lambda>s sk. reportSkippedTest pcfg sk s) s sks)) \<and>
    starts (out (foldl (\<lambda>s sk. reportSkippedTest pcfg sk s) s sks)) = starts (out s) @ map (\<lambda>s. tName (skTest s)) sks"
proof (rule report_fold_ok)
  fix x s assume "x \<in> set sks"
  with reportSkippedTest_form [of pcfg x s] assms(1)
  show "\<exists>e rs sk. reportSkippedTest pcfg x s = report_only e rs sk s \<and> EType e = TEST \<and> EName e = tName (skTest x) \<and>
      tName (skTest x) \<noteq> []"
    by (metis test_proto_simps(1,2))
qed (use assms(2) in simp)

text \<open>C1: a local bundle asked to run registered tests never fails with an internal error (\<open>BUG\<close>), whatever user code, data files
  and the output connection do; and when it returns without an error, each requested test was reported as started exactly as often as it was requested,
  and every test and fixture that was reported as started was also reported as ended.\<close>

theorem RunTests_complete:
  assumes lc: "local_config pcfg" and lr: "local_request pcfg tests" and cl: "all_closed (out s)"
    and r: "RunTests pcfg tests s = Some (e, s')"
  shows "bugfree e \<and> (e = None \<longrightarrow>
    mset (starts (out s')) = mset (starts (out s)) + mset (map re_name tests) \<and> all_closed (out s'))"
proof -
  have "\<forall>t\<in>set tests. rHops t > 0 \<or> map_of (pTests pcfg) (re_name t) \<noteq> None" using lr by (simp add: local_request_def)
  from dispatch_tests_total [OF this] obtain d where "dispatch_tests pcfg tests dispatch0 = Inr d" by blast
  then obtain p where p: "buildPlan tests pcfg = Some (Inr p)" and pr: "plan_run pcfg p s = Some (e, s')"
    using r by (auto simp: RunTests_def buildPlan_def split: option.splits)
  note plan = local_plan [OF lc lr p]
  obtain ts where ts: "buildFixtPlan ts pcfg = Some (plFixtPlan p)"
    "\<forall>t\<in>set ts. rHops t = 0 \<and> EType (rEntity t) = TEST \<and> re_name t \<noteq> []" "\<forall>x\<in>set (fpOrphans (plFixtPlan p)). oTest x \<in> set ts"
    using plan(4) by blast
  show ?thesis
  proof (cases "newDownloader (pDownloader pcfg) (pClientErr pcfg) (pDataDir pcfg) (pArtifactsURL pcfg) (world s)")
    case (Inl e')
    then show ?thesis using pr newDownloader_no_bug [OF Inl] by (auto simp: plan_run_def)
  next
    case (Inr m)
    obtain m1 w1 where b: "BeforeRun (pDownloader pcfg) (entitiesToRun p) m (world s) = (m1, w1)" by fastforce
    let ?s = "foldl (\<lambda>s sk. reportSkippedTest pcfg sk s) (s\<lparr>world := w1\<rparr>) (plSkips p)"
    have s1: "all_closed (out ?s)" "starts (out ?s) = starts (out s) @ map (\<lambda>s. tName (skTest s)) (plSkips p)"
      using skips_reported [OF plan(2), of "s\<lparr>world := w1\<rparr>" pcfg] cl by simp_all
    obtain e2 m2 s2 where f: "fp_run pcfg (plFixtPlan p) m1 ?s = Some (e2, m2, s2)" using fp_run_total by blast
    note f2 = fp_run_spec [OF lc ts f s1(1)]
    show ?thesis
    proof (cases e2)
      case (Some e')
      then show ?thesis using pr Inr b f f2 by (auto simp: plan_run_def)
    next
      case None
      obtain e3 m3 s3 where g: "pps_run pcfg (plPrePlans p) m2 s2 = (e3, m3, s3)" by (metis prod_cases3)
      have res: "e = e3" "s' = s3" using pr Inr b f g None by (auto simp: plan_run_def)
      have "all_closed (out s2)" using f2 None by simp
      from pps_run_spec [OF plan(3) g this] show ?thesis
        unfolding plan(1) using f2 None s1(2) by (auto simp: res ac_simps)
    qed
  qed
qed

definition ex_local :: "(unit, unit) Config" where
  "ex_local = ex_config [ex_test ''t'' ''a'' None []] [ex_fixture ''a'' [] [] None]"

lemma ex_local_config: "local_config ex_local"
proof -
  have "acyclic (parent_edges ex_local)"
    by (rule acyclicI_order [where f = "\<lambda>x. - int (length x)"])
       (auto simp: parent_edges_def ex_local_def ex_config_def ex_fixture_def split: if_splits)
  then show ?thesis
    by (simp add: local_config_def ex_local_def ex_config_def ex_test_def ex_fixture_def names_ok_def)
qed

theorem RunTests_complete_witness:
  "\<exists>s'. RunTests ex_local [ex_resolved ''t'' ''a'' 0 [] []] ex_sys = Some (None, s') \<and>
     mset (starts (out s')) = {#''t''#} \<and> all_closed (out s')"
proof -
  let ?r = "[ex_resolved ''t'' ''a'' 0 [] []]"
  have "map_option fst (RunTests ex_local ?r ex_sys) = Some None" by code_simp
  then obtain s' where s': "RunTests ex_local ?r ex_sys = Some (None, s')" by auto
  have lr: "local_request ex_local ?r"
    by (simp add: local_request_def ex_local_def ex_config_def ex_test_def ex_resolved_def)
  have cl: "all_closed (out ex_sys)" "starts (out ex_sys) = []" by (simp_all add: all_closed_iff ex_sys_def starts_def)
  have "mset (map re_name ?r) = {#''t''#}" by (simp add: ex_resolved_def)
  then show ?thesis using RunTests_complete [OF ex_local_config lr cl(1) s'] cl(2) s' by simp
qed

subsection \<open>Failing tests\<close>

lemma apply_errors_sent:
  "\<not> ended es \<Longrightarrow> EName (ei es) \<noteq> [] \<Longrightarrow>
   sent (snd (apply_reports (map RError pes) (es, o1))) = sent o1 @ map (EntityError (ei es)) pes \<and>
   \<not> ended (fst (apply_reports (map RError pes) (es, o1))) \<and> ei (fst (apply_reports (map RError pes) (es, o1))) = ei es"
  by (induction pes arbitrary: es o1) (simp_all add: es_defs)

text \<open>C6: a test on a red fixture stack runs no user code: it is started, gets the errors of the failed fixture and is ended,
  in this order, without an error of the run; of the world only the output directory and the data files of the test change.\<close>

theorem runTest_red:
  assumes st: "pstk st = PInternal ist" "\<not> dirty ist" "is_Status ist = StatusRed" and n: "tName t \<noteq> []"
    and dir: "CreateOutDir (e_os (pEnv pcfg)) (pOutDir pcfg) (tName t) (world (psys st)) = (Inr od, w)"
  shows "\<exists>rel m1 w1 st'. BeforeEntity (pDownloader pcfg) (test_EntityProto t) (pmgr st) w = (rel, m1, w1) \<and>
    runTest pcfg close t st = (None, st') \<and> world (psys st') = w1 \<and>
    sent (out (psys st')) = sent (out (psys st)) @ EntityStart (test_EntityProto t) od #
      map (EntityError (test_EntityProto t)) (is_Errors ist) @ [EntityEnd (test_EntityProto t) []]"
proof -
  obtain rel m1 w1 where b: "BeforeEntity (pDownloader pcfg) (test_EntityProto t) (pmgr st) w = (rel, m1, w1)"
    by (metis prod_cases3)
  let ?e = "test_EntityProto t"
  let ?es = "NewEntityStream ?e"
  let ?o0 = "snd (es_start od (?es, out (psys st)))"
  let ?a = "apply_reports (map RError (is_Errors ist)) (?es, ?o0)"
  have es: "\<not> ended ?es" "ei ?es = ?e" by (simp_all add: NewEntityStream_def)
  have s0: "es_start od (?es, out (psys st)) = (?es, ?o0)" "sent ?o0 = sent (out (psys st)) @ [EntityStart ?e od]"
    using n es by (simp_all add: es_defs)
  have a: "sent (snd ?a) = sent ?o0 @ map (EntityError ?e) (is_Errors ist)" "\<not> ended (fst ?a)" "ei (fst ?a) = ?e"
    using apply_errors_sent [of ?es "is_Errors ist" ?o0] es n by simp_all
  have en: "sent (snd (es_end [] ?a)) = sent (snd ?a) @ [EntityEnd ?e []]"
    using a n by (simp add: es_defs)
  have "is_Status (ist\<lparr>dirty := True\<rparr>) = StatusRed" "is_Errors (ist\<lparr>dirty := True\<rparr>) = is_Errors ist"
    using st by (simp_all add: is_Status_def is_Errors_def)
  then have "runTest pcfg close t st = (None, \<lparr>psys = (psys st)\<lparr>world := w1, out := snd (es_end [] ?a)\<rparr>,
      pmgr = release rel m1, pstk = PInternal (ist\<lparr>dirty := True\<rparr>)\<rparr>)"
    using dir b s0(1) st by (simp add: runTest_def run_marked_def is_MarkDirty_def tr_report_def Let_def split: prod.split)
  then show ?thesis using b s0(2) a(1) en by simp
qed



definition ex_red :: "unit InternalStack" where
  "ex_red = is_exec ex_os ex_cfg [OpPush (ex_fixture ''a'' [] [ex_error] None)] ex_sys"

definition ex_pst :: "unit InternalStack \<Rightarrow> unit pst" where
  "ex_pst ist = \<lparr>psys = ex_sys, pmgr = \<lparr>mDataDir = [], mArtifactsURL = [], mAll = [], inuse = (\<lambda>p. 0)\<rparr>, pstk = PInternal ist\<rparr>"

definition ex_hanging_test :: "(unit, unit) TestInstance" where
  "ex_hanging_test = (ex_test ''t'' [] None [])\<lparr>tFunc := (\<lambda>c v ps w. \<lparr>reports = [], finish = None, cancelled = None, uworld = w\<rparr>)\<rparr>"

lemma ex_local_dir:
  "CreateOutDir (e_os (pEnv ex_local)) (pOutDir ex_local) ''t'' () = (Inr (path_Join [''/out'', ''t'']), ())"
  by (simp add: CreateOutDir_def ex_local_def ex_config_def ex_env_def ex_os_def)

theorem runTest_red_witness:
  "is_Errors ex_red \<noteq> [] \<and>
   (\<exists>st'. runTest ex_local False (ex_test ''t'' ''a'' None []) (ex_pst ex_red) = (None, st') \<and>
      sent (out (psys st')) = EntityStart (test_EntityProto (ex_test ''t'' ''a'' None [])) (path_Join [''/out'', ''t'']) #
        map (EntityError (test_EntityProto (ex_test ''t'' ''a'' None []))) (is_Errors ex_red) @
        [EntityEnd (test_EntityProto (ex_test ''t'' ''a'' None [])) []])"
proof -
  have red: "\<not> dirty ex_red" "is_Status ex_red = StatusRed" "is_Errors ex_red \<noteq> []" by code_simp+
  have st: "pstk (ex_pst ex_red) = PInternal ex_red" "world (psys (ex_pst ex_red)) = ()" "sent (out (psys (ex_pst ex_red))) = []"
    by (simp_all add: ex_pst_def ex_sys_def)
  have n: "tName (ex_test ''t'' ''a'' None []) = ''t''" by (simp add: ex_test_def)
  show ?thesis using runTest_red [OF st(1) red(1,2), of "ex_test ''t'' ''a'' None []" ex_local, unfolded n st(2), OF _ ex_local_dir] red(3) st(3)
    by auto
qed


end
