(* ===== verification/Timing.thy ===== *)
theory Timing
  imports GoTime
begin

text \<open>
  Timing logs, \<open>internal/timing/timing.go\<close> and \<open>internal/timing/context.go\<close>: a tree of named stages,
  each with the time it started and, once it ended, the time it ended.  A pointer to a stage is its
  path from the root (children are only ever appended, so a path stays valid), and a context carries
  the path of its current stage, if a log is attached to it.  The clock is a parameter that may read
  differently at every call.  The lemmas show that ending a stage ends everything below it, that no
  ended stage ever has a running one below it, and that a log survives its encoding as a message.
\<close>

subsection \<open>Stages\<close>

datatype Stage = Stage (sName: string) (sStartTime: int) (sEndTime: int) (sChildren: "Stage list")

definition NewLog :: Stage where
  "NewLog = Stage [] zero_time zero_time []"

definition Log_Empty :: "Stage \<Rightarrow> bool" where
  "Log_Empty root = (sChildren root = [])"

definition running :: "Stage \<Rightarrow> bool" where
  "running s = IsZero (sEndTime s)"

definition errStageEnded :: goerr where
  "errStageEnded = Errorf ''stage has ended''"

definition Stage_Import :: "Stage \<Rightarrow> Stage \<Rightarrow> Stage res" where
  "Stage_Import s o' =
     (if \<not> running s then Inl errStageEnded
      else Inr (Stage (sName s) (sStartTime s) (sEndTime s) (sChildren s @ sChildren o')))"

text \<open>\<open>StartChild\<close> returns the index of the new child, or nothing (a nil stage) if \<open>s\<close> has ended.\<close>

definition StartChild :: "('w \<Rightarrow> int \<times> 'w) \<Rightarrow> string \<Rightarrow> Stage \<Rightarrow> 'w \<Rightarrow> nat option \<times> Stage \<times> 'w" where
  "StartChild now name s w =
     (if \<not> running s then (None, s, w)
      else
        let (t, w') = now w
        in (Some (length (sChildren s)),
            Stage (sName s) (sStartTime s) (sEndTime s) (sChildren s @ [Stage name t zero_time []]), w'))"

fun Stage_End :: "('w \<Rightarrow> int \<times> 'w) \<Rightarrow> Stage \<Rightarrow> 'w \<Rightarrow> Stage \<times> 'w" and
    ends :: "('w \<Rightarrow> int \<times> 'w) \<Rightarrow> Stage list \<Rightarrow> 'w \<Rightarrow> Stage list \<times> 'w" where
  "Stage_End now (Stage n st e cs) w =
     (if \<not> IsZero e then (Stage n st e cs, w)
      else
        let (cs', w') = ends now cs w; (t, w'') = now w'
        in (Stage n st t cs', w''))"
| "ends now [] w = ([], w)"
| "ends now (c # cs) w =
     (let (c', w') = Stage_End now c w; (cs', w'') = ends now cs w' in (c' # cs', w''))"

subsection \<open>Stages by their path\<close>

fun stage_at :: "nat list \<Rightarrow> Stage \<Rightarrow> Stage option" where
  "stage_at [] s = Some s"
| "stage_at (i # p) s = (if i < length (sChildren s) then stage_at p (sChildren s ! i) else None)"

fun put_stage :: "nat list \<Rightarrow> Stage \<Rightarrow> Stage \<Rightarrow> Stage" where
  "put_stage [] x s = x"
| "put_stage (i # p) x s =
     (if i < length (sChildren s)
      then Stage (sName s) (sStartTime s) (sEndTime s) ((sChildren s)[i := put_stage p x (sChildren s ! i)])
      else s)"

text \<open>\<open>Start\<close> with the path that the context carries: the path of the new stage, or nothing when no
  log is attached or when the current stage has ended.\<close>

definition timing_Start ::
  "('w \<Rightarrow> int \<times> 'w) \<Rightarrow> nat list option \<Rightarrow> string \<Rightarrow> Stage \<Rightarrow> 'w \<Rightarrow> nat list option \<times> Stage \<times> 'w" where
  "timing_Start now cur name root w =
     (case cur of
        None \<Rightarrow> (None, root, w)
      | Some p \<Rightarrow>
          (case stage_at p root of
             None \<Rightarrow> (None, root, w)
           | Some s \<Rightarrow>
               let (i, s', w') = StartChild now name s w
               in (map_option (\<lambda>k. p @ [k]) i, put_stage p s' root, w')))"

definition timing_Import :: "nat list \<Rightarrow> Stage \<Rightarrow> Stage \<Rightarrow> goerr option \<times> Stage" where
  "timing_Import p o' root =
     (case stage_at p root of
        None \<Rightarrow> (None, root)
      | Some s \<Rightarrow>
          (case Stage_Import s o' of
             Inl e \<Rightarrow> (Some e, root)
           | Inr s' \<Rightarrow> (None, put_stage p s' root)))"

definition timing_End :: "('w \<Rightarrow> int \<times> 'w) \<Rightarrow> nat list \<Rightarrow> Stage \<Rightarrow> 'w \<Rightarrow> Stage \<times> 'w" where
  "timing_End now p root w =
     (case stage_at p root of
        None \<Rightarrow> (root, w)
      | Some s \<Rightarrow> let (s', w') = Stage_End now s w in (put_stage p s' root, w'))"

subsection \<open>Messages\<close>

datatype TimingStage =
  TimingStage (tName: string) (tStart: "Timestamp option") (tEnd: "Timestamp option") (tChildren: "TimingStage list")

definition timestampProto :: "pb \<Rightarrow> int \<Rightarrow> Timestamp option" where
  "timestampProto P t = (if IsZero t then None else Some (ts_New P t))"

fun Stage_Proto :: "pb \<Rightarrow> Stage \<Rightarrow> TimingStage" where
  "Stage_Proto P (Stage n st e cs) =
     TimingStage n (timestampProto P st) (timestampProto P e) (map (Stage_Proto P) cs)"

definition time_from :: "pb \<Rightarrow> Timestamp option \<Rightarrow> int res" where
  "time_from P ts =
     (case ts of
        None \<Rightarrow> Inr zero_time
      | Some x \<Rightarrow>
          (case ts_CheckValid P (Some x) of
             Some e \<Rightarrow> Inl (Errorf e)
           | None \<Rightarrow> Inr (ts_AsTime P (Some x))))"

fun StageFromProto :: "pb \<Rightarrow> TimingStage \<Rightarrow> Stage res" and
    stages_from :: "pb \<Rightarrow> TimingStage list \<Rightarrow> Stage list res" where
  "StageFromProto P (TimingStage n st e cs) =
     (case time_from P st of
        Inl err \<Rightarrow> Inl err
      | Inr start \<Rightarrow>
          (case time_from P e of
             Inl err \<Rightarrow> Inl err
           | Inr end' \<Rightarrow>
               (case stages_from P cs of
                  Inl err \<Rightarrow> Inl err
                | Inr children \<Rightarrow> Inr (Stage n start end' children))))"
| "stages_from P [] = Inr []"
| "stages_from P (c # cs) =
     (case StageFromProto P c of
        Inl err \<Rightarrow> Inl err
      | Inr child \<Rightarrow>
          (case stages_from P cs of Inl err \<Rightarrow> Inl err | Inr children \<Rightarrow> Inr (child # children)))"

text \<open>A log message whose root is missing decodes as an empty log.\<close>

definition LogFromProto :: "pb \<Rightarrow> TimingStage option \<Rightarrow> Stage res" where
  "LogFromProto P root = (case root of None \<Rightarrow> Inr NewLog | Some r \<Rightarrow> StageFromProto P r)"

subsection \<open>A log survives its encoding\<close>

fun valid_times :: "Stage \<Rightarrow> bool" where
  "valid_times (Stage n st e cs) \<longleftrightarrow> valid_time st \<and> valid_time e \<and> list_all valid_times cs"

lemma time_from_proto: "pb_laws P \<Longrightarrow> valid_time t \<Longrightarrow> time_from P (timestampProto P t) = Inr t"
  by (simp add: time_from_def timestampProto_def IsZero_def pb_valid pb_time)

lemma stages_from_map:
  "(\<And>c. c \<in> set cs \<Longrightarrow> StageFromProto P (f c) = Inr c) \<Longrightarrow> stages_from P (map f cs) = Inr cs"
  by (induction cs) auto

text \<open>C22: the timing log of a test, encoded as a message by the bundle (\<open>Log.Proto\<close>) and decoded by
  the driver (\<open>LogFromProto\<close>), is the same log: every stage keeps its name, its start and end times,
  running stages stay running, and the tree keeps its shape, for all times a message can hold.\<close>

theorem timing_log_roundtrip:
  assumes "pb_laws P" and "valid_times root"
  shows "LogFromProto P (Some (Stage_Proto P root)) = Inr root"
proof -
  have "StageFromProto P (Stage_Proto P s) = Inr s" if "valid_times s" for s
    using that
  proof (induction s)
    case (Stage n st e cs)
    have "stages_from P (map (Stage_Proto P) cs) = Inr cs"
      using Stage by (intro stages_from_map) (auto simp: list_all_iff)
    with Stage.prems show ?case by (simp add: time_from_proto [OF assms(1)])
  qed
  with assms(2) show ?thesis by (simp add: LogFromProto_def)
qed

definition ex_log :: Stage where
  "ex_log = Stage [] zero_time zero_time
     [Stage ''pkg.Test'' 5 zero_time [Stage ''setup'' 6 1700000000000000007 []]]"

theorem timing_log_roundtrip_witness:
  "pb_laws ex_pb \<and> valid_times ex_log \<and> LogFromProto ex_pb (Some (Stage_Proto ex_pb ex_log)) = Inr ex_log"
proof -
  have "valid_times ex_log"
    by (simp add: ex_log_def valid_time_def zero_time_def)
  with timing_log_roundtrip [OF ex_pb_laws] ex_pb_laws show ?thesis by simp
qed

subsection \<open>Ended stages\<close>

fun ended_all :: "Stage \<Rightarrow> bool" where
  "ended_all (Stage n st e cs) \<longleftrightarrow> \<not> IsZero e \<and> list_all ended_all cs"

text \<open>No ended stage has a running stage below it.\<close>

fun stage_ok :: "Stage \<Rightarrow> bool" where
  "stage_ok (Stage n st e cs) \<longleftrightarrow> (\<not> IsZero e \<longrightarrow> list_all ended_all cs) \<and> list_all stage_ok cs"

definition ticking :: "('w \<Rightarrow> int \<times> 'w) \<Rightarrow> bool" where
  "ticking now \<longleftrightarrow> (\<forall>w. \<not> IsZero (fst (now w)))"

lemma ended_all_ok: "ended_all s \<Longrightarrow> stage_ok s"
  by (induction s) (auto simp: list_all_iff)

lemma ended_all_not_running: "ended_all s \<Longrightarrow> \<not> running s"
  by (cases s) (simp add: running_def)

lemma ok_ended: "stage_ok s \<Longrightarrow> \<not> running s \<Longrightarrow> ended_all s"
  by (cases s) (simp add: running_def)

lemma ended_all_at: "ended_all s \<Longrightarrow> stage_at p s = Some x \<Longrightarrow> ended_all x"
proof (induction p arbitrary: s)
  case (Cons i p)
  then show ?case by (cases s) (auto simp: list_all_length split: if_splits)
qed simp

lemma ok_at: "stage_ok s \<Longrightarrow> stage_at p s = Some x \<Longrightarrow> stage_ok x"
proof (induction p arbitrary: s)
  case (Cons i p)
  then show ?case by (cases s) (auto simp: list_all_length split: if_splits)
qed simp

lemma put_same: "stage_at p s = Some x \<Longrightarrow> put_stage p x s = s"
proof (induction p arbitrary: s)
  case (Cons i p)
  then show ?case by (cases s) (auto split: if_splits)
qed simp

lemma at_put: "stage_at p s = Some x \<Longrightarrow> stage_at p (put_stage p y s) = Some y"
proof (induction p arbitrary: s)
  case (Cons i p)
  then show ?case by (cases s) (auto split: if_splits)
qed simp

lemma ok_put:
  assumes "stage_ok s" and "stage_at p s = Some x" and "running x" and "stage_ok y"
  shows "stage_ok (put_stage p y s)"
  using assms
proof (induction p arbitrary: s)
  case (Cons i p)
  obtain n st e cs where s: "s = Stage n st e cs" by (cases s)
  have i: "i < length cs" and at: "stage_at p (cs ! i) = Some x"
    using Cons.prems(2) by (auto simp: s split: if_splits)
  have "IsZero e"
  proof (rule ccontr)
    assume "\<not> IsZero e"
    then have "ended_all (cs ! i)" using Cons.prems(1) i by (simp add: s list_all_length)
    with ended_all_at [OF _ at] ended_all_not_running Cons.prems(3) show False by blast
  qed
  moreover have "stage_ok (put_stage p y (cs ! i))"
    using Cons.IH [OF _ at] Cons.prems i by (simp add: s list_all_length)
  ultimately show ?case using Cons.prems(1) i
    by (auto simp: s list_all_iff dest!: subsetD [OF set_update_subset_insert])
qed simp

lemma Stage_End_ended:
  "ticking now \<Longrightarrow> stage_ok s \<Longrightarrow> ended_all (fst (Stage_End now s w))"
  "ticking now \<Longrightarrow> list_all stage_ok cs \<Longrightarrow> list_all ended_all (fst (ends now cs w))"
proof (induction now s w and now cs w rule: Stage_End_ends.induct)
  case (1 now n st e cs w)
  have "\<not> IsZero t" if "now v = (t, v')" for v t v'
    using 1(2) that unfolding ticking_def by (metis fst_conv)
  with 1 show ?case by (auto split: prod.splits)
qed (auto split: prod.splits)

lemma StartChild_ok: "stage_ok s \<Longrightarrow> StartChild now name s w = (i, s', w') \<Longrightarrow> running s \<Longrightarrow> stage_ok s'"
  by (cases s) (auto simp: StartChild_def running_def IsZero_def split: prod.splits if_splits)

datatype t_op = TStart "nat list" string | TImport "nat list" Stage | TEnd "nat list"

fun t_step :: "('w \<Rightarrow> int \<times> 'w) \<Rightarrow> t_op \<Rightarrow> Stage \<times> 'w \<Rightarrow> Stage \<times> 'w" where
  "t_step now (TStart p name) (root, w) = snd (timing_Start now (Some p) name root w)"
| "t_step now (TImport p o') (root, w) = (snd (timing_Import p o' root), w)"
| "t_step now (TEnd p) (root, w) = timing_End now p root w"

definition imports_ok :: "t_op \<Rightarrow> bool" where
  "imports_ok op = (case op of TImport p o' \<Rightarrow> list_all stage_ok (sChildren o') | _ \<Rightarrow> True)"

lemma Import_ok:
  "stage_ok s \<Longrightarrow> list_all stage_ok (sChildren o') \<Longrightarrow> Stage_Import s o' = Inr s' \<Longrightarrow> running s \<and> stage_ok s'"
  by (cases s) (auto simp: Stage_Import_def running_def split: if_splits)

lemma t_step_ok:
  assumes "ticking now" and "imports_ok op" and "stage_ok root"
  shows "stage_ok (fst (t_step now op (root, w)))"
proof (cases op)
  case (TStart p name)
  show ?thesis
  proof (cases "stage_at p root")
    case (Some s)
    obtain i s' w' where sc: "StartChild now name s w = (i, s', w')" by (metis prod_cases3)
    show ?thesis
    proof (cases "running s")
      case True
      then have "stage_ok (put_stage p s' root)"
        using ok_put [OF assms(3) Some True] StartChild_ok [OF ok_at [OF assms(3) Some] sc] by blast
      then show ?thesis by (simp add: TStart timing_Start_def Some sc)
    next
      case False
      then have "ended_all s" using ok_ended ok_at [OF assms(3) Some] by blast
      then show ?thesis using False sc put_same [OF Some] assms(3)
        by (simp add: TStart timing_Start_def Some StartChild_def)
    qed
  qed (simp add: TStart timing_Start_def assms(3))
next
  case (TImport p o')
  show ?thesis
  proof (cases "stage_at p root")
    case (Some s)
    show ?thesis
    proof (cases "Stage_Import s o'")
      case (Inr s')
      then have "running s \<and> stage_ok s'"
        using Import_ok ok_at [OF assms(3) Some] assms(2) by (simp add: TImport imports_ok_def)
      then show ?thesis using ok_put [OF assms(3) Some] by (simp add: TImport timing_Import_def Some Inr)
    qed (simp add: TImport timing_Import_def Some assms(3))
  qed (simp add: TImport timing_Import_def assms(3))
next
  case (TEnd p)
  show ?thesis
  proof (cases "stage_at p root")
    case (Some s)
    show ?thesis
    proof (cases "running s")
      case True
      have "stage_ok (fst (Stage_End now s w))"
        by (rule ended_all_ok [OF Stage_End_ended(1) [OF assms(1) ok_at [OF assms(3) Some]]])
      then have "stage_ok (put_stage p (fst (Stage_End now s w)) root)"
        by (rule ok_put [OF assms(3) Some True])
      then show ?thesis by (simp add: TEnd timing_End_def Some case_prod_beta)
    next
      case False
      then have "Stage_End now s w = (s, w)" by (cases s) (simp add: running_def)
      then show ?thesis using put_same [OF Some] assms(3) by (simp add: TEnd timing_End_def Some)
    qed
  qed (simp add: TEnd timing_End_def assms(3))
qed

text \<open>C23: in every timing log that the operations build from an empty one, in any order and on any
  stages, no ended stage has a running stage below it; and ending a stage of such a log ends every
  stage below it.  The clock only has to read a time that is not Go's zero time, and imported logs
  have to satisfy the same invariant.\<close>

theorem timing_log_invariant:
  assumes "ticking now" and "list_all imports_ok ops"
    and "fold (t_step now) ops (NewLog, w) = (root, w')"
  shows "stage_ok root \<and>
    (\<forall>p s v. stage_at p root = Some s \<longrightarrow>
       (\<exists>s'. stage_at p (fst (timing_End now p root v)) = Some s' \<and> ended_all s'))"
proof (intro conjI allI impI)
  have "stage_ok (fst (fold (t_step now) ops (r, v)))" if "stage_ok r" for r v
    using that assms(2)
  proof (induction ops arbitrary: r v)
    case (Cons op ops)
    obtain r' v' where st: "t_step now op (r, v) = (r', v')" by fastforce
    then have "stage_ok r'" using t_step_ok [OF assms(1), of op r v] Cons.prems by simp
    then show ?case using Cons st by simp
  qed simp
  from this [of NewLog w] assms(3) show ok: "stage_ok root" by (simp add: NewLog_def)
  fix p s v
  assume at: "stage_at p root = Some s"
  have "stage_at p (fst (timing_End now p root v)) = Some (fst (Stage_End now s v))"
    by (simp add: timing_End_def at at_put case_prod_beta)
  moreover have "ended_all (fst (Stage_End now s v))"
    by (rule Stage_End_ended(1) [OF assms(1) ok_at [OF ok at]])
  ultimately show "\<exists>s'. stage_at p (fst (timing_End now p root v)) = Some s' \<and> ended_all s'" by blast
qed

definition ex_clock :: "nat \<Rightarrow> int \<times> nat" where
  "ex_clock w = (1700000000000000000 + int (w mod 1000000), Suc w)"

definition ex_t_ops :: "t_op list" where
  "ex_t_ops = [TStart [] ''pkg.Test'', TStart [0] ''setup'', TImport [0] ex_log, TEnd [0]]"

theorem timing_log_invariant_witness:
  "ticking ex_clock \<and> list_all imports_ok ex_t_ops \<and>
   stage_ok (fst (fold (t_step ex_clock) ex_t_ops (NewLog, 0))) \<and>
   (\<exists>s'. stage_at [0] (fst (timing_End ex_clock [0] (fst (fold (t_step ex_clock) ex_t_ops (NewLog, 0))) 9)) = Some s' \<and>
      ended_all s')"
proof -
  have t: "ticking ex_clock"
    by (simp add: ticking_def ex_clock_def IsZero_def zero_time_def)
  have i: "list_all imports_ok ex_t_ops"
    by (simp add: ex_t_ops_def imports_ok_def ex_log_def IsZero_def zero_time_def)
  obtain root w' where f: "fold (t_step ex_clock) ex_t_ops (NewLog, 0) = (root, w')" by fastforce
  have "\<exists>s. stage_at [0] root = Some s"
    using f by (auto simp: ex_t_ops_def ex_clock_def NewLog_def timing_Start_def StartChild_def timing_Import_def
        timing_End_def Stage_Import_def running_def IsZero_def ex_log_def zero_time_def)
  with timing_log_invariant [OF t i f] show ?thesis using t i unfolding f fst_conv by blast
qed

end
