(* ===== verification/Logging.thy ===== *)
theory Logging
  imports GoTime
begin

text \<open>
  Logs sent through a context, \<open>internal/logging\<close>: sink loggers that filter by level and write a
  line with a timestamp, multi loggers that copy a log to a set of loggers that can change, and the
  functions that format a message and pass it to the logger of the context.  Loggers are pointers, so
  each carries an identity.  What a write does to a file or to the reporting service is a parameter.
\<close>

subsection \<open>Levels\<close>

type_synonym Level = int

definition LevelDebug :: Level where "LevelDebug = 0"
definition LevelInfo :: Level where "LevelInfo = 1"

datatype LogLevel = LOGLEVEL_UNSPECIFIED | DEBUG | INFO | LogLevel_other int

definition LevelToProto :: "Level \<Rightarrow> LogLevel" where
  "LevelToProto level =
     (if level = LevelInfo then INFO else if level = LevelDebug then DEBUG else LOGLEVEL_UNSPECIFIED)"

definition ProtoToLevel :: "LogLevel \<Rightarrow> Level" where
  "ProtoToLevel level = (case level of INFO \<Rightarrow> LevelInfo | DEBUG \<Rightarrow> LevelDebug | _ \<Rightarrow> LevelInfo)"

subsection \<open>Valid UTF-8\<close>

text \<open>\<open>utf8_len s\<close> is the length of the encoded character at the head of \<open>s\<close>, and 0 if there is none,
  by the accepted ranges of \<open>unicode/utf8\<close>; \<open>ToValidUTF8\<close> is \<open>strings.ToValidUTF8\<close> with an empty
  replacement.\<close>

definition byte :: "char \<Rightarrow> nat" where
  "byte c = of_char c"

definition cont :: "nat \<Rightarrow> nat \<Rightarrow> char \<Rightarrow> bool" where
  "cont lo hi c \<longleftrightarrow> lo \<le> byte c \<and> byte c \<le> hi"

definition lead :: "nat \<Rightarrow> nat \<times> nat \<times> nat" where
  "lead b =
     (if b < 128 then (1, 0, 0)
      else if b < 194 then (0, 0, 0)
      else if b < 224 then (2, 128, 191)
      else if b = 224 then (3, 160, 191)
      else if b = 237 then (3, 128, 159)
      else if b < 240 then (3, 128, 191)
      else if b = 240 then (4, 144, 191)
      else if b < 244 then (4, 128, 191)
      else if b = 244 then (4, 128, 143)
      else (0, 0, 0))"

fun utf8_len :: "string \<Rightarrow> nat" where
  "utf8_len [] = 0"
| "utf8_len (c # s) =
     (let (n, lo, hi) = lead (byte c) in
      if n \<le> 1 then n
      else if n - 1 \<le> length s \<and> cont lo hi (hd s) \<and> list_all (cont 128 191) (take (n - 2) (tl s)) then n
      else 0)"

declare utf8_len.simps(2) [simp del]

function ToValidUTF8 :: "string \<Rightarrow> string" where
  "ToValidUTF8 [] = []"
| "ToValidUTF8 (c # s) =
     (let n = utf8_len (c # s) in
      if n = 0 then ToValidUTF8 s else take n (c # s) @ ToValidUTF8 (drop n (c # s)))"
  by pat_completeness auto
termination
  by (relation "measure length") auto

function valid_utf8 :: "string \<Rightarrow> bool" where
  "valid_utf8 [] = True"
| "valid_utf8 (c # s) = (if utf8_len (c # s) = 0 then False else valid_utf8 (drop (utf8_len (c # s)) (c # s)))"
  by pat_completeness auto
termination
  by (relation "measure length") auto

declare ToValidUTF8.simps(2) [simp del] valid_utf8.simps(2) [simp del]

lemma utf8_len_le: "utf8_len s \<le> length s"
  by (cases s) (auto simp: utf8_len.simps Let_def split: prod.splits)

lemma utf8_len_prefix:
  assumes "utf8_len s = n" and "n \<noteq> 0"
  shows "utf8_len (take n s @ t) = n"
proof (cases s)
  case (Cons c u)
  obtain k lo hi where l: "lead (byte c) = (k, lo, hi)" by (metis prod_cases3)
  have n: "n = k" using assms by (auto simp: Cons utf8_len.simps l split: if_splits)
  then obtain m where m: "n = Suc m" using assms(2) by (cases n) auto
  show ?thesis
  proof (cases m)
    case 0
    then show ?thesis using n [symmetric] m by (simp add: Cons utf8_len.simps l)
  next
    case (Suc j)
    have ok: "m \<le> length u" "cont lo hi (hd u)" "list_all (cont 128 191) (take j (tl u))"
      using assms n m Suc by (auto simp: Cons utf8_len.simps l split: if_splits)
    then obtain d v where u: "u = d # v" using Suc by (cases u) auto
    show ?thesis using n [symmetric] m Suc ok by (simp add: Cons utf8_len.simps l u)
  qed
qed (use assms in simp)

lemma valid_cons_char: "utf8_len s \<noteq> 0 \<Longrightarrow> valid_utf8 t \<Longrightarrow> valid_utf8 (take (utf8_len s) s @ t)"
proof -
  assume n: "utf8_len s \<noteq> 0" and t: "valid_utf8 t"
  obtain c u where u: "take (utf8_len s) s @ t = c # u"
    using n utf8_len_le [of s] by (cases s) (auto simp: take_Cons' split: if_splits)
  have "utf8_len (take (utf8_len s) s @ t) = utf8_len s" using utf8_len_prefix [OF refl n] .
  moreover have "drop (utf8_len s) (take (utf8_len s) s @ t) = t" using utf8_len_le [of s] by simp
  ultimately show ?thesis using n t unfolding u valid_utf8.simps by simp
qed

definition ReplaceInvalidUTF8 :: "string \<Rightarrow> string" where
  "ReplaceInvalidUTF8 msg = ToValidUTF8 msg"



subsection \<open>Loggers\<close>

text \<open>Where the lines of a sink logger go: a file, the log stream of the reporting service for a test
  and a log path, or nowhere (a nil \<open>RPCTestLogWriter\<close>).\<close>

datatype writer = WFile string | WRPC string string | WNil

record SinkLogger =
  sl_id :: nat
  sl_level :: Level
  sl_timestamp :: bool
  sl_writers :: "writer list"

type_synonym MultiLogger = "SinkLogger list"

type_synonym 'w wfun = "writer \<Rightarrow> string \<Rightarrow> 'w \<Rightarrow> string option \<times> 'w"

definition writer_Write :: "'w wfun \<Rightarrow> writer \<Rightarrow> string \<Rightarrow> 'w \<Rightarrow> string option \<times> 'w" where
  "writer_Write wr x p w = (case x of WNil \<Rightarrow> (None, w) | _ \<Rightarrow> wr x p w)"

text \<open>\<open>io.MultiWriter\<close> stops at the first writer that fails.\<close>

fun multi_write :: "'w wfun \<Rightarrow> writer list \<Rightarrow> string \<Rightarrow> 'w \<Rightarrow> 'w" where
  "multi_write wr [] p w = w"
| "multi_write wr (x # xs) p w =
     (case writer_Write wr x p w of
        (Some e, w') \<Rightarrow> w'
      | (None, w') \<Rightarrow> multi_write wr xs p w')"

definition newline :: string where
  "newline = [CHR 0x0A]"

definition SinkLogger_Log :: "'w wfun \<Rightarrow> Level \<Rightarrow> int \<Rightarrow> string \<Rightarrow> SinkLogger \<Rightarrow> 'w \<Rightarrow> 'w" where
  "SinkLogger_Log wr level ts msg l w =
     (if level < sl_level l then w
      else multi_write wr (sl_writers l)
             ((if sl_timestamp l then Format_iso ts @ '' '' @ msg else msg) @ newline) w)"

definition MultiLogger_Log :: "'w wfun \<Rightarrow> Level \<Rightarrow> int \<Rightarrow> string \<Rightarrow> MultiLogger \<Rightarrow> 'w \<Rightarrow> 'w" where
  "MultiLogger_Log wr level ts msg ml w = fold (SinkLogger_Log wr level ts msg) ml w"

definition AddLogger :: "SinkLogger \<Rightarrow> MultiLogger \<Rightarrow> MultiLogger" where
  "AddLogger logger ml = ml @ [logger]"

text \<open>The loop of \<open>RemoveLogger\<close> moves the loggers it keeps to the front of the slice.\<close>

function remove_loop :: "nat \<Rightarrow> nat \<Rightarrow> nat \<Rightarrow> MultiLogger \<Rightarrow> nat \<times> MultiLogger" where
  "remove_loop logger i j ml =
     (if i < length ml then
        if sl_id (ml ! i) = logger then remove_loop logger (Suc i) j ml
        else remove_loop logger (Suc i) (Suc j) (ml[j := ml ! i])
      else (j, ml))"
  by pat_completeness auto
termination
  by (relation "measure (\<lambda>(logger, i, j, ml). length ml - i)") auto

declare remove_loop.simps [simp del]

definition RemoveLogger :: "SinkLogger \<Rightarrow> MultiLogger \<Rightarrow> MultiLogger" where
  "RemoveLogger logger ml = (let (j, ml') = remove_loop (sl_id logger) 0 0 ml in take j ml')"

lemma remove_loop_filter:
  assumes "j \<le> i" and "i \<le> length ml" and "take j ml = kept"
  shows "\<exists>ml'. remove_loop x i j ml = (length kept + length (filter (\<lambda>l. sl_id l \<noteq> x) (drop i ml)), ml') \<and>
    take (length kept + length (filter (\<lambda>l. sl_id l \<noteq> x) (drop i ml))) ml' =
      kept @ filter (\<lambda>l. sl_id l \<noteq> x) (drop i ml)"
  using assms
proof (induction "length ml - i" arbitrary: i j ml kept)
  case 0
  then show ?case by (auto simp: remove_loop.simps)
next
  case (Suc n)
  then have i: "i < length ml" by simp
  then have d: "drop i ml = ml ! i # drop (Suc i) ml" by (simp add: Cons_nth_drop_Suc)
  show ?case
  proof (cases "sl_id (ml ! i) = x")
    case True
    have "n = length ml - Suc i" using Suc.hyps(2) by simp
    from Suc.hyps(1) [OF this _ _ Suc.prems(3)] Suc.prems(1) i show ?thesis
      by (subst remove_loop.simps) (simp add: d True)
  next
    case False
    let ?ml = "ml[j := ml ! i]"
    have "n = length ?ml - Suc i" using Suc.hyps(2) by simp
    moreover have "take (Suc j) ?ml = kept @ [ml ! i]"
      using Suc.prems i by (simp add: take_Suc_conv_app_nth)
    ultimately have "\<exists>ml'. remove_loop x (Suc i) (Suc j) ?ml =
        (length (kept @ [ml ! i]) + length (filter (\<lambda>l. sl_id l \<noteq> x) (drop (Suc i) ?ml)), ml') \<and>
        take (length (kept @ [ml ! i]) + length (filter (\<lambda>l. sl_id l \<noteq> x) (drop (Suc i) ?ml))) ml' =
        (kept @ [ml ! i]) @ filter (\<lambda>l. sl_id l \<noteq> x) (drop (Suc i) ?ml)"
      using Suc.hyps(1) [of ?ml "Suc i" "Suc j" "kept @ [ml ! i]"] Suc.prems i by simp
    moreover have "drop (Suc i) ?ml = drop (Suc i) ml" using Suc.prems(1) by simp
    ultimately show ?thesis using i False by (subst remove_loop.simps) (simp add: d)
  qed
qed

lemma remove_logger_filter: "RemoveLogger logger ml = filter (\<lambda>l. sl_id l \<noteq> sl_id logger) ml"
  using remove_loop_filter [of 0 0 ml "[]" "sl_id logger"] by (auto simp: RemoveLogger_def)

text \<open>C24: \<open>MultiLogger.RemoveLogger\<close>, which compacts the slice in place, removes exactly the given
  logger and keeps the others in their order.\<close>

theorem RemoveLogger_filter: "RemoveLogger logger ml = filter (\<lambda>l. sl_id l \<noteq> sl_id logger) ml"
  by (rule remove_logger_filter)

text \<open>The functions \<open>Info\<close>, \<open>Infof\<close>, \<open>Debug\<close> and \<open>Debugf\<close>, on a context whose logger is a multi logger
  attached in front of the logger of the parent context (\<open>AttachLogger\<close>).\<close>

record 'w lenv =
  l_Now :: "'w \<Rightarrow> int \<times> 'w"
  l_Write :: "'w wfun"
  l_Parent :: "Level \<Rightarrow> int \<Rightarrow> string \<Rightarrow> 'w \<Rightarrow> 'w"     \<comment> \<open>the logger of the parent context\<close>
  l_Prefix :: string

definition log :: "'w lenv \<Rightarrow> MultiLogger \<Rightarrow> Level \<Rightarrow> string \<Rightarrow> 'w \<Rightarrow> 'w" where
  "log L ml level text w =
     (let (ts, w1) = l_Now L w;
          msg = ReplaceInvalidUTF8 (l_Prefix L @ text)
      in l_Parent L level ts msg (MultiLogger_Log (l_Write L) level ts msg ml w1))"

end
