(* ===== verification/Report.thy ===== *)
theory Report
  imports GoTime
begin

text \<open>
  Reporting test results: the result records and their construction from an entity
  (\<open>internal/run/resultsjson/resultsjson.go\<close>), the file to which results are streamed
  (\<open>internal/run/reporting/streamed.go\<close>), the client of the reporting service
  (\<open>internal/run/reporting/rpc.go\<close>) and the counter of failures (\<open>internal/minidriver/failfast\<close>).
  The JSON encoding of a result, the reporting service and the errors of file operations are
  parameters.  The lemmas show that the streamed file holds exactly the records that an append-or-
  replace specification gives.
\<close>

subsection \<open>Entities as messages\<close>

datatype EntityType = EntityType_TEST | EntityType_FIXTURE | EntityType_other int

record EntityLegacyData =
  ld_Timeout :: "Duration option"
  ld_Variables :: "string list"
  ld_VariableDeps :: "string list"
  ld_SoftwareDeps :: "string list"
  ld_Bundle :: string

record ProtoEntity =
  g_Type :: EntityType
  g_Name :: string
  g_Package :: string
  g_Description :: string
  g_Contacts :: "string list"
  g_Attributes :: "string list"
  g_SearchFlags :: "(string \<times> string) list"
  g_DataFiles :: "string list"
  g_Services :: "string list"
  g_Fixture :: string
  g_LegacyData :: "EntityLegacyData option"
  g_TestBedDeps :: "string list"
  g_Requirements :: "string list"
  g_BugComponent :: string

text \<open>Getters of a nil message return zero values.\<close>

definition no_legacy :: EntityLegacyData where
  "no_legacy = \<lparr>ld_Timeout = None, ld_Variables = [], ld_VariableDeps = [], ld_SoftwareDeps = [], ld_Bundle = []\<rparr>"

definition GetLegacyData :: "ProtoEntity \<Rightarrow> EntityLegacyData" where
  "GetLegacyData e = (case g_LegacyData e of None \<Rightarrow> no_legacy | Some d \<Rightarrow> d)"

definition type_String :: "EntityType \<Rightarrow> string" where
  "type_String t =
     (case t of EntityType_TEST \<Rightarrow> ''TEST'' | EntityType_FIXTURE \<Rightarrow> ''FIXTURE'' | EntityType_other n \<Rightarrow> show_int n)"

subsection \<open>Results\<close>

record rTest =
  r_Name :: string
  r_Pkg :: string
  r_Desc :: string
  r_Contacts :: "string list"
  r_Attr :: "string list"
  r_SearchFlags :: "(string \<times> string) list"
  r_Data :: "string list"
  r_Vars :: "string list"
  r_VarDeps :: "string list"
  r_SoftwareDeps :: "string list"
  r_ServiceDeps :: "string list"
  r_Fixture :: string
  r_Timeout :: int
  r_Bundle :: string
  r_TestBedDeps :: "string list"
  r_Requirements :: "string list"
  r_BugComponent :: string

record rError =
  re_Time :: int
  re_Reason :: string
  re_File :: string
  re_Line :: int
  re_Stack :: string

record Result = rTest +
  r_Errors :: "rError list"
  r_Start :: int
  r_End :: int
  r_OutDir :: string
  r_SkipReason :: string

definition NewTest :: "pb \<Rightarrow> ProtoEntity \<Rightarrow> rTest res" where
  "NewTest P e =
     (if g_Type e \<noteq> EntityType_TEST
      then Inl (BUG (''cannot create resultsjson.Test for a non-test entity: '' @ type_String (g_Type e)))
      else
        let test = (\<lambda>timeout.
              \<lparr>r_Name = g_Name e, r_Pkg = g_Package e, r_Desc = g_Description e, r_Contacts = g_Contacts e,
               r_Attr = g_Attributes e, r_SearchFlags = g_SearchFlags e, r_Data = g_DataFiles e,
               r_Vars = ld_Variables (GetLegacyData e), r_VarDeps = ld_VariableDeps (GetLegacyData e),
               r_SoftwareDeps = ld_SoftwareDeps (GetLegacyData e), r_ServiceDeps = g_Services e,
               r_Fixture = g_Fixture e, r_Timeout = timeout, r_Bundle = ld_Bundle (GetLegacyData e),
               r_TestBedDeps = g_TestBedDeps e, r_Requirements = g_Requirements e,
               r_BugComponent = g_BugComponent e\<rparr>)
        in case ld_Timeout (GetLegacyData e) of
             None \<Rightarrow> Inr (test 0)
           | Some topb \<Rightarrow>
               (case d_CheckValid P topb of
                  Some err \<Rightarrow> Inl (Errorf err)
                | None \<Rightarrow> Inr (test (d_AsDuration P topb))))"

definition mkResult :: "rTest \<Rightarrow> rError list \<Rightarrow> int \<Rightarrow> int \<Rightarrow> string \<Rightarrow> string \<Rightarrow> Result" where
  "mkResult t es start end' outDir skip =
     rTest.extend t \<lparr>r_Errors = es, r_Start = start, r_End = end', r_OutDir = outDir, r_SkipReason = skip\<rparr>"

lemma mkResult_sel [simp]:
  "r_Name (mkResult t es st en d sk) = r_Name t"
  "r_Errors (mkResult t es st en d sk) = es"
  "r_Start (mkResult t es st en d sk) = st"
  "r_End (mkResult t es st en d sk) = en"
  "r_OutDir (mkResult t es st en d sk) = d"
  "r_SkipReason (mkResult t es st en d sk) = sk"
  by (simp_all add: mkResult_def rTest.extend_def)

lemma NewTest_name: "NewTest P e = Inr t \<Longrightarrow> r_Name t = g_Name e"
  by (auto simp: NewTest_def Let_def split: if_splits option.splits)

subsection \<open>Counting failures\<close>

text \<open>A nil \<open>Counter\<close> is \<open>None\<close>.\<close>

record Counter =
  threshold :: int
  fails :: int

definition NewCounter :: "int \<Rightarrow> Counter option" where
  "NewCounter n = (if n \<le> 0 then None else Some \<lparr>threshold = n, fails = 0\<rparr>)"

definition Increment :: "Counter option \<Rightarrow> Counter option" where
  "Increment c = map_option (\<lambda>x. x\<lparr>fails := fails x + 1\<rparr>) c"

definition Counter_Check :: "Counter option \<Rightarrow> goerr option" where
  "Counter_Check c =
     (case c of
        None \<Rightarrow> None
      | Some x \<Rightarrow>
          if fails x \<ge> threshold x
          then Some (Errorf (''aborting due to too many failures ('' @ show_int (fails x) @ '')''))
          else None)"

subsection \<open>The client of the reporting service\<close>

record ErrorReport =
  er_Time :: Timestamp
  er_Reason :: string
  er_File :: string
  er_Line :: int
  er_Stack :: string

record ReportResultRequest =
  rq_Test :: string
  rq_SkipReason :: string
  rq_StartTime :: Timestamp
  rq_Duration :: Duration
  rq_Errors :: "ErrorReport list"

text \<open>A conversion to \<open>int32\<close> wraps around.\<close>

definition int32 :: "int \<Rightarrow> int" where
  "int32 i = (i + 2147483648) mod 4294967296 - 2147483648"

definition report_request :: "pb \<Rightarrow> Result \<Rightarrow> ReportResultRequest" where
  "report_request P r =
     \<lparr>rq_Test = r_Name r, rq_SkipReason = r_SkipReason r, rq_StartTime = ts_New P (r_Start r),
      rq_Duration = d_New P (Time_Sub (r_End r) (r_Start r)),
      rq_Errors = map (\<lambda>e. \<lparr>er_Time = ts_New P (re_Time e), er_Reason = re_Reason e, er_File = re_File e,
                             er_Line = int32 (re_Line e), er_Stack = re_Stack e\<rparr>) (r_Errors r)\<rparr>"

text \<open>The call to the service, an error or the response's \<open>Terminate\<close>; a nil client is \<open>None\<close>.\<close>

type_synonym 'w RPCClient = "(ReportResultRequest \<Rightarrow> 'w \<Rightarrow> (string + bool) \<times> 'w) option"

datatype report_outcome = Reported | ErrTerminate | ReportErr goerr

definition ErrTerminate_err :: goerr where
  "ErrTerminate_err = Errorf ''reporting service requested to terminate''"

definition ReportResult :: "pb \<Rightarrow> 'w RPCClient \<Rightarrow> Result \<Rightarrow> 'w \<Rightarrow> report_outcome \<times> 'w" where
  "ReportResult P c r w =
     (case c of
        None \<Rightarrow> (Reported, w)
      | Some call \<Rightarrow>
          (case call (report_request P r) w of
             (Inl e, w') \<Rightarrow> (ReportErr (Errorf e), w')
           | (Inr terminate, w') \<Rightarrow> (if terminate then ErrTerminate else Reported, w')))"

subsection \<open>The streamed results file\<close>

text \<open>An open file is its content and the offset of the descriptor.  Every operation asks the world
  whether it fails; a write also says how many bytes it wrote.\<close>

record os_file =
  f_content :: string
  f_pos :: nat

record 'w fio =
  io_OpenFile :: "string \<Rightarrow> 'w \<Rightarrow> (string + string) \<times> 'w"    \<comment> \<open>the content found, created empty\<close>
  io_Seek :: "'w \<Rightarrow> string option \<times> 'w"
  io_Truncate :: "'w \<Rightarrow> string option \<times> 'w"
  io_Write :: "string \<Rightarrow> 'w \<Rightarrow> (nat \<times> string option) \<times> 'w"

definition f_write :: "string \<Rightarrow> os_file \<Rightarrow> os_file" where
  "f_write d f =
     (let c = f_content f; p = f_pos f
      in \<lparr>f_content = take p c @ replicate (p - length c) (CHR 0x00) @ d @ drop (p + length d) c,
          f_pos = p + length d\<rparr>)"

definition f_truncate :: "nat \<Rightarrow> os_file \<Rightarrow> os_file" where
  "f_truncate n f =
     f\<lparr>f_content := take n (f_content f) @ replicate (n - length (f_content f)) (CHR 0x00)\<rparr>"

text \<open>\<open>sw_encErr\<close> is the error that the JSON encoder keeps once a write failed.\<close>

record StreamedWriter =
  sw_f :: os_file
  sw_encErr :: "string option"
  sw_lastOffset :: nat

definition NewStreamedWriter :: "'w fio \<Rightarrow> string \<Rightarrow> 'w \<Rightarrow> StreamedWriter res \<times> 'w" where
  "NewStreamedWriter io path w =
     (case io_OpenFile io path w of
        (Inl e, w1) \<Rightarrow> (Inl (Errorf e), w1)
      | (Inr c, w1) \<Rightarrow>
          (case io_Seek io w1 of
             (Some e, w2) \<Rightarrow> (Inl (Errorf e), w2)
           | (None, w2) \<Rightarrow>
               (Inr \<lparr>sw_f = \<lparr>f_content = c, f_pos = length c\<rparr>, sw_encErr = None, sw_lastOffset = length c\<rparr>, w2)))"

text \<open>\<open>json.Encoder.Encode\<close> of an encoded value \<open>d\<close> (with its final newline).\<close>

definition Encode :: "'w fio \<Rightarrow> string \<Rightarrow> StreamedWriter \<Rightarrow> 'w \<Rightarrow> goerr option \<times> StreamedWriter \<times> 'w" where
  "Encode io d sw w =
     (case sw_encErr sw of
        Some e \<Rightarrow> (Some (Errorf e), sw, w)
      | None \<Rightarrow>
          (case io_Write io d w of
             ((n, Some e), w') \<Rightarrow> (Some (Errorf e), sw\<lparr>sw_f := f_write (take n d) (sw_f sw), sw_encErr := Some e\<rparr>, w')
           | ((n, None), w') \<Rightarrow> (None, sw\<lparr>sw_f := f_write d (sw_f sw)\<rparr>, w')))"

text \<open>\<open>os.File.Seek\<close> returns the offset 0 with an error, and the code stores it.\<close>

definition sw_Write ::
  "'w fio \<Rightarrow> (Result \<Rightarrow> string) \<Rightarrow> Result \<Rightarrow> bool \<Rightarrow> StreamedWriter \<Rightarrow> 'w \<Rightarrow> goerr option \<times> StreamedWriter \<times> 'w" where
  "sw_Write io J res update sw w =
     (if update then
        (case io_Seek io w of
           (Some e, w1) \<Rightarrow> (Some (Errorf e), sw, w1)
         | (None, w1) \<Rightarrow>
             let sw1 = sw\<lparr>sw_f := (sw_f sw)\<lparr>f_pos := sw_lastOffset sw\<rparr>\<rparr> in
             (case io_Truncate io w1 of
                (Some e, w2) \<Rightarrow> (Some (Errorf e), sw1, w2)
              | (None, w2) \<Rightarrow> Encode io (J res) (sw1\<lparr>sw_f := f_truncate (sw_lastOffset sw1) (sw_f sw1)\<rparr>) w2))
      else
        (case io_Seek io w of
           (Some e, w1) \<Rightarrow> (Some (Errorf e), sw\<lparr>sw_lastOffset := 0\<rparr>, w1)
         | (None, w1) \<Rightarrow> Encode io (J res) (sw\<lparr>sw_lastOffset := f_pos (sw_f sw)\<rparr>) w1))"

subsubsection \<open>What the file holds\<close>

text \<open>The contract of \<open>StreamedWriter\<close>: a list of records, to which a write appends one or whose last
  record it replaces.\<close>

fun spec_write :: "Result \<times> bool \<Rightarrow> Result list \<Rightarrow> Result list" where
  "spec_write (res, update) rs = (if update then butlast rs @ [res] else rs @ [res])"

definition io_works :: "'w fio \<Rightarrow> bool" where
  "io_works io \<longleftrightarrow>
     (\<forall>w. fst (io_Seek io w) = None) \<and> (\<forall>w. fst (io_Truncate io w) = None) \<and>
     (\<forall>d w. snd (fst (io_Write io d w)) = None)"

text \<open>The file holds what was there before and the encodings of the records, and the writer points at
  the start of the last one.\<close>

definition sw_abs :: "(Result \<Rightarrow> string) \<Rightarrow> string \<Rightarrow> Result list \<Rightarrow> StreamedWriter \<Rightarrow> bool" where
  "sw_abs J old rs sw \<longleftrightarrow>
     f_content (sw_f sw) = old @ concat (map J rs) \<and> f_pos (sw_f sw) = length (f_content (sw_f sw)) \<and>
     sw_lastOffset sw = length (old @ concat (map J (butlast rs))) \<and> sw_encErr sw = None"

lemma io_worksD:
  assumes "io_works io"
  shows "\<exists>w'. io_Seek io w = (None, w')" "\<exists>w'. io_Truncate io w = (None, w')"
    "\<exists>n w'. io_Write io d w = ((n, None), w')"
  using assms by (metis io_works_def prod.collapse)+

lemma sw_Write_step:
  assumes "io_works io" and "sw_abs J old rs sw"
  shows "\<exists>sw' w'. sw_Write io J res update sw w = (None, sw', w') \<and> sw_abs J old (spec_write (res, update) rs) sw'"
proof -
  obtain w1 where s: "io_Seek io w = (None, w1)" using io_worksD(1) [OF assms(1)] by blast
  obtain w2 where t: "io_Truncate io w1 = (None, w2)" using io_worksD(2) [OF assms(1)] by blast
  obtain n w3 where x: "io_Write io (J res) w1 = ((n, None), w3)" using io_worksD(3) [OF assms(1)] by blast
  obtain m w4 where y: "io_Write io (J res) w2 = ((m, None), w4)" using io_worksD(3) [OF assms(1)] by blast
  have pre: "take (length (old @ concat (map J (butlast rs)))) (old @ concat (map J rs)) =
      old @ concat (map J (butlast rs))"
    by (cases rs rule: rev_cases) auto
  have le: "length (concat (map J (butlast rs))) \<le> length (concat (map J rs))"
    by (cases rs rule: rev_cases) auto
  show ?thesis
  proof (cases update)
    case True
    then show ?thesis using assms(2) s t y pre le
      by (auto simp: sw_Write_def Encode_def sw_abs_def f_write_def f_truncate_def Let_def)
  next
    case False
    then show ?thesis using assms(2) s x
      by (auto simp: sw_Write_def Encode_def sw_abs_def f_write_def Let_def)
  qed
qed

fun sw_writes ::
  "'w fio \<Rightarrow> (Result \<Rightarrow> string) \<Rightarrow> (Result \<times> bool) list \<Rightarrow> StreamedWriter \<Rightarrow> 'w \<Rightarrow> goerr option \<times> StreamedWriter \<times> 'w" where
  "sw_writes io J [] sw w = (None, sw, w)"
| "sw_writes io J ((res, update) # ws) sw w =
     (case sw_Write io J res update sw w of
        (Some e, sw', w') \<Rightarrow> (Some e, sw', w')
      | (None, sw', w') \<Rightarrow> sw_writes io J ws sw' w')"

lemma sw_writes_abs:
  assumes "io_works io" and "sw_abs J old rs sw"
  shows "\<exists>sw' w'. sw_writes io J ws sw w = (None, sw', w') \<and> sw_abs J old (fold spec_write ws rs) sw'"
  using assms(2)
proof (induction ws arbitrary: rs sw w)
  case (Cons x ws)
  obtain res update where x: "x = (res, update)" by fastforce
  obtain sw' w' where "sw_Write io J res update sw w = (None, sw', w')"
    "sw_abs J old (spec_write (res, update) rs) sw'"
    using sw_Write_step [OF assms(1) Cons.prems] by blast
  then show ?case using Cons.IH by (simp add: x)
qed simp

text \<open>C21: the streamed results file refines a list of records.  A writer opened on a file with
  any content, and any sequence of writes that append a record or replace the last one (shorter or
  longer than the one it replaces), leaves the old content followed by the encodings of exactly the
  records of the specification, as long as the operating system reports no error.\<close>

theorem streamed_file_refines:
  assumes "io_works io" and "NewStreamedWriter io path w = (Inr sw, w1)"
  shows "\<exists>sw' w2. sw_writes io J ws sw w1 = (None, sw', w2) \<and>
    f_content (sw_f sw') = f_content (sw_f sw) @ concat (map J (fold spec_write ws []))"
proof -
  have "sw_abs J (f_content (sw_f sw)) [] sw"
    using assms(2) by (auto simp: NewStreamedWriter_def sw_abs_def split: sum.splits prod.splits option.splits)
  from sw_writes_abs [OF assms(1) this, of ws w1] show ?thesis by (auto simp: sw_abs_def)
qed

definition ex_io :: "nat fio" where
  "ex_io = \<lparr>io_OpenFile = (\<lambda>p w. (Inr ''old'', w)), io_Seek = (\<lambda>w. (None, Suc w)),
            io_Truncate = (\<lambda>w. (None, Suc w)), io_Write = (\<lambda>d w. ((length d, None), Suc w))\<rparr>"

definition ex_entity :: ProtoEntity where
  "ex_entity = \<lparr>g_Type = EntityType_TEST, g_Name = ''pkg.Test'', g_Package = ''pkg'', g_Description = [], g_Contacts = [],
     g_Attributes = [], g_SearchFlags = [], g_DataFiles = [], g_Services = [], g_Fixture = [], g_LegacyData = None,
     g_TestBedDeps = [], g_Requirements = [], g_BugComponent = []\<rparr>"

definition ex_result :: "string \<Rightarrow> Result" where
  "ex_result skip = mkResult (case NewTest ex_pb ex_entity of Inr t \<Rightarrow> t) [] 0 1 ''/tmp/out'' skip"

theorem streamed_file_refines_witness:
  "io_works ex_io \<and>
   (\<exists>sw w1 sw' w2. NewStreamedWriter ex_io ''/res/streamed_results.jsonl'' 0 = (Inr sw, w1) \<and>
      sw_writes ex_io r_SkipReason
        [(ex_result ''longer'', False), (ex_result ''new'', True), (ex_result ''b'', False)] sw w1 = (None, sw', w2) \<and>
      f_content (sw_f sw') = ''oldnewb'')"
proof -
  have io: "io_works ex_io" by (simp add: io_works_def ex_io_def)
  define sw where
    "sw = \<lparr>sw_f = \<lparr>f_content = ''old'', f_pos = length ''old''\<rparr>, sw_encErr = None, sw_lastOffset = length ''old''\<rparr>"
  have new: "NewStreamedWriter ex_io ''/res/streamed_results.jsonl'' 0 = (Inr sw, Suc 0)"
    by (simp add: NewStreamedWriter_def ex_io_def sw_def)
  have r: "r_SkipReason (ex_result s) = s" for s by (simp add: ex_result_def)
  from streamed_file_refines [OF io new, of r_SkipReason
      "[(ex_result ''longer'', False), (ex_result ''new'', True), (ex_result ''b'', False)]"]
  obtain sw' w2 where ws: "sw_writes ex_io r_SkipReason
      [(ex_result ''longer'', False), (ex_result ''new'', True), (ex_result ''b'', False)] sw (Suc 0) = (None, sw', w2)"
    and c: "f_content (sw_f sw') = ''oldnewb''"
    by (auto simp: r sw_def)
  show ?thesis using io new ws c by blast
qed

text \<open>C40: when the seek that records the offset of a new record fails, the writer keeps the offset 0,
  so that the next update erases every record written before: after it the file holds nothing but the
  updated record.\<close>

theorem failed_seek_erases:
  assumes "sw_Write io J res False sw w = (Some e, sw', w')" and "fst (io_Seek io w) \<noteq> None"
    and "sw_Write io J res' True sw' w' = (None, sw'', w'')"
  shows "f_content (sw_f sw'') = J res'"
proof -
  have "sw_lastOffset sw' = 0"
    using assms(1,2) by (auto simp: sw_Write_def split: option.splits prod.splits)
  then show ?thesis using assms(3)
    by (auto simp: sw_Write_def Encode_def f_write_def f_truncate_def Let_def
        split: option.splits prod.splits if_splits)
qed

definition ex_bad_io :: "nat fio" where
  "ex_bad_io = ex_io\<lparr>io_Seek := (\<lambda>w. (if w = 0 then Some ''illegal seek'' else None, Suc w))\<rparr>"

theorem failed_seek_erases_witness:
  "\<exists>sw' sw''.
     sw_Write ex_bad_io r_SkipReason (ex_result ''b'') False
       \<lparr>sw_f = \<lparr>f_content = ''a'', f_pos = 1\<rparr>, sw_encErr = None, sw_lastOffset = 0\<rparr> 0 =
         (Some (Errorf ''illegal seek''), sw', 1) \<and>
     sw_Write ex_bad_io r_SkipReason (ex_result ''c'') True sw' 1 = (None, sw'', 4) \<and>
     f_content (sw_f sw'') = ''c''"
proof -
  let ?sw = "\<lparr>sw_f = \<lparr>f_content = ''a'', f_pos = 1\<rparr>, sw_encErr = None, sw_lastOffset = 0\<rparr>"
  have a: "sw_Write ex_bad_io r_SkipReason (ex_result ''b'') False ?sw 0 = (Some (Errorf ''illegal seek''), ?sw, 1)"
    by (simp add: sw_Write_def ex_bad_io_def)
  have b: "\<exists>sw''. sw_Write ex_bad_io r_SkipReason (ex_result ''c'') True ?sw 1 = (None, sw'', 4)"
    by (simp add: sw_Write_def Encode_def ex_bad_io_def ex_io_def)
  then obtain sw'' where b: "sw_Write ex_bad_io r_SkipReason (ex_result ''c'') True ?sw 1 = (None, sw'', 4)" by blast
  have "fst (io_Seek ex_bad_io 0) \<noteq> None" by (simp add: ex_bad_io_def)
  from failed_seek_erases [OF a this b] have "f_content (sw_f sw'') = ''c''" by (simp add: ex_result_def)
  with a b show ?thesis by blast
qed

end
