(* ===== verification/Handlers.thy ===== *)
theory Handlers
  imports Combined Timing Logging Report
begin

text \<open>
  The handlers of test execution events, \<open>internal/minidriver/processor/handler*.go\<close>.  A handler is a
  value of the datatype \<open>handler\<close>, one constructor per Go type with its fields; \<open>h_call\<close> is a call of
  one of its methods and returns the error, the updated handler and the updated shared state, or
  that the method panicked.  What handlers share by pointer (the multiplexer of loggers, the counter
  of failures, the timing log of the context) is part of the shared state.  The goroutines that copy
  output files are values too: they are pending in the handler that started them until one is run.
  Output to the console is not modelled.
\<close>

subsection \<open>Standard library\<close>

text \<open>\<open>filepath.Dir\<close>, \<open>filepath.Base\<close> and \<open>filepath.Rel\<close> on Unix.\<close>

definition path_Dir :: "string \<Rightarrow> string" where
  "path_Dir p = Clean (rev (dropWhile (\<lambda>c. c \<noteq> CHR ''/'') (rev p)))"

definition path_Base :: "string \<Rightarrow> string" where
  "path_Base p =
     (if p = [] then ''.''
      else
        let q = dropWhile (\<lambda>c. c = CHR ''/'') (rev p)
        in if q = [] then ''/'' else rev (takeWhile (\<lambda>c. c \<noteq> CHR ''/'') q))"

definition comps :: "string \<Rightarrow> string list" where
  "comps p =
     (let q = (if HasPrefix p ''/'' then tl p else p) in if q = [] then [] else split_on (CHR ''/'') q)"

fun rest_after :: "string list \<Rightarrow> string list \<Rightarrow> string list \<times> string list" where
  "rest_after (b # bs) (t # ts) = (if b = t then rest_after bs ts else (b # bs, t # ts))"
| "rest_after bs ts = (bs, ts)"

definition path_Rel :: "string \<Rightarrow> string \<Rightarrow> string res" where
  "path_Rel basepath targpath =
     (let base = Clean basepath; targ = Clean targpath in
      if targ = base then Inr ''.''
      else
        let base' = (if base = ''.'' then [] else base);
            err = Errorf (''Rel: can't make '' @ targpath @ '' relative to '' @ basepath)
        in if HasPrefix base' ''/'' \<noteq> HasPrefix targ ''/'' then Inl err
           else
             let (bs, ts) = rest_after (comps base') (comps targ)
             in if bs \<noteq> [] \<and> ts \<noteq> [] \<and> hd bs = ''..'' then Inl err
                else Inr (Join (replicate (length bs) ''..'' @ ts) ''/''))"

lemma comps_Clean: "HasPrefix p ''/'' \<Longrightarrow> ''..'' \<notin> set (comps (Clean p))"
proof
  assume p: "HasPrefix p ''/''" and m: "''..'' \<in> set (comps (Clean p))"
  let ?cs = "clean_comps True [] (split_on (CHR ''/'') p)"
  have c: "Clean p = CHR ''/'' # Join ?cs ''/''" using p by (simp add: Clean_def Let_def)
  have cs: "x \<in> set ?cs \<Longrightarrow> x \<noteq> ''..'' \<and> CHR ''/'' \<notin> set x" for x
    using clean_comps_rooted [of "[]" x "split_on (CHR ''/'') p"] split_on_no_sep by auto
  show False
  proof (cases "Join ?cs ''/'' = []")
    case True
    then show ?thesis using m by (simp add: c comps_def HasPrefix_slash)
  next
    case False
    then have "?cs \<noteq> []" by auto
    then have "split_on (CHR ''/'') (Join ?cs ''/'') = ?cs" using split_on_Join cs by blast
    then have "comps (Clean p) = ?cs" using False by (simp add: c comps_def HasPrefix_slash)
    then show ?thesis using m cs by auto
  qed
qed

lemma rest_after_suffix: "rest_after bs ts = (bs', ts') \<Longrightarrow> set bs' \<subseteq> set bs"
  by (induction bs ts rule: rest_after.induct) (auto split: if_splits)

lemma path_Rel_rooted:
  assumes "HasPrefix a ''/''" and "HasPrefix b ''/''"
  shows "\<exists>r. path_Rel a b = Inr r"
proof -
  have ra: "HasPrefix (Clean a) ''/''" and rb: "HasPrefix (Clean b) ''/''"
    using assms Clean_rooted by auto
  then have dot: "Clean a \<noteq> ''.''" by (auto simp: HasPrefix_slash)
  obtain bs ts where r: "rest_after (comps (Clean a)) (comps (Clean b)) = (bs, ts)" by fastforce
  have "bs \<noteq> [] \<Longrightarrow> hd bs \<noteq> ''..''"
    using rest_after_suffix [OF r] comps_Clean [OF assms(1)] by (metis hd_in_set subsetD)
  then show ?thesis using ra rb dot r by (auto simp: path_Rel_def Let_def)
qed

subsection \<open>Events\<close>

record perrLocation =
  x_File :: string
  x_Line :: int
  x_Stack :: string

record perror =
  x_Reason :: string
  x_Location :: "perrLocation option"

datatype RunTestsResponse =
    R_RunLog "Timestamp option" string LogLevel
  | R_EntityStart "Timestamp option" ProtoEntity string
  | R_EntityLog "Timestamp option" string string LogLevel
  | R_EntityError "Timestamp option" string perror
  | R_EntityEnd "Timestamp option" string "string list" "TimingStage option"
  | R_EntityCopyEnd string
  | R_StackOperation StackOperationRequest
  | R_Heartbeat
  | R_unknown string

record entityInfo =
  i_Entity :: ProtoEntity
  i_Start :: int
  i_IntermediateOutDir :: string
  i_FinalOutDir :: string

record logEntry =
  le_Time :: int
  le_Text :: string
  le_Level :: Level

record errorEntry =
  ee_Time :: int
  ee_Error :: perror

record entityResult =
  en_Start :: int
  en_End :: int
  en_Skip :: "string list"
  en_Errors :: "errorEntry list"
  en_TimingLog :: "TimingStage option"

definition no_location :: perrLocation where
  "no_location = \<lparr>x_File = [], x_Line = 0, x_Stack = []\<rparr>"

definition GetLocation :: "perror \<Rightarrow> perrLocation" where
  "GetLocation e = (case x_Location e of None \<Rightarrow> no_location | Some l \<Rightarrow> l)"

definition newResult :: "pb \<Rightarrow> entityInfo \<Rightarrow> entityResult \<Rightarrow> Result res" where
  "newResult P i r =
     (if g_Type (i_Entity i) \<noteq> EntityType_TEST
      then Inl (BUG (''cannot create result for '' @ type_String (g_Type (i_Entity i))))
      else
        case NewTest P (i_Entity i) of
          Inl err \<Rightarrow> Inl err
        | Inr test \<Rightarrow>
            let es = map (\<lambda>e. \<lparr>re_Time = ee_Time e, re_Reason = x_Reason (ee_Error e),
                               re_File = x_File (GetLocation (ee_Error e)),
                               re_Line = x_Line (GetLocation (ee_Error e)),
                               re_Stack = x_Stack (GetLocation (ee_Error e))\<rparr>) (en_Errors r)
            in Inr (mkResult test es (en_Start r) (en_End r) (i_FinalOutDir i) (Join (en_Skip r) '', '')))"

text \<open>Errors of handlers: a fatal error keeps the caller from retrying, however it is wrapped
  (\<open>errors.As\<close>).\<close>

datatype perr = Plain goerr | Fatal goerr | PWrap string perr

definition newFatalError :: "goerr \<Rightarrow> perr" where
  "newFatalError err = Fatal (Wrap ''terminating test execution'' err)"

fun as_fatal :: "perr \<Rightarrow> goerr option" where
  "as_fatal (Plain e) = None"
| "as_fatal (Fatal e) = Some e"
| "as_fatal (PWrap m e) = as_fatal e"

datatype 'a go = Ret 'a | Panic string

subsection \<open>State\<close>

record 'w penv =
  p_os :: "'w os"
  p_pb :: pb
  p_log :: "'w lenv"                                    \<comment> \<open>clock, writers and parent of the logger\<close>
  p_io :: "'w fio"                                      \<comment> \<open>the file of streamed results\<close>
  p_JSON :: "Result \<Rightarrow> string"
  p_client :: "'w RPCClient"
  p_Create :: "string \<Rightarrow> 'w \<Rightarrow> string option \<times> 'w"        \<comment> \<open>\<open>os.Create\<close>\<close>
  p_Close :: "string \<Rightarrow> 'w \<Rightarrow> 'w"
  p_ReadDir :: "'w \<Rightarrow> string \<Rightarrow> string + string list"
  p_Rename :: "string \<Rightarrow> string \<Rightarrow> 'w \<Rightarrow> string option \<times> 'w"
  p_RemoveAll :: "string \<Rightarrow> 'w \<Rightarrow> 'w"
  p_pull :: "string \<Rightarrow> string \<Rightarrow> 'w \<Rightarrow> string option \<times> 'w"
  p_pass :: "RunTestsResponse \<Rightarrow> 'w \<Rightarrow> string option \<times> 'w"
  p_handle :: "StackOperationRequest \<Rightarrow> 'w \<Rightarrow> StackOperationResponse option \<times> 'w"
  p_stage :: "nat list option"                          \<comment> \<open>current timing stage of the context\<close>
  p_deadline :: "int option"                            \<comment> \<open>deadline of the context\<close>
  p_timeout :: "int option"                             \<comment> \<open>timeout set on the context\<close>
  p_diagnose :: "string \<Rightarrow> 'w \<Rightarrow> string \<times> 'w"
  p_fmtErr :: "perr \<Rightarrow> string"                          \<comment> \<open>an error with its stack trace\<close>
  p_fmtSec :: "int \<Rightarrow> string"                           \<comment> \<open>the seconds of a duration, as a float\<close>
  p_send :: "StackOperationResponse option \<Rightarrow> 'w \<Rightarrow> string option \<times> 'w"

record 'w sh =
  sh_w :: 'w
  sh_mux :: MultiLogger
  sh_next :: nat                                        \<comment> \<open>identity of the next logger\<close>
  sh_counter :: "Counter option"
  sh_timing :: Stage

record entityLogger =
  el_Logger :: SinkLogger
  el_File :: string

datatype handler =
    ResultsH "Result list"
  | LoggingH string "entityLogger list"                 \<comment> \<open>\<open>resDir\<close>, \<open>loggers\<close>\<close>
  | TimingH "nat list option"                           \<comment> \<open>\<open>stage\<close>\<close>
  | StreamedH string "StreamedWriter option"            \<comment> \<open>\<open>resDir\<close>, \<open>writer\<close>\<close>
  | RPCResultsH
  | FailFastH
  | CopyOutputH "entityInfo list"                       \<comment> \<open>\<open>pullers\<close>\<close>
  | PassThroughH "entityInfo list"                      \<comment> \<open>\<open>pullers\<close>\<close>
  | StackOperationH

type_synonym 'w hres = "(perr option \<times> handler \<times> 'w sh) go"

definition emit :: "'w penv \<Rightarrow> Level \<Rightarrow> string \<Rightarrow> 'w sh \<Rightarrow> 'w sh" where
  "emit env level text s = s\<lparr>sh_w := log (p_log env) (sh_mux s) level text (sh_w s)\<rparr>"

text \<open>The methods of \<open>baseHandler\<close> do nothing.\<close>

definition base :: "handler \<Rightarrow> 'w sh \<Rightarrow> 'w hres" where
  "base h s = Ret (None, h, s)"

subsection \<open>Results\<close>

definition results_EntityEnd :: "'w penv \<Rightarrow> entityInfo \<Rightarrow> entityResult \<Rightarrow> Result list \<Rightarrow> 'w sh \<Rightarrow> 'w hres" where
  "results_EntityEnd env i r results s =
     (if g_Type (i_Entity i) \<noteq> EntityType_TEST then Ret (None, ResultsH results, s)
      else case newResult (p_pb env) i r of
             Inl err \<Rightarrow> Ret (Some (Plain err), ResultsH results, s)
           | Inr result \<Rightarrow> Ret (None, ResultsH (results @ [result]), s))"

subsection \<open>Logs of entities\<close>

definition entityTypeName :: "EntityType \<Rightarrow> string" where
  "entityTypeName t =
     (case t of
        EntityType_TEST \<Rightarrow> ''test''
      | EntityType_FIXTURE \<Rightarrow> ''fixture''
      | EntityType_other n \<Rightarrow> ''unknown entity type ('' @ show_int n @ '')'')"

definition NewTestLogWriter :: "'w RPCClient \<Rightarrow> string \<Rightarrow> string \<Rightarrow> writer" where
  "NewTestLogWriter c testName logPath = (case c of None \<Rightarrow> WNil | Some call \<Rightarrow> WRPC testName logPath)"

definition open_logger :: "writer list \<Rightarrow> string \<Rightarrow> entityLogger list \<Rightarrow> 'w sh \<Rightarrow> entityLogger list \<times> 'w sh" where
  "open_logger writers f loggers s =
     (let sink = \<lparr>sl_id = sh_next s, sl_level = LevelDebug, sl_timestamp = True, sl_writers = writers\<rparr>
      in (loggers @ [\<lparr>el_Logger = sink, el_File = f\<rparr>],
          s\<lparr>sh_mux := AddLogger sink (sh_mux s), sh_next := Suc (sh_next s)\<rparr>))"

definition logging_EntityStart ::
  "'w penv \<Rightarrow> entityInfo \<Rightarrow> string \<Rightarrow> entityLogger list \<Rightarrow> 'w sh \<Rightarrow> 'w hres" where
  "logging_EntityStart env i resDir loggers s =
     (let f = path_Join [i_FinalOutDir i, ''log.txt'']; e = i_Entity i in
      case p_Create env f (sh_w s) of
        (Some err, w1) \<Rightarrow> Ret (Some (Plain (Errorf err)), LoggingH resDir loggers, s\<lparr>sh_w := w1\<rparr>)
      | (None, w1) \<Rightarrow>
          let s1 = s\<lparr>sh_w := w1\<rparr>;
              writers = (if g_Type e = EntityType_TEST
                then case path_Rel resDir f of
                       Inl err \<Rightarrow> Inl err
                     | Inr relPath \<Rightarrow> Inr [WFile f, NewTestLogWriter (p_client env) (g_Name e) relPath]
                else Inr [WFile f])
          in case writers of
               Inl err \<Rightarrow> Ret (Some (Plain err), LoggingH resDir loggers, s1)
             | Inr ws \<Rightarrow>
                 let (loggers', s2) = open_logger ws f loggers s1
                 in Ret (None, LoggingH resDir loggers',
                      emit env LevelDebug (''Started '' @ entityTypeName (g_Type e) @ '' '' @ g_Name e) s2))"

definition leveled :: "'w penv \<Rightarrow> logEntry \<Rightarrow> 'w sh \<Rightarrow> 'w sh" where
  "leveled env l s =
     (let text = ''['' @ Format_clock (le_Time l) @ ''] '' @ le_Text l in
      if le_Level l = LevelInfo then emit env LevelInfo text s
      else if le_Level l = LevelDebug then emit env LevelDebug text s
      else emit env LevelInfo (''UNKNOWN LEVEL '' @ text) s)"

definition logging_EntityError :: "'w penv \<Rightarrow> errorEntry \<Rightarrow> 'w sh \<Rightarrow> 'w sh" where
  "logging_EntityError env e s =
     (let ts = Format_clock (ee_Time e);
          loc = x_Location (ee_Error e);
          reason = x_Reason (ee_Error e);
          s1 = (case loc of
                  None \<Rightarrow> emit env LevelInfo (''['' @ ts @ ''] Error: '' @ reason) s
                | Some l \<Rightarrow>
                    emit env LevelInfo
                      (''['' @ ts @ ''] Error at '' @ path_Base (x_File l) @ '':'' @ show_int (x_Line l) @ '': '' @ reason) s);
          stack = x_Stack (GetLocation (ee_Error e))
      in if stack \<noteq> [] then emit env LevelInfo (''['' @ ts @ ''] Stack trace:'' @ newline @ stack) s1 else s1)"

definition logging_EntityEnd ::
  "'w penv \<Rightarrow> entityInfo \<Rightarrow> entityResult \<Rightarrow> string \<Rightarrow> entityLogger list \<Rightarrow> 'w sh \<Rightarrow> 'w hres" where
  "logging_EntityEnd env i r resDir loggers s =
     (let e = i_Entity i in
      if en_Skip r \<noteq> [] then
        Ret (None, LoggingH resDir loggers,
          emit env LevelDebug (''Skipped test '' @ g_Name e @ '' due to missing dependencies: '' @ Join (en_Skip r) '', '') s)
      else
        let s1 = emit env LevelDebug
              (''Completed '' @ entityTypeName (g_Type e) @ '' '' @ g_Name e @ '' in '' @
               Duration_String (Duration_Round (Time_Sub (en_End r) (en_Start r)) Millisecond) @ '' with '' @
               show_nat (length (en_Errors r)) @ '' error(s)'') s
        in if loggers = [] then Panic ''index out of range [-1]''
           else
             let logger = last loggers
             in Ret (None, LoggingH resDir (butlast loggers),
                  s1\<lparr>sh_mux := RemoveLogger (el_Logger logger) (sh_mux s1),
                     sh_w := p_Close env (el_File logger) (sh_w s1)\<rparr>))"

subsection \<open>Timing\<close>

definition timing_EntityStart :: "'w penv \<Rightarrow> entityInfo \<Rightarrow> nat list option \<Rightarrow> 'w sh \<Rightarrow> 'w hres" where
  "timing_EntityStart env i stage s =
     (if g_Type (i_Entity i) \<noteq> EntityType_TEST then Ret (None, TimingH stage, s)
      else if stage \<noteq> None then Ret (Some (Plain (Errorf ''two tests started concurrently'')), TimingH stage, s)
      else
        let (p, root, w) = timing_Start (l_Now (p_log env)) (p_stage env) (g_Name (i_Entity i)) (sh_timing s) (sh_w s)
        in Ret (None, TimingH p, s\<lparr>sh_timing := root, sh_w := w\<rparr>))"

definition timing_EntityEnd ::
  "'w penv \<Rightarrow> entityInfo \<Rightarrow> entityResult \<Rightarrow> nat list option \<Rightarrow> 'w sh \<Rightarrow> 'w hres" where
  "timing_EntityEnd env i r stage s =
     (case stage of
        None \<Rightarrow> Ret (None, TimingH None, s)
      | Some p \<Rightarrow>
          let failed = (\<lambda>err. emit env LevelInfo
                (''Failed importing timing log for '' @ g_Name (i_Entity i) @ '': '' @ err_msg err));
              s1 = (case LogFromProto (p_pb env) (en_TimingLog r) of
                      Inl err \<Rightarrow> failed err s
                    | Inr l \<Rightarrow>
                        (case timing_Import p l (sh_timing s) of
                           (Some err, root) \<Rightarrow> failed err s
                         | (None, root) \<Rightarrow> s\<lparr>sh_timing := root\<rparr>));
              (root, w) = timing_End (l_Now (p_log env)) p (sh_timing s1) (sh_w s1)
          in Ret (None, TimingH None, s1\<lparr>sh_timing := root, sh_w := w\<rparr>))"

subsection \<open>Streamed results\<close>

definition StreamedResultsFilename :: string where
  "StreamedResultsFilename = ''streamed_results.jsonl''"

definition nil_deref :: string where
  "nil_deref = ''invalid memory address or nil pointer dereference''"

definition streamed_RunStart :: "'w penv \<Rightarrow> string \<Rightarrow> StreamedWriter option \<Rightarrow> 'w sh \<Rightarrow> 'w hres" where
  "streamed_RunStart env resDir writer s =
     (case NewStreamedWriter (p_io env) (path_Join [resDir, StreamedResultsFilename]) (sh_w s) of
        (Inl err, w) \<Rightarrow> Ret (Some (Plain err), StreamedH resDir writer, s\<lparr>sh_w := w\<rparr>)
      | (Inr wr, w) \<Rightarrow> Ret (None, StreamedH resDir (Some wr), s\<lparr>sh_w := w\<rparr>))"

definition streamed_write ::
  "'w penv \<Rightarrow> Result \<Rightarrow> bool \<Rightarrow> string \<Rightarrow> StreamedWriter option \<Rightarrow> 'w sh \<Rightarrow> 'w hres" where
  "streamed_write env res update resDir writer s =
     (case writer of
        None \<Rightarrow> Panic nil_deref
      | Some wr \<Rightarrow>
          let (e, wr', w) = sw_Write (p_io env) (p_JSON env) res update wr (sh_w s)
          in Ret (map_option Plain e, StreamedH resDir (Some wr'), s\<lparr>sh_w := w\<rparr>))"

definition streamed_EntityStart ::
  "'w penv \<Rightarrow> entityInfo \<Rightarrow> string \<Rightarrow> StreamedWriter option \<Rightarrow> 'w sh \<Rightarrow> 'w hres" where
  "streamed_EntityStart env i resDir writer s =
     (if g_Type (i_Entity i) \<noteq> EntityType_TEST then Ret (None, StreamedH resDir writer, s)
      else case NewTest (p_pb env) (i_Entity i) of
             Inl err \<Rightarrow> Ret (Some (Plain err), StreamedH resDir writer, s)
           | Inr t \<Rightarrow>
               streamed_write env (mkResult t [] (i_Start i) zero_time (i_FinalOutDir i) []) False resDir writer s)"

definition streamed_EntityEnd ::
  "'w penv \<Rightarrow> entityInfo \<Rightarrow> entityResult \<Rightarrow> string \<Rightarrow> StreamedWriter option \<Rightarrow> 'w sh \<Rightarrow> 'w hres" where
  "streamed_EntityEnd env i r resDir writer s =
     (if g_Type (i_Entity i) \<noteq> EntityType_TEST then Ret (None, StreamedH resDir writer, s)
      else case newResult (p_pb env) i r of
             Inl err \<Rightarrow> Ret (Some (Plain err), StreamedH resDir writer, s)
           | Inr result \<Rightarrow> streamed_write env result True resDir writer s)"

definition streamed_RunEnd :: "'w penv \<Rightarrow> string \<Rightarrow> StreamedWriter option \<Rightarrow> 'w sh \<Rightarrow> 'w hres" where
  "streamed_RunEnd env resDir writer s =
     (case writer of
        None \<Rightarrow> Panic nil_deref
      | Some wr \<Rightarrow>
          Ret (None, StreamedH resDir None,
            s\<lparr>sh_w := p_Close env (path_Join [resDir, StreamedResultsFilename]) (sh_w s)\<rparr>))"

subsection \<open>Results to the reporting service\<close>

definition rpc_EntityEnd :: "'w penv \<Rightarrow> entityInfo \<Rightarrow> entityResult \<Rightarrow> 'w sh \<Rightarrow> 'w hres" where
  "rpc_EntityEnd env i r s =
     (if g_Type (i_Entity i) \<noteq> EntityType_TEST then Ret (None, RPCResultsH, s)
      else case newResult (p_pb env) i r of
             Inl err \<Rightarrow> Ret (Some (Plain err), RPCResultsH, s)
           | Inr result \<Rightarrow>
               let (outcome, w) = ReportResult (p_pb env) (p_client env) result (sh_w s)
               in Ret (case outcome of
                         Reported \<Rightarrow> None
                       | ErrTerminate \<Rightarrow> Some (newFatalError ErrTerminate_err)
                       | ReportErr err \<Rightarrow> Some (Plain err), RPCResultsH, s\<lparr>sh_w := w\<rparr>))"

subsection \<open>Too many failures\<close>

definition failfast_RunStart :: "'w sh \<Rightarrow> 'w hres" where
  "failfast_RunStart s = Ret (map_option Plain (Counter_Check (sh_counter s)), FailFastH, s)"

definition failfast_EntityEnd :: "entityInfo \<Rightarrow> entityResult \<Rightarrow> 'w sh \<Rightarrow> 'w hres" where
  "failfast_EntityEnd i r s =
     (if g_Type (i_Entity i) \<noteq> EntityType_TEST then Ret (None, FailFastH, s)
      else if en_Errors r \<noteq> [] then
        let s1 = s\<lparr>sh_counter := Increment (sh_counter s)\<rparr>
        in Ret (map_option newFatalError (Counter_Check (sh_counter s1)), FailFastH, s1)
      else Ret (None, FailFastH, s))"

subsection \<open>Output files\<close>

fun move_files :: "'w penv \<Rightarrow> string \<Rightarrow> string \<Rightarrow> string list \<Rightarrow> 'w \<Rightarrow> goerr option \<times> 'w" where
  "move_files env srcDir dstDir [] w = (None, w)"
| "move_files env srcDir dstDir (f # fs) w =
     (let src = path_Join [srcDir, f];
          dst0 = path_Join [dstDir, f];
          dst = (if os_Stat (p_os env) w dst0 = StatOk then dst0 @ ''.from_test'' else dst0)
      in case p_Rename env src dst w of
           (Some e, w1) \<Rightarrow> (Some (Errorf e), w1)
         | (None, w1) \<Rightarrow> move_files env srcDir dstDir fs w1)"

definition moveTestOutputData :: "'w penv \<Rightarrow> string \<Rightarrow> string \<Rightarrow> 'w \<Rightarrow> goerr option \<times> 'w" where
  "moveTestOutputData env outDir dstDir w =
     (case os_MkdirTemp (p_os env) (path_Dir dstDir) ''pulltmp.'' w of
        (Inl e, w1) \<Rightarrow> (Some (Errorf e), w1)
      | (Inr tmpDir, w1) \<Rightarrow>
          let srcDir = path_Join [tmpDir, ''files''];
              (r, w2) = (case p_pull env outDir srcDir w1 of
                  (Some e, w2) \<Rightarrow> (Some (Errorf e), w2)
                | (None, w2) \<Rightarrow>
                    (case p_ReadDir env w2 srcDir of
                       Inl e \<Rightarrow> (Some (Errorf e), w2)
                     | Inr fs \<Rightarrow> move_files env srcDir dstDir fs w2))
          in (r, p_RemoveAll env tmpDir w2))"

definition pull_output :: "'w penv \<Rightarrow> entityInfo \<Rightarrow> 'w sh \<Rightarrow> 'w sh" where
  "pull_output env i s =
     (case moveTestOutputData env (i_IntermediateOutDir i) (i_FinalOutDir i) (sh_w s) of
        (None, w) \<Rightarrow> s\<lparr>sh_w := w\<rparr>
      | (Some err, w) \<Rightarrow>
          emit env LevelInfo (''Failed to copy output data of '' @ g_Name (i_Entity i) @ '': '' @ err_msg err)
            (s\<lparr>sh_w := w\<rparr>))"

text \<open>\<open>EntityCopyEnd\<close> starts a goroutine, a puller; the bodies of the two kinds of pullers follow.\<close>

definition copy_EntityCopyEnd :: "entityInfo \<Rightarrow> entityInfo list \<Rightarrow> 'w sh \<Rightarrow> 'w hres" where
  "copy_EntityCopyEnd i pullers s =
     Ret (None, CopyOutputH (if i_IntermediateOutDir i = [] then pullers else pullers @ [i]), s)"

definition copy_puller :: "'w penv \<Rightarrow> entityInfo \<Rightarrow> 'w sh \<Rightarrow> 'w sh" where
  "copy_puller env i s = pull_output env i s"

subsection \<open>Passing events through\<close>

definition pass :: "'w penv \<Rightarrow> RunTestsResponse \<Rightarrow> 'w sh \<Rightarrow> string option \<times> 'w sh" where
  "pass env ev s = (let (e, w) = p_pass env ev (sh_w s) in (e, s\<lparr>sh_w := w\<rparr>))"

definition pass_on :: "'w penv \<Rightarrow> RunTestsResponse \<Rightarrow> entityInfo list \<Rightarrow> 'w sh \<Rightarrow> 'w hres" where
  "pass_on env ev pullers s =
     (let (e, s1) = pass env ev s in Ret (map_option (\<lambda>m. Plain (Errorf m)) e, PassThroughH pullers, s1))"

definition pass_EntityStart :: "'w penv \<Rightarrow> entityInfo \<Rightarrow> entityInfo list \<Rightarrow> 'w sh \<Rightarrow> 'w hres" where
  "pass_EntityStart env i =
     pass_on env (R_EntityStart (Some (ts_New (p_pb env) (i_Start i))) (i_Entity i) (i_FinalOutDir i))"

definition pass_EntityLog :: "'w penv \<Rightarrow> entityInfo \<Rightarrow> logEntry \<Rightarrow> entityInfo list \<Rightarrow> 'w sh \<Rightarrow> 'w hres" where
  "pass_EntityLog env i l =
     pass_on env (R_EntityLog (Some (ts_New (p_pb env) (le_Time l))) (g_Name (i_Entity i)) (le_Text l)
       (LevelToProto (le_Level l)))"

definition pass_EntityError :: "'w penv \<Rightarrow> entityInfo \<Rightarrow> errorEntry \<Rightarrow> entityInfo list \<Rightarrow> 'w sh \<Rightarrow> 'w hres" where
  "pass_EntityError env i e =
     pass_on env (R_EntityError (Some (ts_New (p_pb env) (ee_Time e))) (g_Name (i_Entity i)) (ee_Error e))"

definition pass_EntityEnd :: "'w penv \<Rightarrow> entityInfo \<Rightarrow> entityResult \<Rightarrow> entityInfo list \<Rightarrow> 'w sh \<Rightarrow> 'w hres" where
  "pass_EntityEnd env i r =
     pass_on env (R_EntityEnd (Some (ts_New (p_pb env) (en_End r))) (g_Name (i_Entity i)) (en_Skip r) (en_TimingLog r))"

definition pass_EntityCopyEnd :: "entityInfo \<Rightarrow> entityInfo list \<Rightarrow> 'w sh \<Rightarrow> 'w hres" where
  "pass_EntityCopyEnd i pullers s = Ret (None, PassThroughH (pullers @ [i]), s)"

definition pass_puller :: "'w penv \<Rightarrow> entityInfo \<Rightarrow> 'w sh \<Rightarrow> 'w sh" where
  "pass_puller env i s =
     (let s1 = (if i_IntermediateOutDir i \<noteq> [] then pull_output env i s else s);
          (e, s2) = pass env (R_EntityCopyEnd (g_Name (i_Entity i))) s1
      in if e \<noteq> None then emit env LevelInfo ''Error: failed to pass-through EntityCopyEnd'' s2 else s2)"

definition pass_RunLog :: "'w penv \<Rightarrow> logEntry \<Rightarrow> entityInfo list \<Rightarrow> 'w sh \<Rightarrow> 'w hres" where
  "pass_RunLog env l =
     pass_on env (R_RunLog (Some (ts_New (p_pb env) (le_Time l))) (le_Text l) (LevelToProto (le_Level l)))"

subsection \<open>The interface\<close>

datatype hcall =
    HRunStart
  | HEntityStart entityInfo
  | HEntityLog entityInfo logEntry
  | HEntityError entityInfo errorEntry
  | HEntityEnd entityInfo entityResult
  | HEntityCopyEnd entityInfo
  | HRunLog logEntry
  | HRunEnd

text \<open>\<open>RunEnd\<close> of the two handlers that copy files waits for their pullers.\<close>

fun h_call :: "'w penv \<Rightarrow> hcall \<Rightarrow> handler \<Rightarrow> 'w sh \<Rightarrow> 'w hres" where
  "h_call env (HEntityEnd i r) (ResultsH results) s = results_EntityEnd env i r results s"
| "h_call env (HEntityStart i) (LoggingH d ls) s = logging_EntityStart env i d ls s"
| "h_call env (HEntityLog i l) (LoggingH d ls) s = Ret (None, LoggingH d ls, leveled env l s)"
| "h_call env (HEntityError i e) (LoggingH d ls) s = Ret (None, LoggingH d ls, logging_EntityError env e s)"
| "h_call env (HEntityEnd i r) (LoggingH d ls) s = logging_EntityEnd env i r d ls s"
| "h_call env (HRunLog l) (LoggingH d ls) s = Ret (None, LoggingH d ls, leveled env l s)"
| "h_call env (HEntityStart i) (TimingH st) s = timing_EntityStart env i st s"
| "h_call env (HEntityEnd i r) (TimingH st) s = timing_EntityEnd env i r st s"
| "h_call env HRunStart (StreamedH d wr) s = streamed_RunStart env d wr s"
| "h_call env (HEntityStart i) (StreamedH d wr) s = streamed_EntityStart env i d wr s"
| "h_call env (HEntityEnd i r) (StreamedH d wr) s = streamed_EntityEnd env i r d wr s"
| "h_call env HRunEnd (StreamedH d wr) s = streamed_RunEnd env d wr s"
| "h_call env (HEntityEnd i r) RPCResultsH s = rpc_EntityEnd env i r s"
| "h_call env HRunStart FailFastH s = failfast_RunStart s"
| "h_call env (HEntityEnd i r) FailFastH s = failfast_EntityEnd i r s"
| "h_call env (HEntityCopyEnd i) (CopyOutputH ps) s = copy_EntityCopyEnd i ps s"
| "h_call env HRunEnd (CopyOutputH ps) s = Ret (None, CopyOutputH [], fold (copy_puller env) ps s)"
| "h_call env (HEntityStart i) (PassThroughH ps) s = pass_EntityStart env i ps s"
| "h_call env (HEntityLog i l) (PassThroughH ps) s = pass_EntityLog env i l ps s"
| "h_call env (HEntityError i e) (PassThroughH ps) s = pass_EntityError env i e ps s"
| "h_call env (HEntityEnd i r) (PassThroughH ps) s = pass_EntityEnd env i r ps s"
| "h_call env (HEntityCopyEnd i) (PassThroughH ps) s = pass_EntityCopyEnd i ps s"
| "h_call env (HRunLog l) (PassThroughH ps) s = pass_RunLog env l ps s"
| "h_call env HRunEnd (PassThroughH ps) s = Ret (None, PassThroughH [], fold (pass_puller env) ps s)"
| "h_call env c h s = base h s"

text \<open>The pending puller number \<open>k\<close> runs.\<close>

definition drop_nth :: "nat \<Rightarrow> 'a list \<Rightarrow> 'a list" where
  "drop_nth k xs = take k xs @ drop (Suc k) xs"

fun h_puller :: "'w penv \<Rightarrow> nat \<Rightarrow> handler \<Rightarrow> 'w sh \<Rightarrow> handler \<times> 'w sh" where
  "h_puller env k (CopyOutputH ps) s =
     (if k < length ps then (CopyOutputH (drop_nth k ps), copy_puller env (ps ! k) s) else (CopyOutputH ps, s))"
| "h_puller env k (PassThroughH ps) s =
     (if k < length ps then (PassThroughH (drop_nth k ps), pass_puller env (ps ! k) s) else (PassThroughH ps, s))"
| "h_puller env k h s = (h, s)"

fun h_StackOperation ::
  "'w penv \<Rightarrow> StackOperationRequest \<Rightarrow> handler \<Rightarrow> 'w sh \<Rightarrow> StackOperationResponse option \<times> 'w sh" where
  "h_StackOperation env req StackOperationH s =
     (let (res, w) = p_handle env req (sh_w s) in (res, s\<lparr>sh_w := w\<rparr>))"
| "h_StackOperation env req h s = (None, s)"

end
