(* ===== verification/Processor.thy ===== *)
theory Processor
  imports Handlers
begin

text \<open>
  The processor of test execution events, \<open>internal/minidriver/processor/preprocessor.go\<close> and
  \<open>processor.go\<close>.  The preprocessor keeps the stack of running entities (bottom first, as the slice
  has it), gives every entity an output directory, passes each event to all handlers and, at the end
  of the run, ends the entities that did not end.  A pointer to an entity's state is its index in the
  stack.  \<open>pp_calls\<close> records the calls made to the handlers; no operation reads it.  The loop
  at the end of the run may not terminate, so it is a partial function: \<open>None\<close> is a run that never
  returns.
\<close>

subsection \<open>State\<close>

record entityState =
  s_Entity :: ProtoEntity
  s_Start :: int
  s_IntermediateOutDir :: string
  s_FinalOutDir :: string
  s_Errors :: "errorEntry list"

definition EntityInfo :: "entityState \<Rightarrow> entityInfo" where
  "EntityInfo st =
     \<lparr>i_Entity = s_Entity st, i_Start = s_Start st, i_IntermediateOutDir = s_IntermediateOutDir st,
      i_FinalOutDir = s_FinalOutDir st\<rparr>"

abbreviation s_Name :: "entityState \<Rightarrow> string" where
  "s_Name st \<equiv> g_Name (s_Entity st)"

record preprocessor =
  pp_resDir :: string
  pp_handlers :: "handler list"
  pp_stack :: "entityState list"
  pp_copying :: "string \<rightharpoonup> entityState"
  pp_seenTimes :: "string \<Rightarrow> int"
  pp_fatalError :: "goerr option"
  pp_bundle :: string
  pp_calls :: "hcall list"

definition newPreprocessor :: "string \<Rightarrow> handler list \<Rightarrow> string \<Rightarrow> preprocessor" where
  "newPreprocessor resDir handlers bundle =
     \<lparr>pp_resDir = resDir, pp_handlers = handlers, pp_stack = [], pp_copying = Map.empty,
      pp_seenTimes = (\<lambda>n. 0), pp_fatalError = None, pp_bundle = bundle, pp_calls = []\<rparr>"

definition processor_New :: "string \<Rightarrow> handler list \<Rightarrow> string \<Rightarrow> preprocessor" where
  "processor_New resDir handlers bundle = newPreprocessor resDir (ResultsH [] # handlers) bundle"

fun Results :: "handler list \<Rightarrow> Result list" where
  "Results (ResultsH rs # hs) = rs"
| "Results hs = []"

type_synonym 'w pres = "(perr option \<times> preprocessor \<times> 'w sh) go"

subsection \<open>Passing an event to the handlers\<close>

text \<open>Every handler is called, also after one returned an error; the first error counts.\<close>

fun each_handler :: "('h \<Rightarrow> 's \<Rightarrow> ('e option \<times> 'h \<times> 's) go) \<Rightarrow> 'h list \<Rightarrow> 's \<Rightarrow> ('e option \<times> 'h list \<times> 's) go" where
  "each_handler call [] s = Ret (None, [], s)"
| "each_handler call (h # hs) s =
     (case call h s of
        Panic m \<Rightarrow> Panic m
      | Ret (e, h', s1) \<Rightarrow>
          (case each_handler call hs s1 of
             Panic m \<Rightarrow> Panic m
           | Ret (e', hs', s2) \<Rightarrow> Ret (if e \<noteq> None then e else e', h' # hs', s2)))"

definition call_handlers :: "'w penv \<Rightarrow> hcall \<Rightarrow> handler list \<Rightarrow> 'w sh \<Rightarrow> (perr option \<times> handler list \<times> 'w sh) go" where
  "call_handlers env c hs s = each_handler (h_call env c) hs s"

definition call_name :: "hcall \<Rightarrow> string" where
  "call_name c =
     (case c of
        HRunStart \<Rightarrow> ''RunStart'' | HEntityStart i \<Rightarrow> ''EntityStart'' | HEntityLog i l \<Rightarrow> ''EntityLog''
      | HEntityError i e \<Rightarrow> ''EntityError'' | HEntityEnd i r \<Rightarrow> ''EntityEnd'' | HEntityCopyEnd i \<Rightarrow> ''EntityCopyEnd''
      | HRunLog l \<Rightarrow> ''RunLog'' | HRunEnd \<Rightarrow> ''RunEnd'')"

definition dispatch :: "'w penv \<Rightarrow> hcall \<Rightarrow> preprocessor \<Rightarrow> 'w sh \<Rightarrow> 'w pres" where
  "dispatch env c p s =
     (case call_handlers env c (pp_handlers p) s of
        Panic m \<Rightarrow> Panic m
      | Ret (e, hs, s') \<Rightarrow>
          Ret (map_option (PWrap (''processing '' @ call_name c)) e,
               p\<lparr>pp_handlers := hs, pp_calls := pp_calls p @ [c]\<rparr>, s'))"

subsection \<open>Events\<close>

definition pp_RunStart :: "'w penv \<Rightarrow> preprocessor \<Rightarrow> 'w sh \<Rightarrow> 'w pres" where
  "pp_RunStart env p s = dispatch env HRunStart p s"

definition TastRootRemoteFixtureName :: string where
  "TastRootRemoteFixtureName = ''tastRootRemoteFixture''"

definition maxAttempts :: nat where
  "maxAttempts = 20"

text \<open>The loop that looks for a directory that does not exist, \<open>n\<close> attempts from \<open>i\<close> on.\<close>

fun unique_dir :: "'w os \<Rightarrow> (int \<Rightarrow> string) \<Rightarrow> 'w \<Rightarrow> nat \<Rightarrow> int \<Rightarrow> string \<Rightarrow> string" where
  "unique_dir os dir w 0 i outDir = outDir"
| "unique_dir os dir w (Suc n) i outDir =
     (if os_Stat os w outDir \<noteq> StatOk then outDir else unique_dir os dir w n (i + 1) (dir (i + 1)))"

definition createOutDir :: "'w penv \<Rightarrow> ProtoEntity \<Rightarrow> preprocessor \<Rightarrow> 'w \<Rightarrow> string res \<times> preprocessor \<times> 'w" where
  "createOutDir env e p w =
     (let dirName = (if g_Type e = EntityType_FIXTURE then ''fixtures'' else ''tests'');
          (defaultName, w1) =
            (if g_Name e = TastRootRemoteFixtureName
             then let (t, w1) = l_Now (p_log env) w
                  in (g_Name e @ ''_'' @ pp_bundle p @ ''_'' @ Format_compact t, w1)
             else (g_Name e, w));
          seenCnt = pp_seenTimes p defaultName;
          relOutDir = path_Join [dirName, defaultName] @ (if seenCnt > 0 then ''.'' @ show_int seenCnt else []);
          p1 = p\<lparr>pp_seenTimes := (pp_seenTimes p)(g_Name e := pp_seenTimes p (g_Name e) + 1)\<rparr>;
          dir = (\<lambda>k. path_Join [pp_resDir p, path_Join [dirName, defaultName @ ''.'' @ show_int (seenCnt + k)]]);
          outDir = unique_dir (p_os env) dir w1 maxAttempts 0 (path_Join [pp_resDir p, relOutDir])
      in case os_MkdirAll (p_os env) outDir w1 of
           (Some err, w2) \<Rightarrow> (Inl (Errorf err), p1, w2)
         | (None, w2) \<Rightarrow> (Inr outDir, p1, w2))"

definition pp_EntityStart ::
  "'w penv \<Rightarrow> Timestamp option \<Rightarrow> ProtoEntity \<Rightarrow> string \<Rightarrow> preprocessor \<Rightarrow> 'w sh \<Rightarrow> 'w pres" where
  "pp_EntityStart env ts e dir p s =
     (case createOutDir env e p (sh_w s) of
        (Inl err, p1, w) \<Rightarrow>
          Ret (Some (Plain (Wrap (''processing EntityStart: failed to create an output directory for '' @ g_Name e) err)),
               p1, s\<lparr>sh_w := w\<rparr>)
      | (Inr outDir, p1, w) \<Rightarrow>
          let s1 = s\<lparr>sh_w := w\<rparr> in
          case ts_CheckValid (p_pb env) ts of
            Some err \<Rightarrow> Ret (Some (Plain (Wrap ''processing EntityStart'' (Errorf err))), p1, s1)
          | None \<Rightarrow>
              let st = \<lparr>s_Entity = e, s_Start = ts_AsTime (p_pb env) ts, s_IntermediateOutDir = dir,
                        s_FinalOutDir = outDir, s_Errors = []\<rparr>
              in dispatch env (HEntityStart (EntityInfo st)) (p1\<lparr>pp_stack := pp_stack p1 @ [st]\<rparr>) s1)"

text \<open>\<open>stateOf\<close> finds the bottom-most entity of the name.\<close>

fun stateOf :: "string \<Rightarrow> entityState list \<Rightarrow> nat option" where
  "stateOf name [] = None"
| "stateOf name (st # sts) = (if s_Name st = name then Some 0 else map_option Suc (stateOf name sts))"

definition no_such :: "string \<Rightarrow> goerr" where
  "no_such name = Errorf (''no such entity running: '' @ name)"

definition pp_EntityLog ::
  "'w penv \<Rightarrow> Timestamp option \<Rightarrow> string \<Rightarrow> string \<Rightarrow> LogLevel \<Rightarrow> preprocessor \<Rightarrow> 'w sh \<Rightarrow> 'w pres" where
  "pp_EntityLog env ts name text level p s =
     (case stateOf name (pp_stack p) of
        None \<Rightarrow> Ret (None, p, s)
      | Some k \<Rightarrow>
          dispatch env (HEntityLog (EntityInfo (pp_stack p ! k))
            \<lparr>le_Time = ts_AsTime (p_pb env) ts, le_Text = text, le_Level = ProtoToLevel level\<rparr>) p s)"

definition pp_EntityError ::
  "'w penv \<Rightarrow> Timestamp option \<Rightarrow> string \<Rightarrow> perror \<Rightarrow> preprocessor \<Rightarrow> 'w sh \<Rightarrow> 'w pres" where
  "pp_EntityError env ts name err p s =
     (case stateOf name (pp_stack p) of
        None \<Rightarrow> Ret (Some (Plain (Wrap ''processing EntityError'' (no_such name))), p, s)
      | Some k \<Rightarrow>
          (case ts_CheckValid (p_pb env) ts of
             Some m \<Rightarrow> Ret (Some (Plain (Wrap ''processing EntityError'' (Errorf m))), p, s)
           | None \<Rightarrow>
               let e = \<lparr>ee_Time = ts_AsTime (p_pb env) ts, ee_Error = err\<rparr>;
                   st = (pp_stack p ! k)\<lparr>s_Errors := s_Errors (pp_stack p ! k) @ [e]\<rparr>
               in dispatch env (HEntityError (EntityInfo st) e) (p\<lparr>pp_stack := (pp_stack p)[k := st]\<rparr>) s))"

definition pp_EntityEnd ::
  "'w penv \<Rightarrow> Timestamp option \<Rightarrow> string \<Rightarrow> string list \<Rightarrow> TimingStage option \<Rightarrow> preprocessor \<Rightarrow> 'w sh \<Rightarrow> 'w pres" where
  "pp_EntityEnd env ts name skip tlog p s =
     (case stateOf name (pp_stack p) of
        None \<Rightarrow> Ret (Some (Plain (Wrap ''processing EntityEnd'' (no_such name))), p, s)
      | Some k \<Rightarrow>
          if Suc k \<noteq> length (pp_stack p) then
            Ret (Some (Plain (Errorf (''unexpected EntityEnd: got '' @ Quote (s_Name (pp_stack p ! k)) @ '', want '' @
              Quote (s_Name (last (pp_stack p)))))), p, s)
          else
            let st = last (pp_stack p);
                p1 = p\<lparr>pp_stack := butlast (pp_stack p), pp_copying := (pp_copying p)(name \<mapsto> st)\<rparr>
            in case ts_CheckValid (p_pb env) ts of
                 Some m \<Rightarrow> Ret (Some (Plain (Wrap ''processing EntityEnd'' (Errorf m))), p1, s)
               | None \<Rightarrow>
                   dispatch env (HEntityEnd (EntityInfo st)
                     \<lparr>en_Start = s_Start st, en_End = ts_AsTime (p_pb env) ts, en_Skip = skip,
                      en_Errors = s_Errors st, en_TimingLog = tlog\<rparr>) p1 s)"

definition pp_EntityCopyEnd :: "'w penv \<Rightarrow> string \<Rightarrow> preprocessor \<Rightarrow> 'w sh \<Rightarrow> 'w pres" where
  "pp_EntityCopyEnd env name p s =
     (case pp_copying p name of
        None \<Rightarrow> Ret (Some (Plain (Errorf (''Unexpected EntityCopyEnd for entity '' @ name))), p, s)
      | Some st \<Rightarrow>
          dispatch env (HEntityCopyEnd (EntityInfo st)) (p\<lparr>pp_copying := (pp_copying p)(name := None)\<rparr>) s)"

definition pp_RunLog :: "'w penv \<Rightarrow> Timestamp option \<Rightarrow> string \<Rightarrow> LogLevel \<Rightarrow> preprocessor \<Rightarrow> 'w sh \<Rightarrow> 'w pres" where
  "pp_RunLog env ts text level p s =
     dispatch env (HRunLog \<lparr>le_Time = ts_AsTime (p_pb env) ts, le_Text = text, le_Level = ProtoToLevel level\<rparr>) p s"

text \<open>At most one handler may answer a stack operation.\<close>

fun first_response ::
  "'w penv \<Rightarrow> StackOperationRequest \<Rightarrow> StackOperationResponse option \<Rightarrow> handler list \<Rightarrow> 'w sh \<Rightarrow>
     StackOperationResponse option \<times> 'w sh" where
  "first_response env req firstRes [] s = (firstRes, s)"
| "first_response env req firstRes (h # hs) s =
     (case h_StackOperation env req h s of
        (None, s1) \<Rightarrow> first_response env req firstRes hs s1
      | (Some res, s1) \<Rightarrow>
          if firstRes \<noteq> None then
            (Some (resp0\<lparr>FatalError := ''BUG: there should be only one hanlder that handles stack operation, but there are more than one''\<rparr>), s1)
          else first_response env req (Some res) hs s1)"

definition pp_StackOperation ::
  "'w penv \<Rightarrow> StackOperationRequest \<Rightarrow> preprocessor \<Rightarrow> 'w sh \<Rightarrow> StackOperationResponse option \<times> 'w sh" where
  "pp_StackOperation env req p s = first_response env req None (pp_handlers p) s"

subsection \<open>The end of a run\<close>

definition Now_ts :: "'w penv \<Rightarrow> 'w sh \<Rightarrow> Timestamp option \<times> 'w sh" where
  "Now_ts env s = (let (t, w) = l_Now (p_log env) (sh_w s) in (Some (ts_New (p_pb env) t), s\<lparr>sh_w := w\<rparr>))"

definition reason_only :: "string \<Rightarrow> perror" where
  "reason_only m = \<lparr>x_Reason = m, x_Location = None\<rparr>"

text \<open>A run error is attributed to the most recently started entity.\<close>

definition run_error_msg :: "'w penv \<Rightarrow> perr \<Rightarrow> preprocessor \<Rightarrow> 'w sh \<Rightarrow> string \<times> 'w sh" where
  "run_error_msg env err p s =
     (let diagDir = (if pp_stack p \<noteq> [] then s_FinalOutDir (last (pp_stack p)) else pp_resDir p);
          (diagMsg, w) = p_diagnose env diagDir (sh_w s);
          msg = (if diagMsg \<noteq> [] then diagMsg else ''Got global error: '' @ p_fmtErr env err)
      in (msg, emit env LevelInfo msg (s\<lparr>sh_w := w\<rparr>)))"

definition timeout_msg :: "'w penv \<Rightarrow> entityState \<Rightarrow> string \<Rightarrow> 'w sh \<Rightarrow> string \<times> 'w sh" where
  "timeout_msg env stateTop msg s =
     (let (t, w1) = l_Now (p_log env) (sh_w s) in
      if DeadlineBefore (p_deadline env) t then
        let (t2, w2) = l_Now (p_log env) w1;
            apprRunTime = p_fmtSec env (Duration_Round (Time_Sub t2 (s_Start stateTop)) Millisecond)
        in ((case p_timeout env of
               None \<Rightarrow> msg
             | Some d \<Rightarrow> ''Test did not finish(~'' @ apprRunTime @ '' seconds) due to Tast command timeout('' @
                 p_fmtSec env d @ '' seconds)''), s\<lparr>sh_w := w2\<rparr>)
      else (msg, s\<lparr>sh_w := w1\<rparr>))"

definition attribute_error :: "'w penv \<Rightarrow> perr \<Rightarrow> preprocessor \<Rightarrow> 'w sh \<Rightarrow> (preprocessor \<times> 'w sh) go" where
  "attribute_error env err p s =
     (let (msg, s1) = run_error_msg env err p s in
      if pp_stack p = [] then Ret (p, s1)
      else
        let stateTop = last (pp_stack p);
            (msg', s2) = timeout_msg env stateTop msg s1;
            (ts, s3) = Now_ts env s2
        in case pp_EntityError env ts (s_Name stateTop) (reason_only msg') p s3 of
             Panic m \<Rightarrow> Panic m
           | Ret (e, p', s4) \<Rightarrow> Ret (p', s4))"

definition did_not_finish :: string where
  "did_not_finish = ''Test did not finish''"

definition keep_first :: "'e option \<Rightarrow> 'e option \<Rightarrow> 'e option" where
  "keep_first a b = (if a \<noteq> None then a else b)"

text \<open>One round of the loop that ends the entities that are still running.\<close>

definition orphan_step :: "'w penv \<Rightarrow> perr option \<Rightarrow> preprocessor \<Rightarrow> 'w sh \<Rightarrow> 'w pres" where
  "orphan_step env runErr p s =
     (let name = s_Name (last (pp_stack p)); (ts, s1) = Now_ts env s in
      case pp_EntityError env ts name (reason_only did_not_finish) p s1 of
        Panic m \<Rightarrow> Panic m
      | Ret (e1, p1, s2) \<Rightarrow>
          let (ts', s3) = Now_ts env s2 in
          case pp_EntityEnd env ts' name [] None p1 s3 of
            Panic m \<Rightarrow> Panic m
          | Ret (e2, p2, s4) \<Rightarrow> Ret (keep_first (keep_first runErr e1) e2, p2, s4))"

partial_function (option) end_orphans :: "'w penv \<Rightarrow> perr option \<Rightarrow> preprocessor \<Rightarrow> 'w sh \<Rightarrow> 'w pres option" where
  "end_orphans env runErr p s =
     (if pp_stack p = [] then Some (Ret (runErr, p, s))
      else case orphan_step env runErr p s of
             Panic m \<Rightarrow> Some (Panic m)
           | Ret (e, p', s') \<Rightarrow> end_orphans env e p' s')"

declare end_orphans.simps [code]

definition finish_run :: "'w penv \<Rightarrow> perr option \<Rightarrow> preprocessor \<Rightarrow> 'w sh \<Rightarrow> (preprocessor \<times> 'w sh) go" where
  "finish_run env runErr p s =
     (case call_handlers env HRunEnd (pp_handlers p) s of
        Panic m \<Rightarrow> Panic m
      | Ret (e, hs, s') \<Rightarrow>
          let p' = p\<lparr>pp_handlers := hs, pp_calls := pp_calls p @ [HRunEnd]\<rparr>
          in Ret (case Option.bind runErr as_fatal of None \<Rightarrow> p' | Some fe \<Rightarrow> p'\<lparr>pp_fatalError := Some fe\<rparr>, s'))"

definition pp_RunEnd :: "'w penv \<Rightarrow> perr option \<Rightarrow> preprocessor \<Rightarrow> 'w sh \<Rightarrow> (preprocessor \<times> 'w sh) go option" where
  "pp_RunEnd env runErr p s =
     (case (case runErr of None \<Rightarrow> Ret (p, s) | Some err \<Rightarrow> attribute_error env err p s) of
        Panic m \<Rightarrow> Some (Panic m)
      | Ret (p1, s1) \<Rightarrow>
          (case end_orphans env runErr p1 s1 of
             None \<Rightarrow> None
           | Some (Panic m) \<Rightarrow> Some (Panic m)
           | Some (Ret (runErr', p2, s2)) \<Rightarrow> Some (finish_run env runErr' p2 s2)))"

definition pp_FatalError :: "preprocessor \<Rightarrow> goerr option" where
  "pp_FatalError p = pp_fatalError p"

subsection \<open>The client of a test bundle\<close>

text \<open>\<open>internal/minidriver/bundleclient/run\_tests.go\<close>: the messages of the bundle are fed to the processor
  until the stream ends or an event fails.  Between messages, a puller of a handler may finish.\<close>

datatype input = Recv RunTestsResponse | Pull nat nat

datatype recv_stop = EOF | Unavailable string | RecvErr string

datatype conn = DialErr string | StreamErr string | InitErr string | Stream "input list" recv_stop

fun handleEvent :: "'w penv \<Rightarrow> RunTestsResponse \<Rightarrow> preprocessor \<Rightarrow> 'w sh \<Rightarrow> 'w pres" where
  "handleEvent env (R_RunLog ts text level) p s = pp_RunLog env ts text level p s"
| "handleEvent env (R_EntityStart ts e dir) p s = pp_EntityStart env ts e dir p s"
| "handleEvent env (R_EntityLog ts name text level) p s = pp_EntityLog env ts name text level p s"
| "handleEvent env (R_EntityError ts name err) p s = pp_EntityError env ts name err p s"
| "handleEvent env (R_EntityEnd ts name skip tlog) p s = pp_EntityEnd env ts name skip tlog p s"
| "handleEvent env (R_EntityCopyEnd name) p s = pp_EntityCopyEnd env name p s"
| "handleEvent env (R_StackOperation req) p s =
     (let (resp, s1) = pp_StackOperation env req p s; (e, w) = p_send env resp (sh_w s1)
      in Ret (map_option (\<lambda>m. Plain (Errorf m)) e, p, s1\<lparr>sh_w := w\<rparr>))"
| "handleEvent env R_Heartbeat p s = Ret (None, p, s)"
| "handleEvent env (R_unknown t) p s = Ret (Some (Plain (Errorf (''unknown event type '' @ t))), p, s)"

definition run_puller :: "'w penv \<Rightarrow> nat \<Rightarrow> nat \<Rightarrow> preprocessor \<Rightarrow> 'w sh \<Rightarrow> preprocessor \<times> 'w sh" where
  "run_puller env n k p s =
     (if n < length (pp_handlers p) then
        let (h, s') = h_puller env k (pp_handlers p ! n) s
        in (p\<lparr>pp_handlers := (pp_handlers p)[n := h]\<rparr>, s')
      else (p, s))"

definition stop_error :: "string \<Rightarrow> recv_stop \<Rightarrow> perr option" where
  "stop_error bundlePath stop =
     (case stop of
        EOF \<Rightarrow> None
      | Unavailable e \<Rightarrow>
          Some (Plain (Wrap ''connection to test bundle is broken due to abrupt shutdown of the bundle process or network connection'' (Errorf e)))
      | RecvErr e \<Rightarrow> Some (Plain (Wrap (''connection to test bundle '' @ bundlePath @ '' broken'') (Errorf e))))"

fun recv_loop :: "'w penv \<Rightarrow> perr option \<Rightarrow> input list \<Rightarrow> preprocessor \<Rightarrow> 'w sh \<Rightarrow> 'w pres" where
  "recv_loop env stop [] p s = Ret (stop, p, s)"
| "recv_loop env stop (Pull n k # is) p s =
     (let (p', s') = run_puller env n k p s in recv_loop env stop is p' s')"
| "recv_loop env stop (Recv res # is) p s =
     (case handleEvent env res p s of
        Panic m \<Rightarrow> Panic m
      | Ret (Some e, p', s') \<Rightarrow> Ret (Some e, p', s')
      | Ret (None, p', s') \<Rightarrow> recv_loop env stop is p' s')"

definition run_stream :: "'w penv \<Rightarrow> string \<Rightarrow> conn \<Rightarrow> preprocessor \<Rightarrow> 'w sh \<Rightarrow> 'w pres" where
  "run_stream env bundlePath conn p s =
     (case conn of
        DialErr e \<Rightarrow> Ret (Some (Plain (Wrap ''starting test bundle'' (Errorf e))), p, s)
      | StreamErr e \<Rightarrow> Ret (Some (Plain (Wrap ''starting test run'' (Errorf e))), p, s)
      | InitErr e \<Rightarrow> Ret (Some (Plain (Wrap ''initializing test run'' (Errorf e))), p, s)
      | Stream is stop \<Rightarrow> recv_loop env (stop_error bundlePath stop) is p s)"

definition client_RunTests ::
  "'w penv \<Rightarrow> string \<Rightarrow> conn \<Rightarrow> preprocessor \<Rightarrow> 'w sh \<Rightarrow> (preprocessor \<times> 'w sh) go option" where
  "client_RunTests env bundlePath conn p s =
     (case pp_RunStart env p s of
        Panic m \<Rightarrow> Some (Panic m)
      | Ret (Some e, p1, s1) \<Rightarrow> pp_RunEnd env (Some (PWrap ''starting test driver'' e)) p1 s1
      | Ret (None, p1, s1) \<Rightarrow>
          (case run_stream env bundlePath conn p1 s1 of
             Panic m \<Rightarrow> Some (Panic m)
           | Ret (runErr, p2, s2) \<Rightarrow> pp_RunEnd env runErr p2 s2))"

subsection \<open>The handlers of a run\<close>

text \<open>The handlers of the command line tool (\<open>NewRootHandlersFactory\<close>) and of a remote bundle that runs
  local tests (\<open>NewIntermediateHandlersFactory\<close>).\<close>

definition RootHandlers :: "string \<Rightarrow> handler list" where
  "RootHandlers resDir =
     [LoggingH resDir [], TimingH None, StreamedH resDir None, RPCResultsH, FailFastH, CopyOutputH []]"

definition IntermediateHandlers :: "handler list" where
  "IntermediateHandlers = [FailFastH, StackOperationH, PassThroughH []]"

end
