(* ===== verification/ProcSpec.thy ===== *)
theory ProcSpec
  imports Processor
begin

text \<open>
  What the processor of test execution events promises.  Whatever messages a bundle sends, and wherever
  its stream breaks, each handler sees a consistent sequence of calls: a handler protocol, a locale,
  states what a handler needs and keeps, and is interpreted on the model's handlers.  The theorems show
  that a run returns, that no handler panics, that every entity that started ends exactly once, in the
  order of a stack, and that every test that started has one result.  The hypotheses are that log and
  result files can be created, that the clock and the end times of events are valid, and that no
  entity starts while one of the same name is running; theory ProcLimits shows what happens without them.
\<close>

subsection \<open>The protocol of handlers\<close>

text \<open>\<open>after c n\<close> is the number of running entities after the call \<open>c\<close> with \<open>n\<close> of them; \<open>enabled\<close> says
  when the call can happen between \<open>RunStart\<close> and \<open>RunEnd\<close>.\<close>

fun after :: "hcall \<Rightarrow> nat \<Rightarrow> nat" where
  "after (HEntityStart i) n = Suc n"
| "after (HEntityEnd i r) n = n - 1"
| "after c n = n"

definition rooted :: "entityInfo \<Rightarrow> bool" where
  "rooted i = HasPrefix (i_FinalOutDir i) ''/''"

fun enabled :: "hcall \<Rightarrow> nat \<Rightarrow> bool" where
  "enabled (HEntityStart i) n = rooted i"
| "enabled (HEntityEnd i r) n = (n > 0)"
| "enabled HRunStart n = False"
| "enabled HRunEnd n = False"
| "enabled c n = True"

locale handler_protocol =
  fixes call :: "'e \<Rightarrow> hcall \<Rightarrow> 'h \<Rightarrow> 's \<Rightarrow> ('x option \<times> 'h \<times> 's) go"
    and env_ok :: "'e \<Rightarrow> bool"
    and fresh :: "'h \<Rightarrow> bool"
    and ready :: "nat \<Rightarrow> 'h \<Rightarrow> bool"
  assumes run_start: "env_ok env \<Longrightarrow> fresh h \<Longrightarrow> \<exists>x h' s'. call env HRunStart h s = Ret (x, h', s') \<and> ready 0 h'"
    and step: "env_ok env \<Longrightarrow> enabled c n \<Longrightarrow> ready n h \<Longrightarrow>
      \<exists>x h' s'. call env c h s = Ret (x, h', s') \<and> ready (after c n) h'"
    and run_end: "env_ok env \<Longrightarrow> ready n h \<Longrightarrow> \<exists>x h' s'. call env HRunEnd h s = Ret (x, h', s')"
begin

lemma each_returns:
  assumes "\<And>h s. P h \<Longrightarrow> \<exists>x h' s'. call env c h s = Ret (x, h', s') \<and> Q h'" and "list_all P hs"
  shows "\<exists>x hs' s'. each_handler (call env c) hs s = Ret (x, hs', s') \<and> list_all Q hs'"
  using assms(2)
proof (induction hs arbitrary: s)
  case (Cons h hs)
  then obtain x h' s' where "call env c h s = Ret (x, h', s')" "Q h'" using assms(1) [of h s] by auto
  moreover obtain y hs' s'' where "each_handler (call env c) hs s' = Ret (y, hs', s'')" "list_all Q hs'"
    using Cons by fastforce
  ultimately show ?case by simp
qed simp

lemma each_run_start:
  "env_ok env \<Longrightarrow> list_all fresh hs \<Longrightarrow>
     \<exists>x hs' s'. each_handler (call env HRunStart) hs s = Ret (x, hs', s') \<and> list_all (ready 0) hs'"
  by (rule each_returns) (use run_start in auto)

lemma each_step:
  "env_ok env \<Longrightarrow> enabled c n \<Longrightarrow> list_all (ready n) hs \<Longrightarrow>
     \<exists>x hs' s'. each_handler (call env c) hs s = Ret (x, hs', s') \<and> list_all (ready (after c n)) hs'"
  by (rule each_returns) (use step in auto)

lemma each_run_end:
  "env_ok env \<Longrightarrow> list_all (ready n) hs \<Longrightarrow> \<exists>x hs' s'. each_handler (call env HRunEnd) hs s = Ret (x, hs', s')"
  using each_returns [of "ready n" env HRunEnd "\<lambda>h. True" hs s] run_end by auto

end

subsection \<open>The handlers keep the protocol\<close>

text \<open>Files for logs and streamed results can be created.\<close>

definition files_ok :: "'w penv \<Rightarrow> bool" where
  "files_ok env \<longleftrightarrow>
     (\<forall>f w. fst (p_Create env f w) = None) \<and> (\<forall>path w. is_ok (fst (NewStreamedWriter (p_io env) path w)))"

fun h_fresh :: "handler \<Rightarrow> bool" where
  "h_fresh (LoggingH d ls) = HasPrefix d ''/''"
| "h_fresh h = True"

fun h_ready :: "nat \<Rightarrow> handler \<Rightarrow> bool" where
  "h_ready n (LoggingH d ls) = (HasPrefix d ''/'' \<and> n \<le> length ls)"
| "h_ready n (StreamedH d wr) = (wr \<noteq> None)"
| "h_ready n h = True"

lemma files_okD:
  assumes "files_ok env"
  shows "\<exists>w'. p_Create env f w = (None, w')" "\<exists>wr w'. NewStreamedWriter (p_io env) path w = (Inr wr, w')"
  using assms unfolding files_ok_def by (metis prod.collapse, metis is_ok.elims(2) prod.collapse)

lemma logging_start_ready:
  assumes "files_ok env" and "rooted i" and "HasPrefix d ''/''"
  shows "\<exists>l s'. logging_EntityStart env i d ls s = Ret (None, LoggingH d (ls @ [l]), s')"
proof -
  let ?f = "path_Join [i_FinalOutDir i, ''log.txt'']"
  obtain w' where c: "p_Create env ?f (sh_w s) = (None, w')" using files_okD(1) [OF assms(1)] by blast
  obtain r where r: "path_Rel d ?f = Inr r"
    using path_Rel_rooted [OF assms(3) path_Join_rooted] assms(2) unfolding rooted_def by blast
  show ?thesis
    by (auto simp: logging_EntityStart_def c r open_logger_def Let_def split: sum.splits)
qed

lemma logging_end_ready:
  "Suc n \<le> length ls \<Longrightarrow> \<exists>ls' s'. logging_EntityEnd env i r d ls s = Ret (None, LoggingH d ls', s') \<and> n \<le> length ls'"
  by (auto simp: logging_EntityEnd_def Let_def)

lemma streamed_write_ready:
  "\<exists>e wr' s'. streamed_write env res u d (Some wr) s = Ret (e, StreamedH d (Some wr'), s')"
  by (auto simp: streamed_write_def split: prod.splits)

lemma streamed_ready:
  "\<exists>e wr' s'. streamed_EntityStart env i d (Some wr) s = Ret (e, StreamedH d (Some wr'), s')"
  "\<exists>e wr' s'. streamed_EntityEnd env i r d (Some wr) s = Ret (e, StreamedH d (Some wr'), s')"
  using streamed_write_ready by (fastforce simp: streamed_EntityStart_def streamed_EntityEnd_def split: sum.splits)+

lemmas call_defs = base_def results_EntityEnd_def timing_EntityStart_def timing_EntityEnd_def rpc_EntityEnd_def
  failfast_RunStart_def failfast_EntityEnd_def copy_EntityCopyEnd_def pass_on_def pass_EntityStart_def
  pass_EntityLog_def pass_EntityError_def pass_EntityEnd_def pass_EntityCopyEnd_def pass_RunLog_def
  streamed_RunStart_def streamed_RunEnd_def

text \<open>The handlers without a precondition.\<close>

fun plain_handler :: "handler \<Rightarrow> bool" where
  "plain_handler (LoggingH d ls) = False"
| "plain_handler (StreamedH d wr) = False"
| "plain_handler h = True"

lemma plain_returns:
  assumes "plain_handler h"
  shows "\<exists>x h' s'. h_call env c h s = Ret (x, h', s') \<and> plain_handler h'"
  using assms
  by (cases h; cases c) (auto simp: call_defs Let_def split: sum.splits option.splits prod.splits)

lemma plain_ready: "plain_handler h \<Longrightarrow> h_ready n h"
  by (cases h) auto

lemma h_step:
  assumes "files_ok env" and "enabled c n" and "h_ready n h"
  shows "\<exists>x h' s'. h_call env c h s = Ret (x, h', s') \<and> h_ready (after c n) h'"
proof (cases h)
  case (LoggingH d ls)
  show ?thesis
  proof (cases c)
    case (HEntityStart i)
    then show ?thesis using assms logging_start_ready [OF assms(1), of i d ls s] by (auto simp: LoggingH)
  next
    case (HEntityEnd i r)
    then show ?thesis using assms logging_end_ready [of "n - 1" ls env i r d s] by (auto simp: LoggingH)
  qed (use assms in \<open>auto simp: LoggingH base_def\<close>)
next
  case (StreamedH d wr)
  then obtain wr' where "wr = Some wr'" using assms(3) by auto
  then show ?thesis using assms(2) streamed_ready(1) [of env _ d wr' s] streamed_ready(2) [of env _ _ d wr' s]
    by (cases c) (fastforce simp: StreamedH base_def)+
qed (use plain_returns [of h env c s] plain_ready in force)+

lemma h_run_start:
  assumes "files_ok env" and "h_fresh h"
  shows "\<exists>x h' s'. h_call env HRunStart h s = Ret (x, h', s') \<and> h_ready 0 h'"
proof (cases h)
  case (StreamedH d wr)
  then show ?thesis using files_okD(2) [OF assms(1), of "path_Join [d, StreamedResultsFilename]" "sh_w s"]
    by (auto simp: streamed_RunStart_def)
qed (use assms(2) plain_returns [of h env HRunStart s] plain_ready in \<open>force simp: base_def\<close>)+

lemma h_run_end:
  assumes "h_ready n h"
  shows "\<exists>x h' s'. h_call env HRunEnd h s = Ret (x, h', s')"
  using assms plain_returns [of h env HRunEnd s] by (cases h) (auto simp: base_def streamed_RunEnd_def)

interpretation hp: handler_protocol h_call files_ok h_fresh h_ready
  by unfold_locales (use h_run_start h_step h_run_end in blast)+

subsection \<open>Consistent sequences of calls\<close>

text \<open>The specification of what handlers see: the entities that are running, and those that ended
  and whose files are not known to be copied.\<close>

fun accept :: "hcall \<Rightarrow> entityInfo list \<times> entityInfo list \<Rightarrow> (entityInfo list \<times> entityInfo list) option" where
  "accept (HEntityStart i) (run, en) = Some (run @ [i], en)"
| "accept (HEntityLog i l) (run, en) = (if i \<in> set run then Some (run, en) else None)"
| "accept (HEntityError i e) (run, en) = (if i \<in> set run then Some (run, en) else None)"
| "accept (HEntityEnd i r) (run, en) = (if run \<noteq> [] \<and> last run = i then Some (butlast run, en @ [i]) else None)"
| "accept (HEntityCopyEnd i) (run, en) = (if i \<in> set en then Some (run, remove1 i en) else None)"
| "accept (HRunLog l) (run, en) = Some (run, en)"
| "accept HRunStart (run, en) = None"
| "accept HRunEnd (run, en) = None"

fun replay :: "hcall list \<Rightarrow> entityInfo list \<times> entityInfo list \<Rightarrow> (entityInfo list \<times> entityInfo list) option" where
  "replay [] st = Some st"
| "replay (c # cs) st = (case accept c st of None \<Rightarrow> None | Some st' \<Rightarrow> replay cs st')"

lemma replay_append: "replay (cs @ ds) st = Option.bind (replay cs st) (replay ds)"
  by (induction cs arbitrary: st) (auto split: option.splits)

abbreviation names :: "preprocessor \<Rightarrow> string list" where
  "names p \<equiv> map s_Name (pp_stack p)"

text \<open>The calls so far are consistent and lead to the entities that the preprocessor has as running,
  the entities it has as copying are among those that ended, and the handlers are ready.\<close>

definition traced :: "preprocessor \<Rightarrow> hcall list \<Rightarrow> entityInfo list \<Rightarrow> bool" where
  "traced p body en \<longleftrightarrow>
     pp_calls p = HRunStart # body \<and> replay body ([], []) = Some (map EntityInfo (pp_stack p), en) \<and>
     (\<forall>n st. pp_copying p n = Some st \<longrightarrow> s_Name st = n \<and> EntityInfo st \<in> set en)"

definition pp_wf :: "preprocessor \<Rightarrow> bool" where
  "pp_wf p \<longleftrightarrow> (\<exists>body en. traced p body en) \<and> list_all (h_ready (length (pp_stack p))) (pp_handlers p) \<and>
     HasPrefix (pp_resDir p) ''/''"

lemma dispatch_ready:
  assumes "files_ok env" and "enabled c n" and "list_all (h_ready n) (pp_handlers p)"
  shows "\<exists>e hs s'. dispatch env c p s = Ret (e, p\<lparr>pp_handlers := hs, pp_calls := pp_calls p @ [c]\<rparr>, s') \<and>
    list_all (h_ready (after c n)) hs"
  using hp.each_step [OF assms, of s] by (auto simp: dispatch_def call_handlers_def)

text \<open>A call that the specification accepts keeps the invariant.\<close>

lemma dispatch_wf:
  assumes "files_ok env" and "enabled c n" and "list_all (h_ready n) (pp_handlers p)"
    and "after c n = length (pp_stack p)" and "HasPrefix (pp_resDir p) ''/''"
    and "pp_calls p = HRunStart # body" and "replay body ([], []) = Some st"
    and "accept c st = Some (map EntityInfo (pp_stack p), en)"
    and "\<And>m x. pp_copying p m = Some x \<Longrightarrow> s_Name x = m \<and> EntityInfo x \<in> set en"
  shows "\<exists>e p' s'. dispatch env c p s = Ret (e, p', s') \<and> pp_wf p' \<and> pp_stack p' = pp_stack p"
proof -
  obtain e hs s' where d: "dispatch env c p s = Ret (e, p\<lparr>pp_handlers := hs, pp_calls := pp_calls p @ [c]\<rparr>, s')"
    and r: "list_all (h_ready (after c n)) hs"
    using dispatch_ready [OF assms(1-3)] by blast
  have "traced (p\<lparr>pp_handlers := hs, pp_calls := pp_calls p @ [c]\<rparr>) (body @ [c]) en"
    using assms(6-9) by (auto simp: traced_def replay_append)
  then have "pp_wf (p\<lparr>pp_handlers := hs, pp_calls := pp_calls p @ [c]\<rparr>)"
    using r assms(4,5) by (auto simp: pp_wf_def)
  with d show ?thesis by simp
qed

lemma EntityInfo_name: "EntityInfo x = EntityInfo y \<Longrightarrow> s_Name x = s_Name y"
  by (simp add: EntityInfo_def)

lemma EntityInfo_errors [simp]: "EntityInfo (st\<lparr>s_Errors := es\<rparr>) = EntityInfo st"
  by (simp add: EntityInfo_def)

lemma stateOf_Some: "stateOf name sts = Some k \<Longrightarrow> k < length sts \<and> s_Name (sts ! k) = name"
  by (induction sts arbitrary: k) (auto split: if_splits)

lemma stateOf_last:
  "sts \<noteq> [] \<Longrightarrow> distinct (map s_Name sts) \<Longrightarrow> stateOf (s_Name (last sts)) sts = Some (length sts - 1)"
proof (induction sts)
  case (Cons st sts)
  show ?case
  proof (cases "sts = []")
    case False
    then have "s_Name (last sts) \<in> set (map s_Name sts)" by simp
    then have "s_Name st \<noteq> s_Name (last sts)" using Cons.prems(2) by auto
    then show ?thesis using Cons False by simp
  qed simp
qed simp

subsection \<open>Every event keeps the invariant\<close>

lemma createOutDir_result:
  assumes "HasPrefix (pp_resDir p) ''/''"
  shows "\<exists>r f w'. createOutDir env e p w = (r, p\<lparr>pp_seenTimes := f\<rparr>, w') \<and>
    (\<forall>d. r = Inr d \<longrightarrow> HasPrefix d ''/'')"
proof -
  have u: "HasPrefix (unique_dir os (\<lambda>k. path_Join [pp_resDir p, g k]) v n i d) ''/''" if "HasPrefix d ''/''" for os g v n i d
    using that by (induction n arbitrary: i d) (auto intro: path_Join_rooted [OF assms])
  note u' = u [OF path_Join_rooted [OF assms]]
  show ?thesis
  proof (cases "createOutDir env e p w")
    case (fields r p' w')
    then show ?thesis
      unfolding createOutDir_def Let_def by (auto split: prod.splits option.splits simp: u')
  qed
qed

lemma pp_wf_seen: "pp_wf (p\<lparr>pp_seenTimes := f\<rparr>) = pp_wf p"
  by (simp add: pp_wf_def traced_def)

lemma EntityStart_wf:
  assumes "files_ok env" and "pp_wf p"
  shows "\<exists>x p' s'. pp_EntityStart env ts e dir p s = Ret (x, p', s') \<and> pp_wf p' \<and>
    (names p' = names p \<and> x \<noteq> None \<or> names p' = names p @ [g_Name e])"
proof -
  obtain body en where tr: "traced p body en" and hs: "list_all (h_ready (length (pp_stack p))) (pp_handlers p)"
    and root: "HasPrefix (pp_resDir p) ''/''"
    using assms(2) by (auto simp: pp_wf_def)
  obtain r f w where c: "createOutDir env e p (sh_w s) = (r, p\<lparr>pp_seenTimes := f\<rparr>, w)"
    and d: "\<forall>d. r = Inr d \<longrightarrow> HasPrefix d ''/''"
    using createOutDir_result [OF root, of env e "sh_w s"] by auto
  show ?thesis
  proof (cases r)
    case (Inl err)
    then show ?thesis using assms(2) by (auto simp: pp_EntityStart_def c pp_wf_seen)
  next
    case (Inr outDir)
    show ?thesis
    proof (cases "ts_CheckValid (p_pb env) ts")
      case (Some err)
      then show ?thesis using assms(2) by (auto simp: pp_EntityStart_def c Inr pp_wf_seen)
    next
      case None
      define st where "st = \<lparr>s_Entity = e, s_Start = ts_AsTime (p_pb env) ts, s_IntermediateOutDir = dir,
        s_FinalOutDir = outDir, s_Errors = []\<rparr>"
      define p1 where "p1 = p\<lparr>pp_seenTimes := f, pp_stack := pp_stack p @ [st]\<rparr>"
      have "enabled (HEntityStart (EntityInfo st)) (length (pp_stack p))"
        using d Inr by (simp add: rooted_def EntityInfo_def st_def)
      from dispatch_wf [OF assms(1) this, of p1 body "(map EntityInfo (pp_stack p), en)" en "s\<lparr>sh_w := w\<rparr>"] hs root tr
      obtain x p' s' where "dispatch env (HEntityStart (EntityInfo st)) p1 (s\<lparr>sh_w := w\<rparr>) = Ret (x, p', s')"
        "pp_wf p'" "pp_stack p' = pp_stack p @ [st]"
        by (auto simp: p1_def traced_def)
      then show ?thesis by (simp add: pp_EntityStart_def c Inr None st_def [symmetric] p1_def [symmetric])
        (simp add: st_def)
    qed
  qed
qed

text \<open>Events of a running entity, and events without one.\<close>

lemma dispatch_note:
  assumes "files_ok env" and "pp_wf p" and "\<And>n. enabled c n" and "\<And>n. after c n = n"
    and "\<And>en. accept c (map EntityInfo (pp_stack p), en) = Some (map EntityInfo (pp_stack p), en)"
    and "map EntityInfo sts = map EntityInfo (pp_stack p)"
  shows "\<exists>e p' s'. dispatch env c (p\<lparr>pp_stack := sts\<rparr>) s = Ret (e, p', s') \<and> pp_wf p' \<and> pp_stack p' = sts"
proof -
  obtain body en where tr: "traced p body en" and hs: "list_all (h_ready (length (pp_stack p))) (pp_handlers p)"
    and root: "HasPrefix (pp_resDir p) ''/''"
    using assms(2) by (auto simp: pp_wf_def)
  have l: "length sts = length (pp_stack p)" using assms(6) map_eq_imp_length_eq by blast
  show ?thesis
    using dispatch_wf [OF assms(1,3), of "length (pp_stack p)" "p\<lparr>pp_stack := sts\<rparr>" body
        "(map EntityInfo (pp_stack p), en)" en s] hs root tr assms(4-6) l
    by (auto simp: traced_def)
qed

lemma map_EntityInfo_name: "map EntityInfo xs = map EntityInfo ys \<Longrightarrow> map s_Name xs = map s_Name ys"
proof -
  assume "map EntityInfo xs = map EntityInfo ys"
  then have "map (\<lambda>i. g_Name (i_Entity i)) (map EntityInfo xs) = map (\<lambda>i. g_Name (i_Entity i)) (map EntityInfo ys)"
    by simp
  then show ?thesis by (simp add: EntityInfo_def comp_def)
qed

lemma EntityLog_wf:
  assumes "files_ok env" and "pp_wf p"
  shows "\<exists>x p' s'. pp_EntityLog env ts name text level p s = Ret (x, p', s') \<and> pp_wf p' \<and> names p' = names p"
proof (cases "stateOf name (pp_stack p)")
  case (Some k)
  have "k < length (pp_stack p)" using stateOf_Some [OF Some] by simp
  then have "EntityInfo (pp_stack p ! k) \<in> EntityInfo ` set (pp_stack p)" by simp
  then show ?thesis
    using dispatch_note [OF assms, of "HEntityLog (EntityInfo (pp_stack p ! k))
      \<lparr>le_Time = ts_AsTime (p_pb env) ts, le_Text = text, le_Level = ProtoToLevel level\<rparr>" "pp_stack p" s]
    by (auto simp: pp_EntityLog_def Some)
qed (use assms in \<open>simp add: pp_EntityLog_def\<close>)

lemma EntityError_wf:
  assumes "files_ok env" and "pp_wf p"
  shows "\<exists>x p' s'. pp_EntityError env ts name err p s = Ret (x, p', s') \<and> pp_wf p' \<and>
    map EntityInfo (pp_stack p') = map EntityInfo (pp_stack p)"
proof (cases "stateOf name (pp_stack p)")
  case (Some k)
  have k: "k < length (pp_stack p)" using stateOf_Some [OF Some] by simp
  show ?thesis
  proof (cases "ts_CheckValid (p_pb env) ts")
    case None
    define e where "e = \<lparr>ee_Time = ts_AsTime (p_pb env) ts, ee_Error = err\<rparr>"
    define st where "st = (pp_stack p ! k)\<lparr>s_Errors := s_Errors (pp_stack p ! k) @ [e]\<rparr>"
    have i: "EntityInfo st = EntityInfo (pp_stack p ! k)" by (simp add: st_def)
    have m: "map EntityInfo ((pp_stack p)[k := st]) = map EntityInfo (pp_stack p)"
      using k i by (simp add: map_update list_update_same_conv)
    have "EntityInfo st \<in> EntityInfo ` set (pp_stack p)" using k i by simp
    then obtain x p' s' where "dispatch env (HEntityError (EntityInfo st) e) (p\<lparr>pp_stack := (pp_stack p)[k := st]\<rparr>) s =
        Ret (x, p', s')" "pp_wf p'" "pp_stack p' = (pp_stack p)[k := st]"
      using dispatch_note [OF assms, of "HEntityError (EntityInfo st) e" "(pp_stack p)[k := st]" s] m by auto
    then show ?thesis using m i by (simp add: pp_EntityError_def Some None e_def [symmetric] st_def [symmetric] Let_def)
  qed (use assms in \<open>simp add: pp_EntityError_def Some\<close>)
qed (use assms in \<open>simp add: pp_EntityError_def\<close>)

lemma RunLog_wf:
  assumes "files_ok env" and "pp_wf p"
  shows "\<exists>x p' s'. pp_RunLog env ts text level p s = Ret (x, p', s') \<and> pp_wf p' \<and> names p' = names p"
  using dispatch_note [OF assms, of "HRunLog
    \<lparr>le_Time = ts_AsTime (p_pb env) ts, le_Text = text, le_Level = ProtoToLevel level\<rparr>" "pp_stack p" s]
  by (auto simp: pp_RunLog_def)

lemma stateOf_end:
  assumes "stateOf name sts = Some k" and "Suc k = length sts"
  shows "sts \<noteq> [] \<and> s_Name (last sts) = name"
  using stateOf_Some [OF assms(1)] assms(2) by (metis diff_Suc_1 last_conv_nth length_0_conv nat.distinct(1))

lemma EntityEnd_wf:
  assumes "files_ok env" and "pp_wf p" and "ts_CheckValid (p_pb env) ts = None"
  shows "\<exists>x p' s'. pp_EntityEnd env ts name skip tlog p s = Ret (x, p', s') \<and> pp_wf p' \<and>
    (if map_option Suc (stateOf name (pp_stack p)) = Some (length (pp_stack p))
     then names p \<noteq> [] \<and> last (names p) = name \<and> names p' = butlast (names p)
     else names p' = names p \<and> x \<noteq> None)"
proof (cases "stateOf name (pp_stack p)")
  case (Some k)
  show ?thesis
  proof (cases "Suc k = length (pp_stack p)")
    case True
    obtain body en where tr: "traced p body en" and hs: "list_all (h_ready (length (pp_stack p))) (pp_handlers p)"
      and root: "HasPrefix (pp_resDir p) ''/''"
      using assms(2) by (auto simp: pp_wf_def)
    have ne: "pp_stack p \<noteq> []" and nm: "s_Name (last (pp_stack p)) = name"
      using stateOf_end [OF Some True] by auto
    define st where "st = last (pp_stack p)"
    define p1 where "p1 = p\<lparr>pp_stack := butlast (pp_stack p), pp_copying := (pp_copying p)(name \<mapsto> st)\<rparr>"
    define r where "r = \<lparr>en_Start = s_Start st, en_End = ts_AsTime (p_pb env) ts, en_Skip = skip,
      en_Errors = s_Errors st, en_TimingLog = tlog\<rparr>"
    have "enabled (HEntityEnd (EntityInfo st) r) (length (pp_stack p))" using ne by simp
    note d = dispatch_wf [OF assms(1) this, of p1 body "(map EntityInfo (pp_stack p), en)" "en @ [EntityInfo st]" s]
    have c: "s_Name x = m \<and> EntityInfo x \<in> set (en @ [EntityInfo st])" if "pp_copying p1 m = Some x" for m x
      using that tr nm by (auto simp: p1_def traced_def st_def split: if_splits)
    have "\<exists>x p' s'. dispatch env (HEntityEnd (EntityInfo st) r) p1 s = Ret (x, p', s') \<and> pp_wf p' \<and>
        pp_stack p' = pp_stack p1"
      by (rule d) (use hs root tr ne c in \<open>simp_all add: p1_def traced_def st_def last_map map_butlast\<close>)
    then obtain x p' s' where "dispatch env (HEntityEnd (EntityInfo st) r) p1 s = Ret (x, p', s')" "pp_wf p'"
      "pp_stack p' = butlast (pp_stack p)"
      by (auto simp: p1_def)
    then show ?thesis using ne nm True
      by (simp add: pp_EntityEnd_def Some assms(3) st_def [symmetric] p1_def [symmetric] r_def [symmetric] Let_def)
        (simp add: last_map map_butlast st_def)
  qed (use assms in \<open>auto simp: pp_EntityEnd_def Some\<close>)
qed (use assms in \<open>simp add: pp_EntityEnd_def\<close>)

lemma EntityCopyEnd_wf:
  assumes "files_ok env" and "pp_wf p"
  shows "\<exists>x p' s'. pp_EntityCopyEnd env name p s = Ret (x, p', s') \<and> pp_wf p' \<and> names p' = names p"
proof (cases "pp_copying p name")
  case (Some st)
  obtain body en where tr: "traced p body en" and hs: "list_all (h_ready (length (pp_stack p))) (pp_handlers p)"
    and root: "HasPrefix (pp_resDir p) ''/''"
    using assms(2) by (auto simp: pp_wf_def)
  have st: "s_Name st = name" "EntityInfo st \<in> set en" using tr Some by (auto simp: traced_def)
  have keep: "s_Name x = m \<and> EntityInfo x \<in> set (remove1 (EntityInfo st) en)"
    if "((pp_copying p)(name := None)) m = Some x" for m x
  proof -
    have "m \<noteq> name" "pp_copying p m = Some x" using that by (auto split: if_splits)
    then have "s_Name x = m" "EntityInfo x \<in> set en" using tr by (auto simp: traced_def)
    moreover have "EntityInfo x \<noteq> EntityInfo st" using EntityInfo_name calculation(1) st(1) \<open>m \<noteq> name\<close> by blast
    ultimately show ?thesis by (simp add: in_set_remove1)
  qed
  show ?thesis
    using dispatch_wf [OF assms(1), of "HEntityCopyEnd (EntityInfo st)" "length (pp_stack p)"
        "p\<lparr>pp_copying := (pp_copying p)(name := None)\<rparr>" body "(map EntityInfo (pp_stack p), en)"
        "remove1 (EntityInfo st) en" s] keep hs root tr st(2)
    by (auto simp: pp_EntityCopyEnd_def Some traced_def)
qed (use assms in \<open>simp add: pp_EntityCopyEnd_def\<close>)

text \<open>The names of the running entities after an event that succeeds.\<close>

fun track :: "RunTestsResponse \<Rightarrow> string list \<Rightarrow> string list" where
  "track (R_EntityStart ts e dir) ns = ns @ [g_Name e]"
| "track (R_EntityEnd ts name skip tlog) ns = (if ns \<noteq> [] \<and> last ns = name then butlast ns else ns)"
| "track ev ns = ns"

fun end_valid :: "pb \<Rightarrow> RunTestsResponse \<Rightarrow> bool" where
  "end_valid P (R_EntityEnd ts name skip tlog) = (ts_CheckValid P ts = None)"
| "end_valid P ev = True"

lemma handleEvent_wf:
  assumes "files_ok env" and "pp_wf p" and "end_valid (p_pb env) ev"
  shows "\<exists>x p' s'. handleEvent env ev p s = Ret (x, p', s') \<and> pp_wf p' \<and>
    (names p' = track ev (names p) \<or> names p' = names p \<and> x \<noteq> None)"
proof (cases ev)
  case (R_EntityStart ts e dir)
  then show ?thesis using EntityStart_wf [OF assms(1,2), of ts e dir s] by auto
next
  case (R_EntityEnd ts name skip tlog)
  then show ?thesis using EntityEnd_wf [OF assms(1,2), of ts name skip tlog s] assms(3)
    by (auto simp del: map_is_Nil_conv split: if_splits)
next
  case (R_EntityError ts name err)
  obtain x p' s' where "pp_EntityError env ts name err p s = Ret (x, p', s')" "pp_wf p'"
    "map EntityInfo (pp_stack p') = map EntityInfo (pp_stack p)"
    using EntityError_wf [OF assms(1,2)] by blast
  then show ?thesis using map_EntityInfo_name [of "pp_stack p'" "pp_stack p"] R_EntityError by simp
next
  case (R_EntityLog ts name msg level)
  then show ?thesis using EntityLog_wf [OF assms(1,2), of ts name msg level s] by auto
next
  case (R_EntityCopyEnd name)
  then show ?thesis using EntityCopyEnd_wf [OF assms(1,2), of name s] by auto
next
  case (R_RunLog ts msg level)
  then show ?thesis using RunLog_wf [OF assms(1,2), of ts msg level s] by auto
qed (use assms(2) in \<open>auto split: prod.splits\<close>)

text \<open>No entity starts while one of the same name is running.\<close>

fun nested_names :: "string list \<Rightarrow> input list \<Rightarrow> bool" where
  "nested_names ns [] = True"
| "nested_names ns (Pull n k # is) = nested_names ns is"
| "nested_names ns (Recv ev # is) = (distinct (track ev ns) \<and> nested_names (track ev ns) is)"

fun ends_valid :: "pb \<Rightarrow> input list \<Rightarrow> bool" where
  "ends_valid P [] = True"
| "ends_valid P (Pull n k # is) = ends_valid P is"
| "ends_valid P (Recv ev # is) = (end_valid P ev \<and> ends_valid P is)"

lemma h_puller_ready: "h_ready n h \<Longrightarrow> h_ready n (fst (h_puller env k h s))"
  by (cases h) auto

lemma run_puller_wf:
  assumes "pp_wf p"
  shows "pp_wf (fst (run_puller env n k p s)) \<and> pp_stack (fst (run_puller env n k p s)) = pp_stack p"
proof (cases "n < length (pp_handlers p)")
  case True
  have "list_all (h_ready (length (pp_stack p))) ((pp_handlers p)[n := fst (h_puller env k (pp_handlers p ! n) s)])"
    using assms True h_puller_ready [of "length (pp_stack p)" "pp_handlers p ! n" env k s]
    by (auto simp: pp_wf_def list_all_length nth_list_update)
  then show ?thesis using assms True
    by (auto simp: run_puller_def pp_wf_def traced_def case_prod_beta)
qed (use assms in \<open>simp add: run_puller_def\<close>)

lemma recv_loop_wf:
  assumes "files_ok env" and "pp_wf p" and "distinct (names p)" and "nested_names (names p) ins"
    and "ends_valid (p_pb env) ins"
  shows "\<exists>x p' s'. recv_loop env stop ins p s = Ret (x, p', s') \<and> pp_wf p' \<and> distinct (names p')"
  using assms(2-)
proof (induction ins arbitrary: p s)
  case (Cons i ins)
  show ?case
  proof (cases i)
    case (Pull n k)
    then show ?thesis using Cons run_puller_wf [OF Cons.prems(1), of env n k s]
      by (auto simp: case_prod_beta)
  next
    case (Recv ev)
    then obtain x p' s' where h: "handleEvent env ev p s = Ret (x, p', s')" "pp_wf p'"
      "names p' = track ev (names p) \<or> names p' = names p \<and> x \<noteq> None"
      using handleEvent_wf [OF assms(1) Cons.prems(1), of ev s] Cons.prems(4) by auto
    then have d: "distinct (names p')" using Cons.prems(2,3) Recv by auto
    show ?thesis
    proof (cases x)
      case None
      then show ?thesis using Cons.IH [OF h(2) d] Cons.prems(3,4) h Recv by auto
    qed (use h d Recv in simp)
  qed
qed simp

subsection \<open>The end of a run keeps the invariant\<close>

definition clock_ok :: "'w penv \<Rightarrow> bool" where
  "clock_ok env \<longleftrightarrow> pb_laws (p_pb env) \<and> (\<forall>w. valid_time (fst (l_Now (p_log env) w)))"

lemma Now_ts_valid: "clock_ok env \<Longrightarrow> Now_ts env s = (ts, s') \<Longrightarrow> ts_CheckValid (p_pb env) ts = None"
  unfolding clock_ok_def Now_ts_def by (auto split: prod.splits intro: pb_valid) (metis fst_conv pb_valid)

lemma orphan_step_wf:
  assumes "files_ok env" and "clock_ok env" and "pp_wf p" and "pp_stack p \<noteq> []" and "distinct (names p)"
  shows "\<exists>x p' s'. orphan_step env runErr p s = Ret (x, p', s') \<and> pp_wf p' \<and> names p' = butlast (names p)"
proof -
  let ?name = "s_Name (last (pp_stack p))"
  obtain ts s1 where n1: "Now_ts env s = (ts, s1)" by fastforce
  obtain x1 p1 s2 where e1: "pp_EntityError env ts ?name (reason_only did_not_finish) p s1 = Ret (x1, p1, s2)"
    and w1: "pp_wf p1" and i1: "map EntityInfo (pp_stack p1) = map EntityInfo (pp_stack p)"
    using EntityError_wf [OF assms(1,3)] by blast
  obtain ts' s3 where n2: "Now_ts env s2 = (ts', s3)" by fastforce
  have nm: "names p1 = names p" by (rule map_EntityInfo_name [OF i1])
  have ne: "pp_stack p1 \<noteq> []" using i1 assms(4) by auto
  have "s_Name (last (pp_stack p1)) = ?name"
    using nm ne assms(4) by (metis last_map)
  then have "map_option Suc (stateOf ?name (pp_stack p1)) = Some (length (pp_stack p1))"
    using stateOf_last [OF ne] nm assms(5) ne by simp
  with EntityEnd_wf [OF assms(1) w1 Now_ts_valid [OF assms(2) n2], of ?name "[]" None s3]
  obtain x2 p2 s4 where "pp_EntityEnd env ts' ?name [] None p1 s3 = Ret (x2, p2, s4)" "pp_wf p2"
    "names p2 = butlast (names p1)"
    by auto
  then show ?thesis using n1 n2 e1 nm by (simp add: orphan_step_def Let_def)
qed

lemma end_orphans_wf:
  assumes "files_ok env" and "clock_ok env" and "pp_wf p" and "distinct (names p)"
  shows "\<exists>x p' s'. end_orphans env runErr p s = Some (Ret (x, p', s')) \<and> pp_wf p' \<and> pp_stack p' = []"
  using assms(3,4)
proof (induction "length (pp_stack p)" arbitrary: runErr p s)
  case 0
  then show ?case by (subst end_orphans.simps) simp
next
  case (Suc n)
  then have ne: "pp_stack p \<noteq> []" by auto
  obtain x p' s' where o: "orphan_step env runErr p s = Ret (x, p', s')" "pp_wf p'" "names p' = butlast (names p)"
    using orphan_step_wf [OF assms(1,2) Suc.prems(1) ne Suc.prems(2)] by blast
  have "n = length (pp_stack p')" using o(3) Suc.hyps(2) by (metis diff_Suc_1 length_butlast length_map)
  moreover have "distinct (names p')" using o(3) Suc.prems(2) by (simp add: distinct_butlast)
  ultimately show ?case using Suc.hyps(1) [of p' x s'] o(1,2) ne by (subst end_orphans.simps) simp
qed

lemma attribute_error_wf:
  assumes "files_ok env" and "pp_wf p"
  shows "\<exists>p' s'. attribute_error env err p s = Ret (p', s') \<and> pp_wf p' \<and>
    map EntityInfo (pp_stack p') = map EntityInfo (pp_stack p)"
proof (cases "pp_stack p = []")
  case True
  then show ?thesis using assms(2) by (auto simp: attribute_error_def split: prod.splits)
next
  case False
  obtain msg s1 where m: "run_error_msg env err p s = (msg, s1)" by fastforce
  obtain msg' s2 where t: "timeout_msg env (last (pp_stack p)) msg s1 = (msg', s2)" by fastforce
  obtain ts s3 where n: "Now_ts env s2 = (ts, s3)" by fastforce
  obtain x p' s4 where "pp_EntityError env ts (s_Name (last (pp_stack p))) (reason_only msg') p s3 = Ret (x, p', s4)"
    "pp_wf p'" "map EntityInfo (pp_stack p') = map EntityInfo (pp_stack p)"
    using EntityError_wf [OF assms] by blast
  then show ?thesis using False by (simp add: attribute_error_def m t n)
qed

lemma RunEnd_wf:
  assumes "files_ok env" and "clock_ok env" and "pp_wf p" and "distinct (names p)"
  shows "\<exists>p' s' body en. pp_RunEnd env runErr p s = Some (Ret (p', s')) \<and>
    pp_calls p' = HRunStart # body @ [HRunEnd] \<and> replay body ([], []) = Some ([], en)"
proof -
  have "\<exists>p1 s1. (case runErr of None \<Rightarrow> Ret (p, s) | Some err \<Rightarrow> attribute_error env err p s) = Ret (p1, s1) \<and>
      pp_wf p1 \<and> map EntityInfo (pp_stack p1) = map EntityInfo (pp_stack p)"
    using attribute_error_wf [OF assms(1,3)] assms(3) by (cases runErr) auto
  then obtain p1 s1 where a: "(case runErr of None \<Rightarrow> Ret (p, s) | Some err \<Rightarrow> attribute_error env err p s) = Ret (p1, s1)"
    and w1: "pp_wf p1" and i1: "map EntityInfo (pp_stack p1) = map EntityInfo (pp_stack p)" by blast
  have "distinct (names p1)" using map_EntityInfo_name [OF i1] assms(4) by simp
  then obtain x p2 s2 where o: "end_orphans env runErr p1 s1 = Some (Ret (x, p2, s2))" and w2: "pp_wf p2"
    and e2: "pp_stack p2 = []"
    using end_orphans_wf [OF assms(1,2) w1] by blast
  obtain body en where tr: "traced p2 body en" and hs: "list_all (h_ready 0) (pp_handlers p2)"
    using w2 e2 by (auto simp: pp_wf_def)
  obtain y hs' s3 where "call_handlers env HRunEnd (pp_handlers p2) s2 = Ret (y, hs', s3)"
    using hp.each_run_end [OF assms(1) hs] unfolding call_handlers_def by blast
  then show ?thesis using a o tr e2
    by (auto simp: pp_RunEnd_def finish_run_def traced_def Let_def split: option.splits)
qed

subsection \<open>A whole run\<close>

fun conn_ok :: "pb \<Rightarrow> conn \<Rightarrow> bool" where
  "conn_ok P (Stream ins stop) = (nested_names [] ins \<and> ends_valid P ins)"
| "conn_ok P conn = True"

lemma RunStart_wf:
  assumes "files_ok env" and "HasPrefix resDir ''/''" and "list_all h_fresh hs"
  shows "\<exists>x p s'. pp_RunStart env (processor_New resDir hs bundle) s = Ret (x, p, s') \<and> pp_wf p \<and> pp_stack p = []"
proof -
  have "list_all h_fresh (ResultsH [] # hs)" using assms(3) by simp
  from hp.each_run_start [OF assms(1) this, of s]
  obtain x hs' s' where "call_handlers env HRunStart (ResultsH [] # hs) s = Ret (x, hs', s')" "list_all (h_ready 0) hs'"
    unfolding call_handlers_def by blast
  then show ?thesis using assms(2)
    by (auto simp: pp_RunStart_def dispatch_def processor_New_def newPreprocessor_def pp_wf_def traced_def)
qed

lemma run_stream_wf:
  assumes "files_ok env" and "HasPrefix resDir ''/''" and "list_all h_fresh hs" and "conn_ok (p_pb env) conn"
    and "pp_RunStart env (processor_New resDir hs bundle) s = Ret (x, p, s')"
    and "run_stream env path conn p s' = Ret (y, p2, s2)"
  shows "pp_wf p2 \<and> distinct (names p2)"
proof -
  have rs: "pp_wf p" "pp_stack p = []" using RunStart_wf [OF assms(1-3), of "bundle" s] assms(5) by auto
  show ?thesis
  proof (cases conn)
    case (Stream ins stop)
    then show ?thesis using recv_loop_wf [OF assms(1) rs(1), of ins "stop_error path stop" s'] rs(2) assms(4,6)
      by (auto simp: run_stream_def)
  qed (use rs assms(6) in \<open>auto simp: run_stream_def\<close>)
qed

lemma run_consistent:
  assumes "files_ok env" and "clock_ok env" and "HasPrefix resDir ''/''" and "list_all h_fresh hs"
    and "conn_ok (p_pb env) conn"
  shows "\<exists>p s' body en. client_RunTests env path conn (processor_New resDir hs bundle) s = Some (Ret (p, s')) \<and>
    pp_calls p = HRunStart # body @ [HRunEnd] \<and> replay body ([], []) = Some ([], en)"
proof -
  obtain x p s' where rs: "pp_RunStart env (processor_New resDir hs bundle) s = Ret (x, p, s')" "pp_wf p" "pp_stack p = []"
    using RunStart_wf [OF assms(1,3,4)] by blast
  show ?thesis
  proof (cases x)
    case (Some e)
    then show ?thesis using RunEnd_wf [OF assms(1,2) rs(2)] rs by (simp add: client_RunTests_def)
  next
    case None
    have "\<exists>y p2 s2. run_stream env path conn p s' = Ret (y, p2, s2) \<and> pp_wf p2 \<and> distinct (names p2)"
    proof (cases conn)
      case (Stream ins stop)
      then show ?thesis using recv_loop_wf [OF assms(1) rs(2), of ins] rs(3) assms(5) by (simp add: run_stream_def)
    qed (use rs in \<open>simp_all add: run_stream_def\<close>)
    then obtain y p2 s2 where "run_stream env path conn p s' = Ret (y, p2, s2)" "pp_wf p2" "distinct (names p2)" by blast
    then show ?thesis using RunEnd_wf [OF assms(1,2)] rs None by (simp add: client_RunTests_def)
  qed
qed


text \<open>An environment in which everything works, and a bundle that crashes while a test is running.\<close>

definition ex_penv :: "nat penv" where
  "ex_penv =
     \<lparr>p_os = ex_os\<lparr>os_Stat := (\<lambda>w p. StatNotExist)\<rparr>, p_pb = ex_pb,
      p_log = \<lparr>l_Now = ex_clock, l_Write = (\<lambda>x d w. (None, w)), l_Parent = (\<lambda>l t m w. w), l_Prefix = []\<rparr>,
      p_io = ex_io, p_JSON = (\<lambda>r. r_Name r), p_client = None, p_Create = (\<lambda>f w. (None, w)), p_Close = (\<lambda>f w. w),
      p_ReadDir = (\<lambda>w d. Inr []), p_Rename = (\<lambda>a b w. (None, w)), p_RemoveAll = (\<lambda>d w. w),
      p_pull = (\<lambda>a b w. (None, w)), p_pass = (\<lambda>ev w. (None, w)), p_handle = (\<lambda>req w. (None, w)), p_stage = Some [],
      p_deadline = None, p_timeout = None, p_diagnose = (\<lambda>d w. ([], w)), p_fmtErr = (\<lambda>e. ''error''),
      p_fmtSec = show_int, p_send = (\<lambda>r w. (None, w))\<rparr>"

definition ex_sh :: "nat sh" where
  "ex_sh = \<lparr>sh_w = 0, sh_mux = [], sh_next = 0, sh_counter = NewCounter 1, sh_timing = NewLog\<rparr>"

definition ex_fixture :: ProtoEntity where
  "ex_fixture = ex_entity\<lparr>g_Type := EntityType_FIXTURE, g_Name := ''fixt''\<rparr>"

definition ex_ts :: "Timestamp option" where
  "ex_ts = Some \<lparr>ts_seconds = 1700000000, ts_nanos = 0\<rparr>"

definition ex_conn :: conn where
  "ex_conn = Stream
     [Recv (R_EntityStart ex_ts ex_fixture ''/out/fixt''), Recv (R_EntityStart ex_ts ex_entity ''/out/test''),
      Recv (R_EntityLog ex_ts ''pkg.Test'' ''hello'' INFO), Recv (R_EntityEnd ex_ts ''pkg.Test'' [] None),
      Recv (R_EntityCopyEnd ''pkg.Test''), Pull 6 0, Recv (R_EntityStart ex_ts ex_entity ''/out/test'')]
     (Unavailable ''EOF'')"

lemma ex_penv_ok: "files_ok ex_penv" "clock_ok ex_penv" "p_pb ex_penv = ex_pb"
proof -
  show "files_ok ex_penv" by (simp add: files_ok_def ex_penv_def NewStreamedWriter_def ex_io_def)
  have "valid_time (fst (ex_clock w))" for w
    using mod_less_divisor [of 1000000 w] by (simp add: ex_clock_def valid_time_def zero_time_def)
  then show "clock_ok ex_penv" by (simp add: clock_ok_def ex_penv_def ex_pb_laws)
qed (simp add: ex_penv_def)

lemma ex_conn_ok: "conn_ok ex_pb ex_conn"
proof -
  have v: "ts_CheckValid ex_pb ex_ts = None"
    by (simp add: ex_ts_def ex_pb_def valid_time_def zero_time_def)
  have n: "g_Name ex_entity = ''pkg.Test''" "g_Name ex_fixture = ''fixt''" by (simp_all add: ex_fixture_def ex_entity_def)
  show ?thesis by (simp add: ex_conn_def v n)
qed


text \<open>Induction over the rounds of the loop that ends running entities, for a run that ends.\<close>

lemma end_orphans_induct:
  assumes "end_orphans env runErr p s = Some y"
    and "\<And>r p s. pp_stack p = [] \<Longrightarrow> P r p s (Ret (r, p, s))"
    and "\<And>r p s m. pp_stack p \<noteq> [] \<Longrightarrow> orphan_step env r p s = Panic m \<Longrightarrow> P r p s (Panic m)"
    and "\<And>r p s x p' s' y. pp_stack p \<noteq> [] \<Longrightarrow> orphan_step env r p s = Ret (x, p', s') \<Longrightarrow> P x p' s' y \<Longrightarrow> P r p s y"
  shows "P runErr p s y"
proof -
  define Q where "Q = (\<lambda>e r p s y. e = env \<longrightarrow> P r p s y)"
  have "Q env runErr p s y"
  proof (rule end_orphans.raw_induct [where P = Q, OF _ assms(1)])
    fix f e r p s y
    assume ih: "\<And>e r p s y. f e r p s = Some y \<Longrightarrow> Q e r p s y"
      and b: "(if pp_stack p = [] then Some (Ret (r, p, s))
        else case orphan_step e r p s of Ret (x, xa, xb) \<Rightarrow> f e x xa xb | Panic m \<Rightarrow> Some (Panic m)) = Some y"
    show "Q e r p s y"
    proof (cases "pp_stack p = []")
      case False
      show ?thesis
      proof (cases "orphan_step e r p s")
        case (Ret z)
        then obtain x1 p1 s1 where z: "orphan_step e r p s = Ret (x1, p1, s1)" by (cases z) auto
        then have "Q e x1 p1 s1 y" using ih b False by simp
        then show ?thesis using z False assms(4) unfolding Q_def by blast
      next
        case (Panic m)
        then have "y = Panic m" using b False by simp
        then show ?thesis using Panic False assms(3) unfolding Q_def by blast
      qed
    qed (use b assms(2) in \<open>auto simp: Q_def\<close>)
  qed
  then show ?thesis by (simp add: Q_def)
qed

subsection \<open>Invariants of handlers and calls\<close>

text \<open>Whatever every call of all handlers keeps, together with the record of the calls, a whole run
  keeps.\<close>

locale call_invariant =
  fixes env :: "'w penv"
    and J :: "handler list \<Rightarrow> 'w sh \<Rightarrow> hcall list \<Rightarrow> bool"
  assumes called: "call_handlers env c hs s = Ret (e, hs', s') \<Longrightarrow> J hs s cs \<Longrightarrow> J hs' s' (cs @ [c])"
    and world: "J hs s cs \<Longrightarrow> J hs (s\<lparr>sh_w := w\<rparr>) cs"
    and puller: "n < length hs \<Longrightarrow> h_puller env k (hs ! n) s = (h, s') \<Longrightarrow> J hs s cs \<Longrightarrow> J (hs[n := h]) s' cs"
begin

abbreviation JP :: "preprocessor \<Rightarrow> 'w sh \<Rightarrow> bool" where
  "JP p s \<equiv> J (pp_handlers p) s (pp_calls p)"

lemma dispatch_J: "dispatch env c p s = Ret (e, p', s') \<Longrightarrow> JP p s \<Longrightarrow> JP p' s'"
  by (auto simp: dispatch_def intro: called split: go.splits)

lemma emit_J: "J hs s cs \<Longrightarrow> J hs (emit env level m s) cs"
  by (simp add: emit_def world)

lemma h_Stack_world: "\<exists>w. snd (h_StackOperation env req h s) = s\<lparr>sh_w := w\<rparr>"
  by (cases h) (auto simp: case_prod_beta intro: exI [of _ "sh_w s"])

lemma response_J: "first_response env req r hs s = (r', s') \<Longrightarrow> J hs0 s cs \<Longrightarrow> J hs0 s' cs"
proof (induction hs arbitrary: r s)
  case (Cons h hs)
  obtain a s1 where h: "h_StackOperation env req h s = (a, s1)" by fastforce
  obtain w where "s1 = s\<lparr>sh_w := w\<rparr>" using h_Stack_world [of req h s] h by auto
  then have "J hs0 s1 cs" using Cons.prems(2) world by simp
  then show ?case using Cons h by (auto split: option.splits if_splits)
qed simp

lemma createOutDir_J:
  "createOutDir env e p w = (r, p', w') \<Longrightarrow> pp_handlers p' = pp_handlers p \<and> pp_calls p' = pp_calls p"
  by (auto simp: createOutDir_def Let_def split: prod.splits option.splits)

lemma EntityStart_J: "pp_EntityStart env ts e dir p s = Ret (x, p', s') \<Longrightarrow> JP p s \<Longrightarrow> JP p' s'"
  by (auto simp: pp_EntityStart_def Let_def world dest!: createOutDir_J dispatch_J
      split: prod.splits sum.splits option.splits)

lemma EntityError_J: "pp_EntityError env ts name err p s = Ret (x, p', s') \<Longrightarrow> JP p s \<Longrightarrow> JP p' s'"
  by (auto simp: pp_EntityError_def Let_def dest: dispatch_J split: option.splits)

lemma EntityEnd_J: "pp_EntityEnd env ts name skip tlog p s = Ret (x, p', s') \<Longrightarrow> JP p s \<Longrightarrow> JP p' s'"
  by (auto simp: pp_EntityEnd_def Let_def dest: dispatch_J split: option.splits if_splits)

lemma handleEvent_J: "handleEvent env ev p s = Ret (x, p', s') \<Longrightarrow> JP p s \<Longrightarrow> JP p' s'"
proof (cases ev)
  case (R_StackOperation req)
  assume "handleEvent env ev p s = Ret (x, p', s')" "JP p s"
  then show ?thesis
    by (auto simp: R_StackOperation pp_StackOperation_def world dest!: response_J split: prod.splits)
qed (auto simp: pp_RunLog_def pp_EntityLog_def pp_EntityCopyEnd_def
    dest: EntityStart_J EntityError_J EntityEnd_J dispatch_J split: option.splits)

lemma recv_loop_J: "recv_loop env stop ins p s = Ret (x, p', s') \<Longrightarrow> JP p s \<Longrightarrow> JP p' s'"
proof (induction ins arbitrary: p s)
  case (Cons i ins)
  show ?case
  proof (cases i)
    case (Pull n k)
    have "JP (fst (run_puller env n k p s)) (snd (run_puller env n k p s))"
      using Cons.prems(2) puller by (auto simp: run_puller_def case_prod_beta)
    then show ?thesis using Cons Pull by (simp add: case_prod_beta)
  next
    case (Recv ev)
    then show ?thesis using Cons handleEvent_J [of ev p s] by (auto split: go.splits option.splits)
  qed
qed simp

lemma Now_ts_J: "Now_ts env s = (ts, s') \<Longrightarrow> J hs s cs \<Longrightarrow> J hs s' cs"
  by (auto simp: Now_ts_def world split: prod.splits)

lemma attribute_error_J: "attribute_error env err p s = Ret (p', s') \<Longrightarrow> JP p s \<Longrightarrow> JP p' s'"
proof -
  assume a: "attribute_error env err p s = Ret (p', s')" and j: "JP p s"
  obtain msg s1 where m: "run_error_msg env err p s = (msg, s1)" by fastforce
  have j1: "JP p s1" using m j by (auto simp: run_error_msg_def Let_def emit_J world split: prod.splits)
  show ?thesis
  proof (cases "pp_stack p = []")
    case False
    obtain msg' s2 where t: "timeout_msg env (last (pp_stack p)) msg s1 = (msg', s2)" by fastforce
    have j2: "JP p s2" using t j1 by (auto simp: timeout_msg_def Let_def world split: prod.splits if_splits)
    obtain ts s3 where n: "Now_ts env s2 = (ts, s3)" by fastforce
    show ?thesis using a False m t n Now_ts_J [OF n j2]
      by (auto simp: attribute_error_def dest: EntityError_J split: go.splits)
  qed (use a j1 in \<open>simp add: attribute_error_def m\<close>)
qed

lemma orphan_step_J: "orphan_step env runErr p s = Ret (x, p', s') \<Longrightarrow> JP p s \<Longrightarrow> JP p' s'"
  by (auto simp: orphan_step_def Let_def dest: EntityError_J EntityEnd_J Now_ts_J split: prod.splits go.splits)

lemma end_orphans_J:
  assumes "end_orphans env runErr p s = Some (Ret (x, p', s'))" and "JP p s"
  shows "JP p' s'"
  using end_orphans_induct [OF assms(1), where P = "\<lambda>r p s y. \<forall>x p' s'. y = Ret (x, p', s') \<longrightarrow> JP p s \<longrightarrow> JP p' s'"]
    orphan_step_J assms(2) by blast

lemma finish_run_J: "finish_run env runErr p s = Ret (p', s') \<Longrightarrow> JP p s \<Longrightarrow> JP p' s'"
  by (auto simp: finish_run_def Let_def dest: called split: go.splits option.splits)

lemma RunEnd_J: "pp_RunEnd env runErr p s = Some (Ret (p', s')) \<Longrightarrow> JP p s \<Longrightarrow> JP p' s'"
  unfolding pp_RunEnd_def
  by (auto dest!: attribute_error_J end_orphans_J finish_run_J split: go.splits option.splits)

text \<open>The run of a client.\<close>

lemma run_J:
  assumes "client_RunTests env path conn p s = Some (Ret (p', s'))" and "JP p s"
  shows "JP p' s'"
proof -
  obtain x p1 s1 where r: "pp_RunStart env p s = Ret (x, p1, s1)"
    using assms(1) by (auto simp: client_RunTests_def split: go.splits)
  have j1: "JP p1 s1" using dispatch_J [OF r [unfolded pp_RunStart_def] assms(2)] .
  show ?thesis
  proof (cases x)
    case (Some e)
    then show ?thesis using assms(1) r RunEnd_J [OF _ j1] by (simp add: client_RunTests_def)
  next
    case None
    obtain y p2 s2 where st: "run_stream env path conn p1 s1 = Ret (y, p2, s2)"
      using assms(1) r None by (auto simp: client_RunTests_def split: go.splits)
    have "JP p2 s2" using st j1 recv_loop_J by (auto simp: run_stream_def split: conn.splits)
    then show ?thesis using assms(1) r None st RunEnd_J by (simp add: client_RunTests_def)
  qed
qed

end

end
