(* ===== verification/ProcResults.thy ===== *)
theory ProcResults
  imports ProcSpec
begin

text \<open>
  What comes out of a run: one result per test that started, with an error for every test that did not
  finish.
\<close>

subsection \<open>Results\<close>

definition result_of :: "pb \<Rightarrow> hcall \<Rightarrow> Result list" where
  "result_of P c =
     (case c of
        HEntityEnd i r \<Rightarrow>
          (if g_Type (i_Entity i) = EntityType_TEST
           then case newResult P i r of Inl e \<Rightarrow> [] | Inr x \<Rightarrow> [x] else [])
      | _ \<Rightarrow> [])"

definition results_of :: "pb \<Rightarrow> hcall list \<Rightarrow> Result list" where
  "results_of P cs = concat (map (result_of P) cs)"

definition results_inv :: "'w penv \<Rightarrow> handler list \<Rightarrow> 'w sh \<Rightarrow> hcall list \<Rightarrow> bool" where
  "results_inv env hs s cs \<longleftrightarrow> (\<exists>t. hs = ResultsH (results_of (p_pb env) cs) # t)"

lemma h_call_results:
  "h_call env c (ResultsH rs) s = Ret (e, h', s') \<Longrightarrow> h' = ResultsH (rs @ result_of (p_pb env) c)"
  by (cases c) (auto simp: base_def results_EntityEnd_def result_of_def split: sum.splits if_splits)

lemma each_Cons:
  "call_handlers env c (h # hs) s = Ret (e, hs', s') \<Longrightarrow>
     \<exists>e1 h' s1 e2 t. h_call env c h s = Ret (e1, h', s1) \<and> call_handlers env c hs s1 = Ret (e2, t, s') \<and> hs' = h' # t"
  by (auto simp: call_handlers_def split: go.splits)

lemma each_Nil: "call_handlers env c [] s = Ret (e, hs', s') \<Longrightarrow> hs' = [] \<and> s' = s"
  by (simp add: call_handlers_def)

interpretation ri: call_invariant env "results_inv env" for env
proof unfold_locales
  fix c hs s e hs' s' cs
  assume "call_handlers env c hs s = Ret (e, hs', s')" and "results_inv env hs s cs"
  then show "results_inv env hs' s' (cs @ [c])"
    by (auto simp: results_inv_def results_of_def dest!: each_Cons h_call_results)
next
  fix n hs k s h s' cs
  assume "n < length hs" "h_puller env k (hs ! n) s = (h, s')" "results_inv env hs s cs"
  then show "results_inv env (hs[n := h]) s' cs" by (cases n) (auto simp: results_inv_def)
qed (simp add: results_inv_def)

lemma run_results:
  assumes "client_RunTests env path conn (processor_New resDir hs bundle) s = Some (Ret (p, s'))"
  shows "Results (pp_handlers p) = results_of (p_pb env) (pp_calls p)"
proof -
  have "results_inv env (pp_handlers p) s' (pp_calls p)"
    by (rule ri.run_J [OF assms]) (simp add: results_inv_def results_of_def processor_New_def newPreprocessor_def)
  then show ?thesis by (auto simp: results_inv_def)
qed

text \<open>The tests whose start and whose end the handlers saw.  A test whose timeout is not a valid
  duration has no result.\<close>

definition timeout_valid :: "pb \<Rightarrow> ProtoEntity \<Rightarrow> bool" where
  "timeout_valid P e =
     (case ld_Timeout (GetLegacyData e) of None \<Rightarrow> True | Some d \<Rightarrow> d_CheckValid P d = None)"

definition is_test :: "pb \<Rightarrow> entityInfo \<Rightarrow> bool" where
  "is_test P i \<longleftrightarrow> g_Type (i_Entity i) = EntityType_TEST \<and> timeout_valid P (i_Entity i)"

fun start_info :: "hcall \<Rightarrow> entityInfo list" where
  "start_info (HEntityStart i) = [i]"
| "start_info c = []"

fun end_info :: "hcall \<Rightarrow> entityInfo list" where
  "end_info (HEntityEnd i r) = [i]"
| "end_info c = []"

definition started_infos :: "hcall list \<Rightarrow> entityInfo list" where
  "started_infos cs = concat (map start_info cs)"

definition started_tests :: "pb \<Rightarrow> hcall list \<Rightarrow> string list" where
  "started_tests P cs = map (\<lambda>i. g_Name (i_Entity i)) (filter (is_test P) (started_infos cs))"

lemma accept_mset:
  assumes "accept c (run, en) = Some (run', en')"
  shows "mset (start_info c) + mset run = mset (end_info c) + mset run'"
proof (cases c)
  case (HEntityEnd i r)
  then have r: "run \<noteq> []" "run' = butlast run" "i = last run"
    using assms by (auto split: if_splits)
  then have "mset run = mset (run' @ [i])" by simp
  then show ?thesis using HEntityEnd by simp
qed (use assms in \<open>auto split: if_splits\<close>)

lemma replay_mset:
  "replay cs (run, en) = Some (run', en') \<Longrightarrow>
     mset (concat (map start_info cs)) + mset run = mset (concat (map end_info cs)) + mset run'"
proof (induction cs arbitrary: run en)
  case (Cons c cs)
  obtain run1 en1 where a: "accept c (run, en) = Some (run1, en1)" and r: "replay cs (run1, en1) = Some (run', en')"
    using Cons.prems by (auto split: option.splits)
  have "mset (start_info c) + mset (concat (map start_info cs)) + mset run =
      mset (end_info c) + (mset (concat (map start_info cs)) + mset run1)"
    using accept_mset [OF a] by (metis union_assoc union_commute)
  then show ?case using Cons.IH [OF r] by (simp add: union_assoc)
qed simp

lemma newResult_ok:
  assumes "g_Type (i_Entity i) = EntityType_TEST"
  shows "(\<exists>x. newResult P i r = Inr x) \<longleftrightarrow> timeout_valid P (i_Entity i)"
    and "newResult P i r = Inr x \<Longrightarrow> r_Name x = g_Name (i_Entity i)"
  using assms by (auto simp: newResult_def NewTest_def timeout_valid_def Let_def split: option.splits)

lemma result_of_names:
  "map r_Name (result_of P c) = map (\<lambda>i. g_Name (i_Entity i)) (filter (is_test P) (end_info c))"
proof (cases c)
  case (HEntityEnd i r)
  then show ?thesis using newResult_ok [of i P r]
    by (auto simp: result_of_def is_test_def split: sum.splits)
qed (simp_all add: result_of_def)

lemma results_of_names:
  "map r_Name (results_of P cs) = map (\<lambda>i. g_Name (i_Entity i)) (filter (is_test P) (concat (map end_info cs)))"
  by (induction cs) (simp_all add: results_of_def result_of_names)

lemma run_result_names:
  assumes "files_ok env" and "clock_ok env" and "HasPrefix resDir ''/''" and "list_all h_fresh hs"
    and "conn_ok (p_pb env) conn"
  shows "\<exists>p s'. client_RunTests env path conn (processor_New resDir hs bundle) s = Some (Ret (p, s')) \<and>
    mset (map r_Name (Results (pp_handlers p))) = mset (started_tests (p_pb env) (pp_calls p))"
proof -
  obtain p s' body en where r: "client_RunTests env path conn (processor_New resDir hs bundle) s = Some (Ret (p, s'))"
    and c: "pp_calls p = HRunStart # body @ [HRunEnd]" and b: "replay body ([], []) = Some ([], en)"
    using run_consistent [OF assms] by blast
  have "mset (concat (map start_info (pp_calls p))) = mset (concat (map end_info (pp_calls p)))"
    using replay_mset [OF b] by (simp add: c)
  then have "mset (map (\<lambda>i. g_Name (i_Entity i)) (filter (is_test (p_pb env)) (concat (map start_info (pp_calls p))))) =
      mset (map (\<lambda>i. g_Name (i_Entity i)) (filter (is_test (p_pb env)) (concat (map end_info (pp_calls p)))))"
    by (simp only: mset_map mset_filter)
  then have "mset (map r_Name (Results (pp_handlers p))) = mset (started_tests (p_pb env) (pp_calls p))"
    unfolding run_results [OF r] results_of_names started_tests_def started_infos_def by (rule sym)
  with r show ?thesis by blast
qed



subsection \<open>Tests that did not finish\<close>

definition unfinished :: "entityInfo \<Rightarrow> hcall \<Rightarrow> bool" where
  "unfinished i c \<longleftrightarrow> (\<exists>r. c = HEntityEnd i r \<and> en_Errors r \<noteq> [] \<and> x_Reason (ee_Error (last (en_Errors r))) = did_not_finish)"

lemma dispatch_Ret:
  "dispatch env c p s = Ret (e, p', s') \<Longrightarrow> \<exists>hs. p' = p\<lparr>pp_handlers := hs, pp_calls := pp_calls p @ [c]\<rparr>"
  by (auto simp: dispatch_def split: go.splits)

lemma EntityError_top:
  assumes "pp_stack p \<noteq> []" and "distinct (names p)" and "ts_CheckValid (p_pb env) ts = None"
    and "pp_EntityError env ts (s_Name (last (pp_stack p))) err p s = Ret (x, p', s')"
  shows "\<exists>st. pp_stack p' = butlast (pp_stack p) @ [st] \<and> EntityInfo st = EntityInfo (last (pp_stack p)) \<and>
    s_Errors st \<noteq> [] \<and> ee_Error (last (s_Errors st)) = err \<and> set (pp_calls p) \<subseteq> set (pp_calls p')"
proof -
  have "(pp_stack p)[length (pp_stack p) - 1 := st] = butlast (pp_stack p) @ [st]" for st
    using assms(1) by (metis append_butlast_last_id length_butlast list_update_length)
  then show ?thesis using assms(4) assms(1,3) stateOf_last [OF assms(1,2)]
    by (auto simp: pp_EntityError_def Let_def last_conv_nth dest!: dispatch_Ret)
qed

lemma EntityEnd_top:
  assumes "pp_stack p \<noteq> []" and "distinct (names p)" and "ts_CheckValid (p_pb env) ts = None"
    and "pp_EntityEnd env ts (s_Name (last (pp_stack p))) skip tlog p s = Ret (x, p', s')"
  shows "\<exists>r. pp_calls p' = pp_calls p @ [HEntityEnd (EntityInfo (last (pp_stack p))) r] \<and>
    en_Errors r = s_Errors (last (pp_stack p)) \<and> pp_stack p' = butlast (pp_stack p)"
  using assms(4) assms(1,3) stateOf_last [OF assms(1,2)]
  by (auto simp: pp_EntityEnd_def Let_def dest!: dispatch_Ret)

lemma orphan_step_call:
  assumes "clock_ok env" and "pp_stack p \<noteq> []" and "distinct (names p)"
    and "orphan_step env runErr p s = Ret (x, p', s')"
  shows "(\<exists>c \<in> set (pp_calls p'). unfinished (EntityInfo (last (pp_stack p))) c) \<and>
    pp_stack p' = butlast (pp_stack p) \<and> set (pp_calls p) \<subseteq> set (pp_calls p')"
proof -
  let ?name = "s_Name (last (pp_stack p))"
  obtain ts s1 where n1: "Now_ts env s = (ts, s1)" by fastforce
  obtain x1 p1 s2 where e1: "pp_EntityError env ts ?name (reason_only did_not_finish) p s1 = Ret (x1, p1, s2)"
    using assms(4) n1 by (auto simp: orphan_step_def Let_def split: go.splits)
  obtain ts' s3 where n2: "Now_ts env s2 = (ts', s3)" by fastforce
  obtain x2 s4 where e2: "pp_EntityEnd env ts' ?name [] None p1 s3 = Ret (x2, p', s4)"
    using assms(4) n1 e1 n2 by (auto simp: orphan_step_def Let_def split: go.splits)
  obtain st where st: "pp_stack p1 = butlast (pp_stack p) @ [st]" "EntityInfo st = EntityInfo (last (pp_stack p))"
    "s_Errors st \<noteq> []" "ee_Error (last (s_Errors st)) = reason_only did_not_finish" "set (pp_calls p) \<subseteq> set (pp_calls p1)"
    using EntityError_top [OF assms(2,3) Now_ts_valid [OF assms(1) n1] e1] by blast
  have nm: "s_Name (last (pp_stack p1)) = ?name" using EntityInfo_name [OF st(2)] st(1) by simp
  have "map EntityInfo (pp_stack p1) = map EntityInfo (pp_stack p)"
    using st(1,2) assms(2) by (metis append_butlast_last_id list.simps(8,9) map_append)
  then have "distinct (names p1)" using map_EntityInfo_name [of "pp_stack p1" "pp_stack p"] assms(3) by simp
  then obtain r where "pp_calls p' = pp_calls p1 @ [HEntityEnd (EntityInfo (last (pp_stack p1))) r]"
    "en_Errors r = s_Errors (last (pp_stack p1))" "pp_stack p' = butlast (pp_stack p1)"
    using EntityEnd_top [of p1 env ts' "[]" None s3 x2 p' s4] e2 nm st(1) Now_ts_valid [OF assms(1) n2] by auto
  then show ?thesis using st by (auto simp: unfinished_def reason_only_def)
qed

lemma end_orphans_calls:
  assumes "clock_ok env" and "distinct (names p)" and "end_orphans env runErr p s = Some (Ret (x, p', s'))"
  shows "(\<forall>st \<in> set (pp_stack p). \<exists>c \<in> set (pp_calls p'). unfinished (EntityInfo st) c) \<and> set (pp_calls p) \<subseteq> set (pp_calls p')"
  using assms(2,3)
proof (induction "length (pp_stack p)" arbitrary: runErr p s)
  case 0
  then show ?case by (simp add: end_orphans.simps)
next
  case (Suc n)
  then have ne: "pp_stack p \<noteq> []" by auto
  obtain x1 p1 s1 where o: "orphan_step env runErr p s = Ret (x1, p1, s1)"
    and eo: "end_orphans env x1 p1 s1 = Some (Ret (x, p', s'))"
    using Suc.prems(2) ne by (auto simp: end_orphans.simps [of env runErr p s] split: go.splits)
  note step = orphan_step_call [OF assms(1) ne Suc.prems(1) o]
  have "n = length (pp_stack p1)" using step Suc.hyps(2) by simp
  moreover have "distinct (names p1)" using step Suc.prems(1) by (simp add: map_butlast distinct_butlast)
  ultimately have ih: "(\<forall>st \<in> set (pp_stack p1). \<exists>c \<in> set (pp_calls p'). unfinished (EntityInfo st) c) \<and>
      set (pp_calls p1) \<subseteq> set (pp_calls p')"
    using Suc.hyps(1) eo by blast
  have "set (pp_stack p) = insert (last (pp_stack p)) (set (pp_stack p1))"
    using step ne append_butlast_last_id [of "pp_stack p"] by (metis Un_insert_right list.simps(15) set_append sup_bot_right list.set(1))
  then show ?case using ih step by auto
qed

lemma unfinished_result:
  assumes "unfinished i c" and "c \<in> set cs" and "is_test P i"
  shows "\<exists>r \<in> set (results_of P cs). r_Name r = g_Name (i_Entity i) \<and> r_OutDir r = i_FinalOutDir i \<and>
    r_Errors r \<noteq> [] \<and> re_Reason (last (r_Errors r)) = did_not_finish"
proof -
  obtain r where c: "c = HEntityEnd i r" and e: "en_Errors r \<noteq> []" "x_Reason (ee_Error (last (en_Errors r))) = did_not_finish"
    using assms(1) by (auto simp: unfinished_def)
  obtain x where x: "newResult P i r = Inr x" using newResult_ok(1) [of i P r] assms(3) by (auto simp: is_test_def)
  have "x \<in> set (result_of P c)" using assms(3) x by (simp add: result_of_def c is_test_def)
  then have "x \<in> set (results_of P cs)" using assms(2) by (auto simp: results_of_def)
  moreover have "r_Name x = g_Name (i_Entity i) \<and> r_OutDir x = i_FinalOutDir i \<and> r_Errors x \<noteq> [] \<and>
      re_Reason (last (r_Errors x)) = did_not_finish"
  proof (cases "NewTest P (i_Entity i)")
    case (Inr t)
    then show ?thesis using x e assms(3) NewTest_name [OF Inr]
      by (auto simp: newResult_def is_test_def Let_def last_map)
  qed (use x assms(3) in \<open>simp add: newResult_def is_test_def\<close>)
  ultimately show ?thesis by blast
qed


text \<open>A bundle that starts a test and crashes, with no handlers but the one for results.\<close>

definition ex_crash :: conn where
  "ex_crash = Stream [Recv (R_EntityStart ex_ts ex_entity ''/out/test'')] (RecvErr ''crash'')"

lemma ex_outDir: "\<exists>d f w'. createOutDir ex_penv e p w = (Inr d, p\<lparr>pp_seenTimes := f\<rparr>, w')"
  by (auto simp: createOutDir_def Let_def ex_penv_def ex_os_def split: prod.splits)


end
