(* ===== verification/ProcLimits.thy ===== *)
theory ProcLimits
  imports ProcResults
begin

text \<open>
  What the processor does outside the hypotheses of the consistency theorem: entities of the same name
  that run at the same time, end times that are not valid, files that cannot be created, and skipped
  tests, whose loggers are never removed.
\<close>

subsection \<open>Two running entities of the same name\<close>

text \<open>\<open>stateOf\<close> finds another entity than the most recently started one.\<close>

definition stuck :: "preprocessor \<Rightarrow> bool" where
  "stuck p \<longleftrightarrow> pp_stack p \<noteq> [] \<and> (\<exists>k. stateOf (s_Name (last (pp_stack p))) (pp_stack p) = Some k \<and> Suc k \<noteq> length (pp_stack p))"

lemma stateOf_names: "map s_Name xs = map s_Name ys \<Longrightarrow> stateOf n xs = stateOf n ys"
proof (induction xs arbitrary: ys)
  case (Cons x xs)
  then obtain y ys' where "ys = y # ys'" by (cases ys) auto
  then show ?case using Cons by auto
qed simp

lemma stuck_names:
  assumes "names p' = names p" and "stuck p"
  shows "stuck p'"
proof -
  have ne: "pp_stack p' \<noteq> []" using assms by (auto simp: stuck_def)
  have l: "s_Name (last (pp_stack p')) = s_Name (last (pp_stack p))"
    using assms(1) ne assms(2) by (metis last_map stuck_def)
  have "length (pp_stack p') = length (pp_stack p)" using assms(1) by (metis length_map)
  then show ?thesis using assms(2) ne l stateOf_names [OF assms(1)] by (simp add: stuck_def)
qed

lemma error_returns: "\<exists>x h' s'. h_call env (HEntityError i e) h s = Ret (x, h', s')"
  by (cases h) (auto simp: base_def pass_EntityError_def pass_on_def split: prod.splits)

lemma every_returns:
  assumes "\<And>h s. h \<in> set hs \<Longrightarrow> \<exists>x h' s'. h_call env c h s = Ret (x, h', s')"
  shows "\<exists>x hs' s'. call_handlers env c hs s = Ret (x, hs', s')"
  using assms
proof (induction hs arbitrary: s)
  case (Cons h hs)
  obtain x h' s' where "h_call env c h s = Ret (x, h', s')" using Cons.prems [of h s] by auto
  moreover obtain y t s'' where "call_handlers env c hs s' = Ret (y, t, s'')"
    using Cons.IH [of s'] Cons.prems by auto
  ultimately show ?case by (simp add: call_handlers_def)
qed (simp add: call_handlers_def)

lemma EntityError_names:
  "\<exists>x p' s'. pp_EntityError env ts name err p s = Ret (x, p', s') \<and> names p' = names p"
proof (cases "stateOf name (pp_stack p)")
  case (Some k)
  have k: "k < length (pp_stack p)" using stateOf_Some [OF Some] by simp
  show ?thesis
  proof (cases "ts_CheckValid (p_pb env) ts")
    case None
    define e where "e = \<lparr>ee_Time = ts_AsTime (p_pb env) ts, ee_Error = err\<rparr>"
    define st where "st = (pp_stack p ! k)\<lparr>s_Errors := s_Errors (pp_stack p ! k) @ [e]\<rparr>"
    define q where "q = p\<lparr>pp_stack := (pp_stack p)[k := st]\<rparr>"
    have "names q = names p" using k by (simp add: q_def st_def map_update list_update_same_conv)
    moreover obtain x hs s' where "call_handlers env (HEntityError (EntityInfo st) e) (pp_handlers q) s = Ret (x, hs, s')"
      using every_returns error_returns by blast
    then have "\<exists>x p' s'. dispatch env (HEntityError (EntityInfo st) e) q s = Ret (x, p', s') \<and> names p' = names q"
      by (simp add: dispatch_def)
    moreover have "pp_EntityError env ts name err p s = dispatch env (HEntityError (EntityInfo st) e) q s"
      by (simp only: pp_EntityError_def Some None option.case Let_def e_def st_def q_def)
    ultimately show ?thesis by simp
  qed (simp add: pp_EntityError_def Some)
qed (simp add: pp_EntityError_def)

lemma orphan_step_stuck:
  assumes "stuck p"
  shows "\<exists>x p' s'. orphan_step env runErr p s = Ret (x, p', s') \<and> stuck p'"
proof -
  let ?name = "s_Name (last (pp_stack p))"
  obtain ts s1 where n1: "Now_ts env s = (ts, s1)" by fastforce
  obtain x1 p1 s2 where e1: "pp_EntityError env ts ?name (reason_only did_not_finish) p s1 = Ret (x1, p1, s2)"
    and nm: "names p1 = names p" using EntityError_names by blast
  obtain ts' s3 where n2: "Now_ts env s2 = (ts', s3)" by fastforce
  have st: "stuck p1" using stuck_names [OF nm assms] .
  then have "?name = s_Name (last (pp_stack p1))" using nm assms by (metis last_map stuck_def)
  then have "\<exists>e. pp_EntityEnd env ts' ?name [] None p1 s3 = Ret (Some e, p1, s3)"
    using st by (auto simp: stuck_def pp_EntityEnd_def)
  then show ?thesis using n1 e1 n2 st by (auto simp: orphan_step_def Let_def)
qed

lemma end_orphans_stuck:
  fixes env :: "'w penv"
  assumes "stuck p"
  shows "end_orphans env runErr p s = None"
proof -
  have "\<not> stuck p" if "end_orphans env runErr p s = Some y" for y
    using end_orphans_induct [OF that, where P = "\<lambda>r p s y. \<not> stuck p"] orphan_step_stuck
    by (metis Pair_inject go.distinct(1) go.inject(1) stuck_def)
  then show ?thesis using assms by (cases "end_orphans env runErr p s") auto
qed

lemma attribute_error_names:
  "\<exists>p' s'. attribute_error env err p s = Ret (p', s') \<and> names p' = names p"
proof (cases "pp_stack p = []")
  case True
  then show ?thesis by (auto simp: attribute_error_def split: prod.splits)
next
  case False
  obtain msg s1 where m: "run_error_msg env err p s = (msg, s1)" by fastforce
  obtain msg' s2 where t: "timeout_msg env (last (pp_stack p)) msg s1 = (msg', s2)" by fastforce
  obtain ts s3 where n: "Now_ts env s2 = (ts, s3)" by fastforce
  obtain x p' s4 where "pp_EntityError env ts (s_Name (last (pp_stack p))) (reason_only msg') p s3 = Ret (x, p', s4)"
    "names p' = names p"
    using EntityError_names by blast
  then show ?thesis using False by (simp add: attribute_error_def m t n)
qed

text \<open>C35: when the most recently started entity has the name of another running one, \<open>RunEnd\<close> never
  returns: the loop that ends the running entities looks the entity up by its name, finds the other
  one, and never pops the stack.\<close>

theorem same_name_never_ends:
  assumes "pp_stack p = below @ st # between @ [stateTop]" and "s_Name st = s_Name stateTop"
  shows "pp_RunEnd env runErr p s = None"
proof -
  have "\<exists>k. stateOf (s_Name stateTop) (xs @ st # ys) = Some k \<and> k \<le> length xs" for xs ys
    using assms(2) by (induction xs) auto
  then obtain k where "stateOf (s_Name stateTop) (pp_stack p) = Some k" "k \<le> length below"
    unfolding assms(1) by blast
  then have st: "stuck p" by (auto simp: stuck_def assms(1))
  have "\<exists>p1 s1. (case runErr of None \<Rightarrow> Ret (p, s) | Some err \<Rightarrow> attribute_error env err p s) = Ret (p1, s1) \<and> stuck p1"
  proof (cases runErr)
    case (Some err)
    obtain p1 s1 where "attribute_error env err p s = Ret (p1, s1)" "names p1 = names p"
      using attribute_error_names by blast
    then show ?thesis using Some stuck_names st by auto
  qed (use st in simp)
  then show ?thesis by (auto simp: pp_RunEnd_def end_orphans_stuck)
qed

definition ex_state :: "ProtoEntity \<Rightarrow> entityState" where
  "ex_state e = \<lparr>s_Entity = e, s_Start = 0, s_IntermediateOutDir = [], s_FinalOutDir = ''/res/tests/pkg.Test'', s_Errors = []\<rparr>"

definition ex_running :: "entityState list \<Rightarrow> preprocessor" where
  "ex_running sts = (processor_New ''/res'' (RootHandlers ''/res'') ''cros'')\<lparr>pp_stack := sts\<rparr>"

theorem same_name_never_ends_witness:
  "pp_RunEnd ex_penv None (ex_running [ex_state ex_entity, ex_state ex_entity]) ex_sh = None"
  by (rule same_name_never_ends [of _ "[]" "ex_state ex_entity" "[]" "ex_state ex_entity"]) (simp_all add: ex_running_def)

subsection \<open>End times that are not valid\<close>

text \<open>C36: an end event with an invalid time takes the running entity off the stack, but no handler is
  told that it ended, then or when the run ends: after the event, \<open>RunEnd\<close> makes no call for the last
  running entity, so that a test that ended this way has no result.\<close>

theorem invalid_end_is_lost:
  assumes "pp_stack p = [st]" and "ts_CheckValid (p_pb env) ts = Some m"
  shows "\<exists>e p'. pp_EntityEnd env ts (s_Name st) skip tlog p s = Ret (Some e, p', s) \<and>
    (\<forall>p'' s''. pp_RunEnd env (Some e) p' s = Some (Ret (p'', s'')) \<longrightarrow> pp_calls p'' = pp_calls p @ [HRunEnd])"
proof -
  define p' where "p' = p\<lparr>pp_stack := [], pp_copying := (pp_copying p)(s_Name st \<mapsto> st)\<rparr>"
  have e: "pp_EntityEnd env ts (s_Name st) skip tlog p s =
      Ret (Some (Plain (Wrap ''processing EntityEnd'' (Errorf m))), p', s)"
    by (simp add: pp_EntityEnd_def assms p'_def)
  have "pp_calls p'' = pp_calls p @ [HRunEnd]" if "pp_RunEnd env (Some x) p' s = Some (Ret (p'', s''))" for x p'' s''
  proof -
    obtain s1 where a: "attribute_error env x p' s = Ret (p', s1)"
      by (simp add: attribute_error_def p'_def case_prod_beta)
    have "end_orphans env (Some x) p' s1 = Some (Ret (Some x, p', s1))"
      by (simp add: end_orphans.simps p'_def)
    then have "finish_run env (Some x) p' s1 = Ret (p'', s'')" using that by (simp add: pp_RunEnd_def a)
    then show ?thesis by (auto simp: finish_run_def p'_def Let_def split: go.splits option.splits)
  qed
  with e show ?thesis by blast
qed

theorem invalid_end_is_lost_witness:
  "pp_stack (ex_running [ex_state ex_entity]) = [ex_state ex_entity] \<and>
   ts_CheckValid (p_pb ex_penv) None = Some ''invalid nil Timestamp'' \<and>
   (\<exists>e p'. pp_EntityEnd ex_penv None (s_Name (ex_state ex_entity)) [] None (ex_running [ex_state ex_entity]) ex_sh = Ret (Some e, p', ex_sh))"
proof -
  have a: "pp_stack (ex_running [ex_state ex_entity]) = [ex_state ex_entity]" by (simp add: ex_running_def)
  have b: "ts_CheckValid (p_pb ex_penv) None = Some ''invalid nil Timestamp''" by (simp add: ex_penv_ok(3) ex_pb_def)
  from invalid_end_is_lost [OF a b, of "[]" None ex_sh] a b show ?thesis by blast
qed

subsection \<open>Files that cannot be created\<close>

definition log_less :: "preprocessor \<Rightarrow> bool" where
  "log_less p \<longleftrightarrow> (\<exists>rs d hs. pp_handlers p = ResultsH rs # LoggingH d [] # hs)"

lemma log_less_error: "dispatch env (HEntityError i e) p s = Ret (x, p', s') \<Longrightarrow> log_less p \<Longrightarrow> log_less p'"
  by (auto simp: dispatch_def call_handlers_def log_less_def base_def split: go.splits)

lemma log_less_end:
  assumes "log_less p" and "en_Skip r = []"
  shows "dispatch env (HEntityEnd i r) p s = Panic ''index out of range [-1]''"
proof -
  obtain rs d hs where h: "pp_handlers p = ResultsH rs # LoggingH d [] # hs" using assms(1) by (auto simp: log_less_def)
  obtain x h' s' where "results_EntityEnd env i r rs s = Ret (x, h', s')"
    using plain_returns [of "ResultsH rs" env "HEntityEnd i r" s] by auto
  then show ?thesis using assms(2) by (simp add: dispatch_def call_handlers_def h logging_EntityEnd_def Let_def)
qed

lemma log_less_EntityError:
  "pp_EntityError env ts name err p s = Ret (x, p', s') \<Longrightarrow> log_less p \<Longrightarrow> log_less p'"
  by (auto simp: pp_EntityError_def Let_def log_less_def [of "pp_stack_update f p" for f]
      dest!: log_less_error split: option.splits) (auto simp: log_less_def)

lemma orphan_step_panics:
  assumes "clock_ok env" and "log_less p" and "pp_stack p \<noteq> []" and "distinct (names p)"
  shows "orphan_step env runErr p s = Panic ''index out of range [-1]''"
proof -
  let ?name = "s_Name (last (pp_stack p))"
  obtain ts s1 where n1: "Now_ts env s = (ts, s1)" by fastforce
  obtain x1 p1 s2 where e1: "pp_EntityError env ts ?name (reason_only did_not_finish) p s1 = Ret (x1, p1, s2)"
    and nm: "names p1 = names p" using EntityError_names by blast
  obtain ts' s3 where n2: "Now_ts env s2 = (ts', s3)" by fastforce
  have ll: "log_less p1" by (rule log_less_EntityError [OF e1 assms(2)])
  have ne: "pp_stack p1 \<noteq> []" using nm assms(3) by auto
  have l: "?name = s_Name (last (pp_stack p1))" using nm ne assms(3) by (metis last_map)
  have "pp_EntityEnd env ts' ?name [] None p1 s3 = Panic ''index out of range [-1]''"
    using stateOf_last [OF ne] nm assms(4) ne Now_ts_valid [OF assms(1) n2] ll
    by (simp add: l pp_EntityEnd_def Let_def log_less_end log_less_def)
  then show ?thesis by (simp add: orphan_step_def n1 n2 e1)
qed


definition ex_no_log :: "nat penv" where
  "ex_no_log = ex_penv\<lparr>p_Create := (\<lambda>f w. (Some ''no space left on device'', w))\<rparr>"

lemma ex_createOutDir: "\<exists>d f w'. createOutDir ex_no_log e p w = (Inr d, p\<lparr>pp_seenTimes := f\<rparr>, w')"
  by (auto simp: createOutDir_def Let_def ex_no_log_def ex_penv_def ex_os_def split: prod.splits)


text \<open>A handler whose results file could not be opened stays without a writer, and closing it panics.\<close>

definition no_writer :: "'w penv \<Rightarrow> bool" where
  "no_writer env \<longleftrightarrow> (\<forall>path w. \<not> is_ok (fst (NewStreamedWriter (p_io env) path w)))"

lemma start_without_writer:
  assumes "no_writer env"
  shows "\<exists>x h' s'. h_call env HRunStart h v = Ret (x, h', s') \<and> (h = StreamedH d None \<longrightarrow> h' = h \<and> x \<noteq> None)"
proof (cases h)
  case (StreamedH d' wr)
  let ?n = "NewStreamedWriter (p_io env) (path_Join [d', StreamedResultsFilename]) (sh_w v)"
  have "\<not> is_ok (fst ?n)" using assms by (simp add: no_writer_def)
  then obtain e w' where "?n = (Inl e, w')" by (cases ?n; cases "fst ?n") auto
  then show ?thesis by (simp add: StreamedH streamed_RunStart_def)
qed (simp_all add: base_def failfast_RunStart_def)

lemma each_start_without_writer:
  assumes "no_writer env"
  shows "\<exists>x hs' s'. call_handlers env HRunStart hs v = Ret (x, hs', s') \<and>
    (StreamedH d None \<in> set hs \<longrightarrow> StreamedH d None \<in> set hs' \<and> x \<noteq> None)"
proof (induction hs arbitrary: v)
  case (Cons h hs)
  obtain x h' s' where "h_call env HRunStart h v = Ret (x, h', s')" "h = StreamedH d None \<longrightarrow> h' = h \<and> x \<noteq> None"
    using start_without_writer [OF assms, of h v d] by blast
  moreover obtain y t s'' where "call_handlers env HRunStart hs s' = Ret (y, t, s'')"
    "StreamedH d None \<in> set hs \<longrightarrow> StreamedH d None \<in> set t \<and> y \<noteq> None"
    using Cons.IH [of s'] by blast
  ultimately show ?case by (auto simp: call_handlers_def)
qed (simp add: call_handlers_def)

lemma end_without_writer:
  "StreamedH d None \<in> set hs \<Longrightarrow> call_handlers env HRunEnd hs v = Panic nil_deref"
proof (induction hs arbitrary: v)
  case (Cons h hs)
  show ?case
  proof (cases "h_call env HRunEnd h v")
    case (Ret r)
    then have "h \<noteq> StreamedH d None" by (auto simp: streamed_RunEnd_def)
    then show ?thesis using Cons Ret by (cases r) (auto simp: call_handlers_def)
  next
    case (Panic m)
    then have "m = nil_deref" by (cases h) (auto simp: base_def streamed_RunEnd_def split: option.splits)
    then show ?thesis using Panic by (simp add: call_handlers_def)
  qed
qed simp

text \<open>C38: if the file of streamed results cannot be opened, \<open>RunStart\<close> fails, and closing the missing
  writer at the end of the run dereferences a nil pointer: the process panics, before any test
  starts.\<close>

theorem results_file_failure_panics:
  assumes "\<And>path w. \<not> is_ok (fst (NewStreamedWriter (p_io env) path w))" and "StreamedH d None \<in> set hs"
  shows "client_RunTests env path conn (processor_New resDir hs bundle) s = Some (Panic nil_deref)"
proof -
  have nw: "no_writer env" using assms(1) by (simp add: no_writer_def)
  obtain x hs' s' where rs: "call_handlers env HRunStart (ResultsH [] # hs) s = Ret (x, hs', s')"
    and m: "StreamedH d None \<in> set hs'" and x: "x \<noteq> None"
    using each_start_without_writer [OF nw, of "ResultsH [] # hs" s d] assms(2) by auto
  define p where "p = (processor_New resDir hs bundle)\<lparr>pp_handlers := hs', pp_calls := [HRunStart]\<rparr>"
  have r: "pp_RunStart env (processor_New resDir hs bundle) s = Ret (map_option (PWrap (''processing '' @ call_name HRunStart)) x, p, s')"
    using rs by (simp add: pp_RunStart_def dispatch_def p_def processor_New_def newPreprocessor_def)
  have st: "pp_stack p = []" "pp_handlers p = hs'" by (simp_all add: p_def processor_New_def newPreprocessor_def)
  have "pp_RunEnd env (Some err) p v = Some (Panic nil_deref)" for err v
    by (simp add: end_without_writer [OF m] pp_RunEnd_def attribute_error_def st case_prod_beta end_orphans.simps finish_run_def)
  then show ?thesis using x r by (auto simp: client_RunTests_def)
qed

definition ex_no_results :: "nat penv" where
  "ex_no_results = ex_penv\<lparr>p_io := ex_io\<lparr>io_OpenFile := (\<lambda>p w. (Inl ''permission denied'', w))\<rparr>\<rparr>"

theorem results_file_failure_panics_witness:
  "StreamedH ''/res'' None \<in> set (RootHandlers ''/res'') \<and>
   client_RunTests ex_no_results ''/bundle'' ex_conn (processor_New ''/res'' (RootHandlers ''/res'') ''cros'') ex_sh =
     Some (Panic nil_deref)"
proof -
  have n: "\<not> is_ok (fst (NewStreamedWriter (p_io ex_no_results) path w))" for path w
    by (simp add: ex_no_results_def NewStreamedWriter_def)
  have m: "StreamedH ''/res'' None \<in> set (RootHandlers ''/res'')" by (simp add: RootHandlers_def)
  show ?thesis using m results_file_failure_panics [OF n m] by blast
qed

subsection \<open>Skipped tests\<close>

text \<open>C39: after an entity that ran, the set of loggers is the one before it started.  After a skipped
  test it is not: \<open>EntityEnd\<close> returns early, so that the logger of the test stays attached (and its file
  open), later logs are also written to the log of the skipped test, and the end of the enclosing
  fixture removes this logger instead of the fixture's own.\<close>

theorem skipped_test_keeps_logger:
  assumes "h_call env (HEntityStart i) (LoggingH d ls) s = Ret (None, h1, s1)"
    and "h_call env (HEntityEnd i r) h1 (s1\<lparr>sh_w := w\<rparr>) = Ret (e, h2, s2)"
    and "\<forall>l \<in> set (sh_mux s). sl_id l < sh_next s"
  shows "if en_Skip r = [] then h2 = LoggingH d ls \<and> sh_mux s2 = sh_mux s
    else \<exists>l. h2 = LoggingH d (ls @ [l]) \<and> sh_mux s2 = sh_mux s @ [el_Logger l]"
proof -
  let ?sink = "\<lambda>ws. \<lparr>sl_id = sh_next s, sl_level = LevelDebug, sl_timestamp = True, sl_writers = ws\<rparr>"
  have "\<exists>ws. h1 = LoggingH d (ls @ [\<lparr>el_Logger = ?sink ws, el_File = path_Join [i_FinalOutDir i, ''log.txt'']\<rparr>]) \<and>
      sh_mux s1 = sh_mux s @ [?sink ws]"
    using assms(1)
    by (auto simp: logging_EntityStart_def open_logger_def AddLogger_def emit_def Let_def
        split: prod.splits option.splits sum.splits if_splits)
  then obtain l where h1: "h1 = LoggingH d (ls @ [l])" and m1: "sh_mux s1 = sh_mux s @ [el_Logger l]"
    and i: "sl_id (el_Logger l) = sh_next s" by (metis SinkLogger.select_convs(1) entityLogger.select_convs(1))
  have "filter (\<lambda>x. sl_id x \<noteq> sh_next s) (sh_mux s) = sh_mux s"
    using assms(3) by (auto simp: filter_id_conv)
  then show ?thesis using assms(2)
    by (auto simp: h1 m1 i logging_EntityEnd_def emit_def Let_def remove_logger_filter split: if_splits)
qed

definition ex_skip :: entityResult where
  "ex_skip = \<lparr>en_Start = 0, en_End = 0, en_Skip = [''missing SoftwareDeps: chrome''], en_Errors = [], en_TimingLog = None\<rparr>"

theorem skipped_test_keeps_logger_witness:
  "\<exists>h1 s1 h2 s2 l.
     h_call ex_penv (HEntityStart (EntityInfo (ex_state ex_entity))) (LoggingH ''/res'' []) ex_sh = Ret (None, h1, s1) \<and>
     h_call ex_penv (HEntityEnd (EntityInfo (ex_state ex_entity)) ex_skip) h1 s1 = Ret (None, h2, s2) \<and>
     en_Skip ex_skip \<noteq> [] \<and> h2 = LoggingH ''/res'' [l] \<and> sh_mux s2 = [el_Logger l]"
proof -
  let ?i = "EntityInfo (ex_state ex_entity)"
  have "rooted ?i" "HasPrefix ''/res'' ''/''"
    by (simp_all add: rooted_def EntityInfo_def ex_state_def HasPrefix_def)
  then obtain l s1 where a: "h_call ex_penv (HEntityStart ?i) (LoggingH ''/res'' []) ex_sh = Ret (None, LoggingH ''/res'' [l], s1)"
    using logging_start_ready [OF ex_penv_ok(1), of ?i "''/res''" "[]" ex_sh] by auto
  obtain h2 s2 where b: "h_call ex_penv (HEntityEnd ?i ex_skip) (LoggingH ''/res'' [l]) (s1\<lparr>sh_w := sh_w s1\<rparr>) = Ret (None, h2, s2)"
    by (simp add: logging_EntityEnd_def ex_skip_def)
  have c: "\<forall>l \<in> set (sh_mux ex_sh). sl_id l < sh_next ex_sh" by (simp add: ex_sh_def)
  have k: "en_Skip ex_skip \<noteq> []" by (simp add: ex_skip_def)
  from skipped_test_keeps_logger [OF a b c] obtain l' where "h2 = LoggingH ''/res'' [l']" "sh_mux s2 = [el_Logger l']"
    using k by (auto simp: ex_sh_def)
  then show ?thesis using a b k by auto
qed

end
