(* ===== verification/Retry.thy ===== *)
theory Retry
  imports ProcResults "HOL-Library.Sublist"
begin

text \<open>
  Running the tests of a local bundle with retries, \<open>internal/minidriver/run_tests.go\<close>.  One attempt
  connects to the bundle, runs the client with a new event processor and new handlers, and returns the
  results and the fatal error of the processor.  Attempts go on until every test has a result; a test
  that fails is run again while retries are left.  Nothing bounds the loop if attempts keep returning
  results of other tests, so it is a partial function: \<open>None\<close> is a run that never returns.

  The locale \<open>attempts\<close> is what the loop needs of one attempt, and the driver's own attempt is shown
  to have it.
\<close>

subsection \<open>The loop of attempts\<close>

type_synonym 's once = "string list \<Rightarrow> 's \<Rightarrow> (Result list \<times> goerr option \<times> 's) go option"

record retry =
  rt_all :: "Result list"
  rt_unstarted :: "string set"
  rt_retries :: "string \<Rightarrow> int"

definition retry0 :: "string list \<Rightarrow> int \<Rightarrow> retry" where
  "retry0 allTests retryn =
     \<lparr>rt_all = [], rt_unstarted = set allTests, rt_retries = (\<lambda>t. if t \<in> set allTests then retryn else 0)\<rparr>"

fun update_retry :: "Result list \<Rightarrow> retry \<Rightarrow> retry" where
  "update_retry [] x = x"
| "update_retry (r # rs) x =
     (if r_Errors r \<noteq> [] \<and> rt_retries x (r_Name r) > 0
      then update_retry rs (x\<lparr>rt_retries := (rt_retries x)(r_Name r := rt_retries x (r_Name r) - 1)\<rparr>)
      else update_retry rs (x\<lparr>rt_all := rt_all x @ [r], rt_unstarted := rt_unstarted x - {r_Name r}\<rparr>))"

definition ErrNoTestRanInLastAttempt :: goerr where
  "ErrNoTestRanInLastAttempt = Errorf ''no test ran in the last attempt''"

definition tests_to_run :: "string list \<Rightarrow> retry \<Rightarrow> string list" where
  "tests_to_run allTests x = filter (\<lambda>t. t \<in> rt_unstarted x) allTests"

partial_function (option) retry_loop ::
  "'s once \<Rightarrow> string list \<Rightarrow> retry \<Rightarrow> 's \<Rightarrow> (Result list \<times> goerr option \<times> 's) go option" where
  "retry_loop once allTests x s =
     (case once (tests_to_run allTests x) s of
        None \<Rightarrow> None
      | Some (Panic m) \<Rightarrow> Some (Panic m)
      | Some (Ret (rs, Some e, s')) \<Rightarrow> Some (Ret (rt_all x @ rs, Some e, s'))
      | Some (Ret (rs, None, s')) \<Rightarrow>
          if rs = [] then Some (Ret (rt_all x, Some ErrNoTestRanInLastAttempt, s'))
          else if rt_unstarted (update_retry rs x) = {} then Some (Ret (rt_all (update_retry rs x), None, s'))
          else retry_loop once allTests (update_retry rs x) s')"

declare retry_loop.simps [code]

definition RunTestsWithRetry ::
  "string list \<Rightarrow> 's once \<Rightarrow> int \<Rightarrow> 's \<Rightarrow> (Result list \<times> goerr option \<times> 's) go option" where
  "RunTestsWithRetry allTests once retryn s = retry_loop once allTests (retry0 allTests retryn) s"

subsection \<open>Attempts of the driver\<close>

text \<open>\<open>d_connect\<close> is what the bundle does when it is asked to run the tests; \<open>d_Factory\<close> the handlers
  that the configured factory creates, around a new multiplexer of loggers.\<close>

record 'w driver =
  d_env :: "'w penv"
  d_cc :: bool
  d_EnsureConn :: "'w \<Rightarrow> string option \<times> 'w"
  d_ResDir :: string
  d_LocalBundleDir :: string
  d_Retries :: int
  d_Factory :: "handler list"
  d_connect :: "string \<Rightarrow> string list \<Rightarrow> 'w sh \<Rightarrow> conn"

definition runLocalTestsOnce :: "'w driver \<Rightarrow> string \<Rightarrow> 'w sh once" where
  "runLocalTestsOnce d bundle' tests s =
     (if \<not> d_cc d then Some (Ret ([], None, s))
      else case d_EnsureConn d (sh_w s) of
        (Some e, w) \<Rightarrow> Some (Ret ([], Some (Errorf e), s\<lparr>sh_w := w\<rparr>))
      | (None, w) \<Rightarrow>
          let s1 = s\<lparr>sh_w := w, sh_mux := []\<rparr>;
              proc = processor_New (d_ResDir d) (d_Factory d) bundle'
          in case client_RunTests (d_env d) (path_Join [d_LocalBundleDir d, bundle']) (d_connect d bundle' tests s1) proc s1 of
               None \<Rightarrow> None
             | Some (Panic m) \<Rightarrow> Some (Panic m)
             | Some (Ret (p, s2)) \<Rightarrow> Some (Ret (Results (pp_handlers p), pp_FatalError p, s2)))"

definition RunLocalTests :: "'w driver \<Rightarrow> string \<Rightarrow> string list \<Rightarrow> 'w sh \<Rightarrow> (Result list \<times> goerr option \<times> 'w sh) go option" where
  "RunLocalTests d bundle' tests s = RunTestsWithRetry tests (runLocalTestsOnce d bundle') (d_Retries d) s"

subsection \<open>What the loop keeps\<close>

text \<open>The attempts so far, in a state that remembers all their results.\<close>

definition recorded :: "'s once \<Rightarrow> ('s \<times> Result list) once" where
  "recorded once tests sh =
     (case once tests (fst sh) of
        None \<Rightarrow> None
      | Some (Panic m) \<Rightarrow> Some (Panic m)
      | Some (Ret (rs, e, s')) \<Rightarrow> Some (Ret (rs, e, (s', snd sh @ rs))))"

definition of_test :: "string \<Rightarrow> Result list \<Rightarrow> Result list" where
  "of_test t rs = filter (\<lambda>r. r_Name r = t) rs"

text \<open>The results \<open>done\<close> of a test that was run as \<open>tried\<close>: the last one only, after failures only, and a
  failure only once \<open>n\<close> retries are used up.\<close>

definition settled :: "nat \<Rightarrow> Result list \<Rightarrow> Result list \<Rightarrow> bool" where
  "settled n tried finals \<longleftrightarrow>
     (\<exists>r fs. finals = [r] \<and> tried = fs @ [r] \<and> (\<forall>f\<in>set fs. r_Errors f \<noteq> []) \<and> length fs \<le> n \<and>
        (r_Errors r \<noteq> [] \<longrightarrow> length fs = n))"

definition pending_ok :: "int \<Rightarrow> Result list \<Rightarrow> Result list \<Rightarrow> int \<Rightarrow> bool" where
  "pending_ok retryn tried finals left \<longleftrightarrow>
     finals = [] \<and> (\<forall>f\<in>set tried. r_Errors f \<noteq> []) \<and> length tried \<le> nat retryn \<and> left = retryn - int (length tried)"

definition retry_inv :: "string list \<Rightarrow> int \<Rightarrow> Result list \<Rightarrow> retry \<Rightarrow> bool" where
  "retry_inv allTests retryn H x \<longleftrightarrow> rt_unstarted x \<subseteq> set allTests \<and>
     (\<forall>t\<in>set allTests.
        if t \<in> rt_unstarted x then pending_ok retryn (of_test t H) (of_test t (rt_all x)) (rt_retries x t)
        else settled (nat retryn) (of_test t H) (of_test t (rt_all x)))"

lemma of_test_append [simp]: "of_test t (xs @ ys) = of_test t xs @ of_test t ys"
  by (simp add: of_test_def)

lemma of_test_single [simp]: "of_test t [r] = (if r_Name r = t then [r] else [])"
  by (simp add: of_test_def)

lemma retry_inv_0: "retry_inv allTests retryn [] (retry0 allTests retryn)"
  by (simp add: retry_inv_def retry0_def pending_ok_def of_test_def)

lemma pending_retry:
  assumes "pending_ok n tried finals left" and "r_Errors r \<noteq> []" and "left > 0"
  shows "pending_ok n (tried @ [r]) finals (left - 1)"
  using assms by (auto simp: pending_ok_def)

lemma pending_settles:
  assumes "pending_ok n tried finals left" and "\<not> (r_Errors r \<noteq> [] \<and> left > 0)"
  shows "settled (nat n) (tried @ [r]) (finals @ [r])"
  using assms by (auto simp: pending_ok_def settled_def)

lemma update_retry_inv:
  assumes "retry_inv allTests retryn H x" and "distinct (map r_Name rs)" and "r_Name ` set rs \<subseteq> rt_unstarted x"
  shows "retry_inv allTests retryn (H @ rs) (update_retry rs x)"
  using assms
proof (induction rs arbitrary: H x)
  case (Cons r rs)
  let ?t = "r_Name r"
  have t: "?t \<in> rt_unstarted x" "?t \<in> set allTests"
    using Cons.prems(1,3) by (auto simp: retry_inv_def)
  then have p: "pending_ok retryn (of_test ?t H) (of_test ?t (rt_all x)) (rt_retries x ?t)"
    using Cons.prems(1) by (simp add: retry_inv_def)
  show ?case
  proof (cases "r_Errors r \<noteq> [] \<and> rt_retries x ?t > 0")
    case True
    let ?x = "x\<lparr>rt_retries := (rt_retries x)(?t := rt_retries x ?t - 1)\<rparr>"
    have "retry_inv allTests retryn (H @ [r]) ?x"
      using Cons.prems(1) pending_retry [OF p] True t by (auto simp: retry_inv_def)
    from Cons.IH [OF this] show ?thesis using Cons.prems(2,3) True by simp
  next
    case False
    let ?x = "x\<lparr>rt_all := rt_all x @ [r], rt_unstarted := rt_unstarted x - {?t}\<rparr>"
    have "retry_inv allTests retryn (H @ [r]) ?x"
      using Cons.prems(1) pending_settles [OF p False] t by (auto simp: retry_inv_def)
    moreover have "r_Name ` set rs \<subseteq> rt_unstarted ?x" using Cons.prems(2,3) by (force simp: image_iff)
    ultimately show ?thesis using Cons.IH [of "H @ [r]" ?x] Cons.prems(2) False by auto
  qed
qed simp

text \<open>Every attempt with a result uses up a retry or settles a test.\<close>

definition to_do :: "retry \<Rightarrow> nat" where
  "to_do x = (\<Sum>t\<in>rt_unstarted x. Suc (nat (rt_retries x t)))"

lemma update_retry_finite: "finite (rt_unstarted x) \<Longrightarrow> finite (rt_unstarted (update_retry rs x))"
  by (induction rs x rule: update_retry.induct) simp_all

lemma to_do_retry:
  assumes "finite (rt_unstarted x)" and "rt_retries x t > 0"
  shows "to_do (x\<lparr>rt_retries := (rt_retries x)(t := rt_retries x t - 1)\<rparr>) \<le> to_do x"
    and "t \<in> rt_unstarted x \<Longrightarrow> to_do (x\<lparr>rt_retries := (rt_retries x)(t := rt_retries x t - 1)\<rparr>) < to_do x"
  using assms by (auto simp: to_do_def intro!: sum_mono sum_strict_mono_ex1)

lemma to_do_settle:
  assumes "finite (rt_unstarted x)"
  shows "to_do (x\<lparr>rt_all := a, rt_unstarted := rt_unstarted x - {t}\<rparr>) \<le> to_do x"
    and "t \<in> rt_unstarted x \<Longrightarrow> to_do (x\<lparr>rt_all := a, rt_unstarted := rt_unstarted x - {t}\<rparr>) < to_do x"
  using assms by (auto simp: to_do_def sum.remove intro!: sum_mono2)

lemma to_do_update_le: "finite (rt_unstarted x) \<Longrightarrow> to_do (update_retry rs x) \<le> to_do x"
proof (induction rs x rule: update_retry.induct)
  case (2 r rs x)
  show ?case
  proof (cases "r_Errors r \<noteq> [] \<and> rt_retries x (r_Name r) > 0")
    case True
    then show ?thesis using 2 to_do_retry(1) [of x "r_Name r"] by auto
  next
    case False
    then show ?thesis using 2 to_do_settle(1) [where x = x and a = "rt_all x @ [r]" and t = "r_Name r"] by auto
  qed
qed simp

lemma to_do_update:
  assumes "finite (rt_unstarted x)" and "rs \<noteq> []" and "r_Name ` set rs \<subseteq> rt_unstarted x"
  shows "to_do (update_retry rs x) < to_do x"
proof (cases rs)
  case (Cons r rs')
  then have t: "r_Name r \<in> rt_unstarted x" using assms(3) by simp
  show ?thesis
  proof (cases "r_Errors r \<noteq> [] \<and> rt_retries x (r_Name r) > 0")
    case True
    let ?x = "x\<lparr>rt_retries := (rt_retries x)(r_Name r := rt_retries x (r_Name r) - 1)\<rparr>"
    have "to_do (update_retry rs' ?x) \<le> to_do ?x" using assms(1) by (simp add: to_do_update_le)
    also have "\<dots> < to_do x" using to_do_retry(2) [of x "r_Name r"] assms(1) True t by simp
    finally show ?thesis using Cons True by simp
  next
    case False
    let ?x = "x\<lparr>rt_all := rt_all x @ [r], rt_unstarted := rt_unstarted x - {r_Name r}\<rparr>"
    have "to_do (update_retry rs' ?x) \<le> to_do ?x" using assms(1) by (simp add: to_do_update_le)
    also have "\<dots> < to_do x" using to_do_settle(2) [of x "r_Name r"] assms(1) t by simp
    finally show ?thesis using Cons False by auto
  qed
qed (use assms(2) in simp)

text \<open>The contract of an attempt: it returns, and it has at most one result for each test it was asked to
  run and none for others.\<close>

locale attempts =
  fixes once :: "'d \<Rightarrow> 's once"
    and ok :: "'d \<Rightarrow> bool"
  assumes once_returns: "ok d \<Longrightarrow> \<exists>rs e s'. once d tests s = Some (Ret (rs, e, s'))"
    and once_requested: "ok d \<Longrightarrow> once d tests s = Some (Ret (rs, e, s')) \<Longrightarrow> r_Name ` set rs \<subseteq> set tests"
    and once_distinct: "ok d \<Longrightarrow> once d tests s = Some (Ret (rs, e, s')) \<Longrightarrow> distinct (map r_Name rs)"
begin

definition loop_post :: "'d \<Rightarrow> string list \<Rightarrow> int \<Rightarrow> Result list \<Rightarrow> retry \<Rightarrow> 's \<Rightarrow> bool" where
  "loop_post d allTests retryn H x s \<longleftrightarrow>
     (\<exists>rs e s' H'. retry_loop (once d) allTests x s = Some (Ret (rs, e, s')) \<and>
        retry_loop (recorded (once d)) allTests x (s, H) = Some (Ret (rs, e, (s', H'))) \<and>
        (e = None \<longrightarrow> (\<forall>t\<in>set allTests. settled (nat retryn) (of_test t H') (of_test t rs))))"

lemma loop_step:
  assumes "ok d" and "retry_inv allTests retryn H x"
    and ih: "\<And>H' x' s'. to_do x' < to_do x \<Longrightarrow> retry_inv allTests retryn H' x' \<Longrightarrow> loop_post d allTests retryn H' x' s'"
  shows "loop_post d allTests retryn H x s"
proof -
  let ?ts = "tests_to_run allTests x"
  have ts: "set ?ts \<subseteq> rt_unstarted x" by (auto simp: tests_to_run_def)
  have fin: "finite (rt_unstarted x)" using assms(2) finite_subset by (auto simp: retry_inv_def)
  obtain rs e s1 where o: "once d ?ts s = Some (Ret (rs, e, s1))" using once_returns [OF assms(1)] by blast
  have ro: "recorded (once d) ?ts (s, H) = Some (Ret (rs, e, (s1, H @ rs)))" by (simp add: recorded_def o)
  have n: "r_Name ` set rs \<subseteq> rt_unstarted x" "distinct (map r_Name rs)"
    using once_requested [OF assms(1) o] once_distinct [OF assms(1) o] ts by auto
  have inv: "retry_inv allTests retryn (H @ rs) (update_retry rs x)"
    by (rule update_retry_inv [OF assms(2) n(2,1)])
  show ?thesis
  proof (cases "e = None \<and> rs \<noteq> [] \<and> rt_unstarted (update_retry rs x) \<noteq> {}")
    case True
    have "loop_post d allTests retryn (H @ rs) (update_retry rs x) s1"
      using ih [OF to_do_update [OF fin _ n(1)] inv] True by blast
    then show ?thesis using True by (simp add: loop_post_def retry_loop.simps [of _ _ x] o ro)
  next
    case False
    then show ?thesis using inv
      by (cases e) (auto simp: loop_post_def retry_loop.simps [of _ _ x] o ro retry_inv_def)
  qed
qed

lemma loop_returns:
  assumes "ok d" and "retry_inv allTests retryn H x"
  shows "loop_post d allTests retryn H x s"
  using assms(2)
proof (induction "to_do x" arbitrary: H x s rule: less_induct)
  case less
  show ?case by (rule loop_step [OF assms(1) less.prems]) (rule less.hyps)
qed

lemma retry_completes:
  assumes "ok d"
  shows "\<exists>rs e s' H. RunTestsWithRetry allTests (once d) retryn s = Some (Ret (rs, e, s')) \<and>
    RunTestsWithRetry allTests (recorded (once d)) retryn (s, []) = Some (Ret (rs, e, (s', H))) \<and>
    (e = None \<longrightarrow> (\<forall>t\<in>set allTests. settled (nat retryn) (of_test t H) (of_test t rs)))"
  using loop_returns [OF assms retry_inv_0] by (simp add: loop_post_def RunTestsWithRetry_def)

end

subsection \<open>The tests of an attempt\<close>

text \<open>What a bundle is asked: each requested test starts at most once, and no other test starts.\<close>

fun starts_of :: "input \<Rightarrow> ProtoEntity list" where
  "starts_of (Recv (R_EntityStart ts e dir)) = [e]"
| "starts_of i = []"

definition test_names :: "ProtoEntity list \<Rightarrow> string list" where
  "test_names es = map g_Name (filter (\<lambda>e. g_Type e = EntityType_TEST) es)"

fun conn_starts :: "conn \<Rightarrow> ProtoEntity list" where
  "conn_starts (Stream ins stop) = concat (map starts_of ins)"
| "conn_starts c = []"

definition bundle_ok :: "pb \<Rightarrow> string list \<Rightarrow> conn \<Rightarrow> bool" where
  "bundle_ok P tests conn \<longleftrightarrow> conn_ok P conn \<and> distinct (test_names (conn_starts conn)) \<and>
     set (test_names (conn_starts conn)) \<subseteq> set tests"

abbreviation starts_seen :: "preprocessor \<Rightarrow> ProtoEntity list" where
  "starts_seen p \<equiv> map i_Entity (started_infos (pp_calls p))"

lemma started_append [simp]: "started_infos (xs @ ys) = started_infos xs @ started_infos ys"
  by (simp add: started_infos_def)

lemma dispatch_starts:
  "dispatch env c p s = Ret (x, p', s') \<Longrightarrow> starts_seen p' = starts_seen p @ map i_Entity (start_info c)"
  by (auto simp: dispatch_def started_infos_def split: go.splits)

lemma EntityError_starts: "pp_EntityError env ts name err p s = Ret (x, p', s') \<Longrightarrow> starts_seen p' = starts_seen p"
  by (auto simp: pp_EntityError_def Let_def dest!: dispatch_starts split: option.splits)

lemma EntityEnd_starts: "pp_EntityEnd env ts name skip tlog p s = Ret (x, p', s') \<Longrightarrow> starts_seen p' = starts_seen p"
  by (auto simp: pp_EntityEnd_def Let_def dest!: dispatch_starts split: option.splits if_splits)

lemma createOutDir_calls: "createOutDir env e p w = (r, p', w') \<Longrightarrow> pp_calls p' = pp_calls p"
  by (auto simp: createOutDir_def Let_def split: prod.splits option.splits)

lemma EntityStart_starts:
  "pp_EntityStart env ts e dir p s = Ret (x, p', s') \<Longrightarrow> starts_seen p' = starts_seen p \<or> starts_seen p' = starts_seen p @ [e]"
  by (auto simp: pp_EntityStart_def Let_def EntityInfo_def dest!: createOutDir_calls dispatch_starts
      split: prod.splits sum.splits option.splits)

lemma handleEvent_starts:
  "handleEvent env ev p s = Ret (x, p', s') \<Longrightarrow>
     starts_seen p' = starts_seen p \<or> starts_seen p' = starts_seen p @ starts_of (Recv ev)"
  by (cases ev)
     (auto simp: pp_RunLog_def pp_EntityLog_def pp_EntityCopyEnd_def dest: EntityStart_starts EntityError_starts
        EntityEnd_starts dispatch_starts split: option.splits prod.splits)

lemma recv_loop_starts:
  assumes "recv_loop env stop ins p s = Ret (x, p', s')"
  shows "\<exists>zs. starts_seen p' = starts_seen p @ zs \<and> subseq zs (concat (map starts_of ins))"
  using assms
proof (induction ins arbitrary: p s)
  case (Cons i ins)
  show ?case
  proof (cases i)
    case (Pull n k)
    obtain p1 s1 where r: "run_puller env n k p s = (p1, s1)" by fastforce
    then have "starts_seen p1 = starts_seen p" by (auto simp: run_puller_def case_prod_beta split: if_splits)
    then show ?thesis using Cons.IH [of p1 s1] Cons.prems Pull r by simp
  next
    case (Recv ev)
    obtain y p1 s1 where h: "handleEvent env ev p s = Ret (y, p1, s1)"
      using Cons.prems Recv by (auto split: go.splits)
    from handleEvent_starts [OF h] obtain ys where ys: "starts_seen p1 = starts_seen p @ ys" "subseq ys (starts_of i)"
      using Recv by auto
    have "\<exists>zs. starts_seen p' = starts_seen p1 @ zs \<and> subseq zs (concat (map starts_of ins))"
      using Cons.IH [of p1 s1] Cons.prems Recv h by (cases y) auto
    then show ?thesis using ys by (auto intro: list_emb_append_mono)
  qed
qed simp

lemma attribute_error_starts: "attribute_error env err p s = Ret (p', s') \<Longrightarrow> starts_seen p' = starts_seen p"
  by (auto simp: attribute_error_def Let_def dest: EntityError_starts split: prod.splits go.splits if_splits)

lemma orphan_step_starts: "orphan_step env runErr p s = Ret (x, p', s') \<Longrightarrow> starts_seen p' = starts_seen p"
  by (auto simp: orphan_step_def Let_def dest!: EntityError_starts EntityEnd_starts split: prod.splits go.splits)

lemma end_orphans_starts:
  assumes "end_orphans env runErr p s = Some (Ret (x, p', s'))"
  shows "starts_seen p' = starts_seen p"
  using end_orphans_induct [OF assms, where P = "\<lambda>r p s y. \<forall>x p' s'. y = Ret (x, p', s') \<longrightarrow> starts_seen p' = starts_seen p"]
    orphan_step_starts by fastforce

lemma RunEnd_starts:
  assumes "pp_RunEnd env runErr p s = Some (Ret (p', s'))"
  shows "starts_seen p' = starts_seen p"
proof -
  obtain p1 s1 where a: "(case runErr of None \<Rightarrow> Ret (p, s) | Some err \<Rightarrow> attribute_error env err p s) = Ret (p1, s1)"
    using assms by (auto simp: pp_RunEnd_def split: go.splits)
  then obtain x p2 s2 where o: "end_orphans env runErr p1 s1 = Some (Ret (x, p2, s2))" and f: "finish_run env x p2 s2 = Ret (p', s')"
    using assms by (auto simp: pp_RunEnd_def split: go.splits option.splits)
  have "starts_seen p1 = starts_seen p" using a attribute_error_starts by (cases runErr) auto
  moreover have "starts_seen p' = starts_seen p2"
    using f by (auto simp: finish_run_def Let_def started_infos_def split: go.splits option.splits)
  ultimately show ?thesis using end_orphans_starts [OF o] by simp
qed

lemma run_stream_starts:
  assumes "run_stream env path conn p s = Ret (x, p', s')"
  shows "\<exists>zs. starts_seen p' = starts_seen p @ zs \<and> subseq zs (conn_starts conn)"
proof (cases conn)
  case (Stream ins stop)
  then show ?thesis using assms recv_loop_starts by (auto simp: run_stream_def)
qed (use assms in \<open>auto simp: run_stream_def\<close>)

lemma client_starts:
  assumes "client_RunTests env path conn (processor_New resDir hs bundle') s = Some (Ret (p, s'))"
  shows "subseq (starts_seen p) (conn_starts conn)"
proof -
  obtain x p1 s1 where r: "pp_RunStart env (processor_New resDir hs bundle') s = Ret (x, p1, s1)"
    using assms by (auto simp: client_RunTests_def split: go.splits)
  have p1: "starts_seen p1 = []"
    using dispatch_starts [OF r [unfolded pp_RunStart_def]] by (simp add: processor_New_def newPreprocessor_def started_infos_def)
  show ?thesis
  proof (cases x)
    case (Some e)
    then show ?thesis using assms r p1 RunEnd_starts by (fastforce simp: client_RunTests_def)
  next
    case None
    obtain y p2 s2 where st: "run_stream env path conn p1 s1 = Ret (y, p2, s2)"
      using assms r None by (auto simp: client_RunTests_def split: go.splits)
    then have "starts_seen p = starts_seen p2" using assms r None RunEnd_starts by (simp add: client_RunTests_def)
    then show ?thesis using run_stream_starts [OF st] p1 by auto
  qed
qed

lemma started_tests_subseq: "subseq (started_tests P cs) (test_names (map i_Entity (started_infos cs)))"
proof -
  have "filter (is_test P) xs = filter (is_test P) (filter (\<lambda>i. g_Type (i_Entity i) = EntityType_TEST) xs)" for xs
    by (rule sym) (auto simp: is_test_def intro: filter_cong)
  then have "subseq (filter (is_test P) xs) (filter (\<lambda>i. g_Type (i_Entity i) = EntityType_TEST) xs)" for xs
    by (metis subseq_filter_left)
  then show ?thesis
    by (auto simp: started_tests_def test_names_def filter_map comp_def intro: subseq_map)
qed

definition driver_ok :: "'w driver \<Rightarrow> bool" where
  "driver_ok d \<longleftrightarrow> files_ok (d_env d) \<and> clock_ok (d_env d) \<and> HasPrefix (d_ResDir d) ''/'' \<and> list_all h_fresh (d_Factory d) \<and>
     (\<forall>bundle' tests s. bundle_ok (p_pb (d_env d)) tests (d_connect d bundle' tests s))"

lemma client_attempt:
  assumes "files_ok env" and "clock_ok env" and "HasPrefix resDir ''/''" and "list_all h_fresh hs"
    and b: "bundle_ok (p_pb env) tests conn"
  shows "\<exists>p s'. client_RunTests env path conn (processor_New resDir hs bundle') s = Some (Ret (p, s')) \<and>
    distinct (map r_Name (Results (pp_handlers p))) \<and> r_Name ` set (Results (pp_handlers p)) \<subseteq> set tests"
proof -
  have c: "conn_ok (p_pb env) conn" using b by (simp add: bundle_ok_def)
  from run_result_names [OF assms(1-4) c] obtain p s'
    where r: "client_RunTests env path conn (processor_New resDir hs bundle') s = Some (Ret (p, s'))"
      and m: "mset (map r_Name (Results (pp_handlers p))) = mset (started_tests (p_pb env) (pp_calls p))" by blast
  have "subseq (test_names (starts_seen p)) (test_names (conn_starts conn))"
    unfolding test_names_def by (intro subseq_map subseq_filter client_starts [OF r])
  then have "subseq (started_tests (p_pb env) (pp_calls p)) (test_names (conn_starts conn))"
    by (rule subseq_order.trans [OF started_tests_subseq])
  then obtain N where "started_tests (p_pb env) (pp_calls p) = nths (test_names (conn_starts conn)) N"
    by (auto simp: subseq_conv_nths)
  then have "distinct (started_tests (p_pb env) (pp_calls p))" "set (started_tests (p_pb env) (pp_calls p)) \<subseteq> set tests"
    using b set_nths_subset [of "test_names (conn_starts conn)" N] by (auto simp: bundle_ok_def distinct_nthsI)
  then show ?thesis using r mset_eq_imp_distinct_iff [OF m] mset_eq_setD [OF m] by simp
qed

interpretation la: attempts "\<lambda>(d, bundle'). runLocalTestsOnce d bundle'" "\<lambda>(d, bundle'). driver_ok d"
proof -
  have once: "(\<exists>rs e s'. runLocalTestsOnce d bundle' tests s = Some (Ret (rs, e, s')) \<and>
      distinct (map r_Name rs) \<and> r_Name ` set rs \<subseteq> set tests)"
    if "driver_ok d" for d :: "'w driver" and bundle' tests s
  proof (cases "d_cc d")
    case True
    obtain e w where w: "d_EnsureConn d (sh_w s) = (e, w)" by fastforce
    let ?s = "s\<lparr>sh_w := w, sh_mux := []\<rparr>"
    have ok: "files_ok (d_env d)" "clock_ok (d_env d)" "HasPrefix (d_ResDir d) ''/''" "list_all h_fresh (d_Factory d)"
      "bundle_ok (p_pb (d_env d)) tests (d_connect d bundle' tests ?s)"
      using that by (auto simp: driver_ok_def)
    from client_attempt [OF ok, of "path_Join [d_LocalBundleDir d, bundle']" bundle' ?s]
    show ?thesis using True w by (cases e) (auto simp: runLocalTestsOnce_def)
  qed (simp add: runLocalTestsOnce_def)
  show "attempts (\<lambda>(d :: 'w driver, bundle'). runLocalTestsOnce d bundle') (\<lambda>(d, bundle'). driver_ok d)"
  proof unfold_locales
    fix x :: "'w driver \<times> string" and tests s
    assume "case x of (d, bundle') \<Rightarrow> driver_ok d"
    then show "\<exists>rs e s'. (case x of (d, bundle') \<Rightarrow> runLocalTestsOnce d bundle') tests s = Some (Ret (rs, e, s'))"
      using once [of "fst x" "snd x" tests s] by (auto simp: case_prod_beta)
  next
    fix x :: "'w driver \<times> string" and tests s rs e s'
    assume "case x of (d, bundle') \<Rightarrow> driver_ok d"
      and "(case x of (d, bundle') \<Rightarrow> runLocalTestsOnce d bundle') tests s = Some (Ret (rs, e, s'))"
    then show "r_Name ` set rs \<subseteq> set tests" and "distinct (map r_Name rs)"
      using once [of "fst x" "snd x" tests s] by (auto simp: case_prod_beta)
  qed
qed

text \<open>C10: running the tests of a local bundle with retries ends, although nothing in the loop bounds the number of
  attempts, and on success every requested test has exactly one result.  It is the result of the last time
  the test ran: all earlier runs of it failed, there were at most as many retries as configured, and a failure is
  returned only after all retries are used up.  The bundle starts only tests it is asked to run, each of them once
  per attempt; it may crash at any point of any attempt.\<close>

theorem RunLocalTests_completes:
  assumes "driver_ok d"
  shows "\<exists>rs e s' H. RunLocalTests d bundle' tests s = Some (Ret (rs, e, s')) \<and>
    RunTestsWithRetry tests (recorded (runLocalTestsOnce d bundle')) (d_Retries d) (s, []) = Some (Ret (rs, e, (s', H))) \<and>
    (e = None \<longrightarrow> (\<forall>t\<in>set tests. \<exists>r fs. of_test t rs = [r] \<and> of_test t H = fs @ [r] \<and> (\<forall>f\<in>set fs. r_Errors f \<noteq> []) \<and>
       length fs \<le> nat (d_Retries d) \<and> (r_Errors r \<noteq> [] \<longrightarrow> length fs = nat (d_Retries d))))"
  using la.retry_completes [of "(d, bundle')" tests "d_Retries d" s, unfolded settled_def prod.case, OF assms]
  unfolding RunLocalTests_def .

text \<open>A bundle whose only test passes, and no handlers but the one for results.\<close>

definition ex_driver :: "nat driver" where
  "ex_driver =
     \<lparr>d_env = ex_penv, d_cc = True, d_EnsureConn = (\<lambda>w. (None, w)), d_ResDir = ''/res'', d_LocalBundleDir = ''/bundles'',
      d_Retries = 1, d_Factory = [],
      d_connect = (\<lambda>b tests s.
        if ''pkg.Test'' \<in> set tests
        then Stream [Recv (R_EntityStart ex_ts ex_entity ''/out/test''), Recv (R_EntityEnd ex_ts ''pkg.Test'' [] None)] EOF
        else DialErr ''no such test'')\<rparr>"

lemma ex_ts_valid: "ts_CheckValid ex_pb ex_ts = None"
  by (simp add: ex_ts_def ex_pb_def valid_time_def zero_time_def)

lemma ex_entity_name: "g_Name ex_entity = ''pkg.Test''" "g_Type ex_entity = EntityType_TEST"
  by (simp_all add: ex_entity_def)

lemma ex_driver_ok: "driver_ok ex_driver"
proof -
  have "bundle_ok ex_pb tests (d_connect ex_driver b tests s)" for b tests s
    by (simp add: bundle_ok_def ex_driver_def ex_ts_valid ex_entity_name test_names_def)
  then show ?thesis using ex_penv_ok by (simp add: driver_ok_def) (simp add: ex_driver_def HasPrefix_def)
qed

lemma ex_attempt:
  "\<exists>r s'. runLocalTestsOnce ex_driver ''cros'' [''pkg.Test''] s = Some (Ret ([r], None, s')) \<and> r_Name r = ''pkg.Test'' \<and> r_Errors r = []"
proof -
  let ?p = "newPreprocessor ''/res'' [ResultsH []] ''cros''"
  let ?p1 = "?p\<lparr>pp_calls := [HRunStart]\<rparr>"
  let ?s = "s\<lparr>sh_mux := []\<rparr>"
  obtain d g w where o: "createOutDir ex_penv ex_entity ?p1 (sh_w s) = (Inr d, ?p1\<lparr>pp_seenTimes := g\<rparr>, w)"
    using ex_outDir by blast
  obtain t where t: "NewTest ex_pb ex_entity = Inr t"
    by (simp add: NewTest_def ex_entity_def GetLegacyData_def no_legacy_def)
  then have n: "r_Name t = ''pkg.Test''" using NewTest_name ex_entity_name by metis
  have "\<exists>r p s'. client_RunTests ex_penv (path_Join [''/bundles'', ''cros'']) (d_connect ex_driver ''cros'' [''pkg.Test''] ?s) ?p ?s = Some (Ret (p, s')) \<and>
      Results (pp_handlers p) = [r] \<and> pp_fatalError p = None \<and> r_Name r = ''pkg.Test'' \<and> r_Errors r = []"
    by (simp add: client_RunTests_def pp_RunStart_def run_stream_def dispatch_def call_handlers_def base_def newPreprocessor_def
        ex_driver_def o [unfolded newPreprocessor_def, simplified] pp_EntityStart_def pp_EntityEnd_def Let_def ex_penv_ok(3) ex_ts_valid
        ex_entity_name stop_error_def pp_RunEnd_def end_orphans.simps finish_run_def results_EntityEnd_def EntityInfo_def newResult_def t n)
  then show ?thesis by (auto simp: runLocalTestsOnce_def ex_driver_def processor_New_def pp_FatalError_def)
qed

theorem RunLocalTests_completes_witness:
  "driver_ok ex_driver \<and>
   (\<exists>r s' H fs. RunLocalTests ex_driver ''cros'' [''pkg.Test''] ex_sh = Some (Ret ([r], None, s')) \<and> r_Name r = ''pkg.Test'' \<and>
      r_Errors r = [] \<and> of_test ''pkg.Test'' H = fs @ [r] \<and> length fs \<le> 1)"
proof -
  obtain r s' where a: "runLocalTestsOnce ex_driver ''cros'' [''pkg.Test''] ex_sh = Some (Ret ([r], None, s'))"
    and r: "r_Name r = ''pkg.Test''" "r_Errors r = []"
    using ex_attempt by blast
  have l: "RunLocalTests ex_driver ''cros'' [''pkg.Test''] ex_sh = Some (Ret ([r], None, s'))"
    by (simp add: RunLocalTests_def RunTestsWithRetry_def retry_loop.simps tests_to_run_def retry0_def a r)
  from RunLocalTests_completes [OF ex_driver_ok, of "''cros''" "[''pkg.Test'']" ex_sh] l r
  obtain H where "\<exists>r' fs. of_test ''pkg.Test'' [r] = [r'] \<and> of_test ''pkg.Test'' H = fs @ [r'] \<and> length fs \<le> nat (d_Retries ex_driver)"
    by fastforce
  then show ?thesis using ex_driver_ok l r by (auto simp: ex_driver_def)
qed

end
