(* ===== verification/Devserver.thy ===== *)
theory Devserver
  imports Handlers "HOL-Library.Word" "HOL-Library.Sublist"
begin

text \<open>
  Clients that download files through devservers, \<open>internal/devserver\<close>: the real client, which looks for
  a devserver that already has the file, has one fetch it otherwise, and reads it in a way that survives
  broken connections; the pseudo client; and the choice between clients.  HTTP, \<open>net/url\<close>, random numbers
  and the clock are the parameter \<open>web\<close>.  Requests that the source makes in parallel are made one after
  the other, timeouts of contexts and log messages are not modelled.

  What the theorem relies on is stated by \<open>body_laws\<close> and \<open>server_laws\<close>: the body of a response delivers
  the file from the requested offset on, possibly broken off at any point.
\<close>

subsection \<open>Parameters\<close>

datatype dserr = NotStaged | NotExist | DErr string | DWrap string dserr

fun derr_msg :: "dserr \<Rightarrow> string" where
  "derr_msg NotStaged = ''no staged file found''"
| "derr_msg NotExist = ''file does not exist''"
| "derr_msg (DErr m) = m"
| "derr_msg (DWrap p e) = p @ derr_msg e"

text \<open>Errors of readers; \<open>io.EOF\<close> and \<open>io.ErrUnexpectedEOF\<close> are told apart from others.\<close>

datatype rerr = REOF | RUnexpectedEOF | ROther dserr

record request =
  q_URL :: string
  q_Header :: "(string \<times> string) list"

record 'r response =
  StatusCode :: int
  Body :: 'r

record URL =
  u_Scheme :: string
  u_Host :: string
  u_Path :: string
  u_RawQuery :: string
  u_other :: string

record ('r, 'w) web =
  w_NewRequest :: "string \<Rightarrow> string option"
  w_Do :: "request \<Rightarrow> 'w \<Rightarrow> (string + 'r response) \<times> 'w"
  w_Read :: "nat \<Rightarrow> 'r \<Rightarrow> 'w \<Rightarrow> (string \<times> rerr option) \<times> 'r \<times> 'w"
  w_ReadAll :: "'r \<Rightarrow> 'w \<Rightarrow> (string \<times> string option) \<times> 'w"
  w_Close :: "'r \<Rightarrow> 'w \<Rightarrow> 'w"
  w_Parse :: "string \<Rightarrow> string + URL"
  w_String :: "URL \<Rightarrow> string"
  w_PathUnescape :: "string \<Rightarrow> string + string"
  w_Encode :: "(string \<times> string) list \<Rightarrow> string"
  w_Intn :: "nat \<Rightarrow> 'w \<Rightarrow> nat \<times> 'w"
  w_Now :: "'w \<Rightarrow> int \<times> 'w"
  w_Sleep :: "int \<Rightarrow> 'w \<Rightarrow> string option \<times> 'w"

definition StatusOK :: int where "StatusOK = 200"
definition StatusPartialContent :: int where "StatusPartialContent = 206"
definition StatusNotFound :: int where "StatusNotFound = 404"
definition StatusInternalServerError :: int where "StatusInternalServerError = 500"

subsection \<open>Standard library\<close>

definition TrimPrefix :: "string \<Rightarrow> string \<Rightarrow> string" where
  "TrimPrefix s p = (if HasPrefix s p then drop (length p) s else s)"

text \<open>\<open>strings.TrimSpace\<close>: the UTF-8 encodings of the white space characters of Unicode.\<close>

definition space_runes :: "string list" where
  "space_runes =
     map (\<lambda>c. [c]) [CHR 0x09, CHR 0x0A, CHR 0x0B, CHR 0x0C, CHR 0x0D, CHR '' ''] @
     [[CHR 0xC2, CHR 0x85], [CHR 0xC2, CHR 0xA0], [CHR 0xE1, CHR 0x9A, CHR 0x80]] @
     map (\<lambda>c. [CHR 0xE2, CHR 0x80, c])
       [CHR 0x80, CHR 0x81, CHR 0x82, CHR 0x83, CHR 0x84, CHR 0x85, CHR 0x86, CHR 0x87, CHR 0x88, CHR 0x89, CHR 0x8A,
        CHR 0xA8, CHR 0xA9, CHR 0xAF] @
     [[CHR 0xE2, CHR 0x81, CHR 0x9F], [CHR 0xE3, CHR 0x80, CHR 0x80]]"

fun trim_left :: "nat \<Rightarrow> string list \<Rightarrow> string \<Rightarrow> string" where
  "trim_left 0 runes s = s"
| "trim_left (Suc n) runes s =
     (case find (HasPrefix s) runes of None \<Rightarrow> s | Some p \<Rightarrow> trim_left n runes (drop (length p) s))"

definition TrimSpace :: "string \<Rightarrow> string" where
  "TrimSpace s =
     (let t = trim_left (length s) space_runes s
      in rev (trim_left (length t) (map rev space_runes) (rev t)))"

text \<open>\<open>crc32.ChecksumIEEE\<close>.\<close>

unbundle bit_operations_syntax

definition crc_bit :: "32 word \<Rightarrow> 32 word" where
  "crc_bit c = (if bit c 0 then drop_bit 1 c XOR 0xEDB88320 else drop_bit 1 c)"

definition crc_byte :: "32 word \<Rightarrow> char \<Rightarrow> 32 word" where
  "crc_byte c b = (crc_bit ^^ 8) (c XOR of_char b)"

definition ChecksumIEEE :: "string \<Rightarrow> 32 word" where
  "ChecksumIEEE s = NOT (foldl crc_byte (NOT 0) s)"

subsection \<open>Errors and addresses\<close>

text \<open>The first line that is followed by white space and a closing tag, as the regular expression
  \<open>internalErrorRegexp\<close> finds it.\<close>

definition re_space :: "char \<Rightarrow> bool" where
  "re_space c \<longleftrightarrow> c \<in> {CHR 0x09, CHR 0x0A, CHR 0x0C, CHR 0x0D, CHR '' ''}"

fun find_pre :: "string list \<Rightarrow> string option" where
  "find_pre [] = None"
| "find_pre (l # ls) =
     (if ls \<noteq> [] \<and> HasPrefix (dropWhile re_space (Join ls [CHR 0x0A])) ''</pre>'' then Some l else find_pre ls)"

definition scrapeInternalError :: "string \<Rightarrow> string" where
  "scrapeInternalError out' =
     (case find_pre (split_on (CHR 0x0A) out') of None \<Rightarrow> ''unknown error'' | Some m \<Rightarrow> m)"

definition ParseGSURL :: "('r, 'w) web \<Rightarrow> string \<Rightarrow> dserr + string \<times> string" where
  "ParseGSURL W gsURL =
     (case w_Parse W gsURL of
        Inl e \<Rightarrow> Inl (DErr e)
      | Inr parsed \<Rightarrow>
          if u_Scheme parsed \<noteq> ''gs'' then Inl (DErr ''not a GS URL'')
          else Inr (u_Host parsed, TrimPrefix (u_Path parsed) ''/''))"

definition buildRequestURL :: "('r, 'w) web \<Rightarrow> string \<Rightarrow> string \<Rightarrow> string \<Rightarrow> string" where
  "buildRequestURL W endpoint bucket gsPath =
     (let dir = path_Dir gsPath;
          gsDirURL = \<lparr>u_Scheme = ''gs'', u_Host = bucket, u_Path = (if dir \<noteq> ''.'' then dir else []), u_RawQuery = [], u_other = []\<rparr>;
          unescapedGsDirURL = (case w_PathUnescape W (w_String W gsDirURL) of Inl e \<Rightarrow> w_String W gsDirURL | Inr s \<Rightarrow> s)
      in endpoint @ ''?'' @ w_Encode W [(''archive_url'', unescapedGsDirURL), (''files'', path_Base gsPath)])"

subsection \<open>The real client\<close>

definition checkHealth :: "('r, 'w) web \<Rightarrow> string \<Rightarrow> 'w \<Rightarrow> dserr option \<times> 'w" where
  "checkHealth W dsURL w =
     (case w_NewRequest W (dsURL @ ''/check_health'') of
        Some e \<Rightarrow> (Some (DErr e), w)
      | None \<Rightarrow>
          (case w_Do W \<lparr>q_URL = dsURL @ ''/check_health'', q_Header = []\<rparr> w of
             (Inl e, w1) \<Rightarrow> (Some (DErr e), w1)
           | (Inr res, w1) \<Rightarrow>
               let w2 = w_Close W (Body res) w1 in
               if StatusCode res \<noteq> StatusOK then
                 let ((out', err), w3) = w_ReadAll W (Body res) w2
                 in (Some (DErr (''check_health returned '' @ show_int (StatusCode res) @ '': '' @ scrapeInternalError out')), w3)
               else (None, w2)))"

record server =
  sv_url :: string
  sv_err :: "dserr option"

definition server_String :: "server \<Rightarrow> string" where
  "server_String s =
     (case sv_err s of
        None \<Rightarrow> ''['' @ sv_url s @ '' UP]''
      | Some e \<Rightarrow> ''['' @ sv_url s @ '' DOWN ('' @ derr_msg e @ '')]'')"

record RealClient =
  rc_servers :: "server list"
  rc_stageRetryWaits :: "int list"
  rc_swarmingTaskID :: string
  rc_buildBucketID :: string

record RealClientOptions =
  ro_StageRetryWaits :: "int list option"
  ro_SwarmingTaskID :: string
  ro_BuildBucketID :: string

definition default_waits :: "int list" where
  "default_waits = [2000000000, 4000000000, 8000000000]"

fun check_servers :: "('r, 'w) web \<Rightarrow> string list \<Rightarrow> 'w \<Rightarrow> server list \<times> 'w" where
  "check_servers W [] w = ([], w)"
| "check_servers W (u # us) w =
     (let (err, w1) = checkHealth W u w; (ss, w2) = check_servers W us w1 in (\<lparr>sv_url = u, sv_err = err\<rparr> # ss, w2))"

definition NewRealClient :: "('r, 'w) web \<Rightarrow> string list \<Rightarrow> RealClientOptions option \<Rightarrow> 'w \<Rightarrow> RealClient \<times> 'w" where
  "NewRealClient W dsURLs opts w =
     (let o' = (case opts of None \<Rightarrow> \<lparr>ro_StageRetryWaits = None, ro_SwarmingTaskID = [], ro_BuildBucketID = []\<rparr> | Some x \<Rightarrow> x);
          (servers, w1) = check_servers W dsURLs w
      in (\<lparr>rc_servers = sort_by sv_url servers,
           rc_stageRetryWaits = (case ro_StageRetryWaits o' of None \<Rightarrow> default_waits | Some ws \<Rightarrow> ws),
           rc_swarmingTaskID = (if ro_SwarmingTaskID o' = [] then ''none'' else ro_SwarmingTaskID o'),
           rc_buildBucketID = (if ro_BuildBucketID o' = [] then ''none'' else ro_BuildBucketID o')\<rparr>, w1))"

definition UpServerURLs :: "RealClient \<Rightarrow> string list" where
  "UpServerURLs c = map sv_url (filter (\<lambda>s. sv_err s = None) (rc_servers c))"

definition RealClient_Status :: "RealClient \<Rightarrow> string" where
  "RealClient_Status c = ''['' @ Join (map server_String (rc_servers c)) '' '' @ '']''"

definition id_headers :: "RealClient \<Rightarrow> (string \<times> string) list" where
  "id_headers c = [(''X-SWARMING-TASK-ID'', rc_swarmingTaskID c), (''X-BBID'', rc_buildBucketID c)]"

definition checkStaged :: "('r, 'w) web \<Rightarrow> RealClient \<Rightarrow> string \<Rightarrow> string \<Rightarrow> string \<Rightarrow> 'w \<Rightarrow> dserr option \<times> 'w" where
  "checkStaged W c dsURL bucket gsPath w =
     (let checkURL = buildRequestURL W (dsURL @ ''/is_staged'') bucket gsPath in
      case w_NewRequest W checkURL of
        Some e \<Rightarrow> (Some (DErr e), w)
      | None \<Rightarrow>
          (case w_Do W \<lparr>q_URL = checkURL, q_Header = id_headers c\<rparr> w of
             (Inl e, w1) \<Rightarrow> (Some (DErr e), w1)
           | (Inr res, w1) \<Rightarrow>
               let code = StatusCode res in
               if code = StatusOK then
                 let ((b, err), w2) = w_ReadAll W (Body res) w1; w3 = w_Close W (Body res) w2; val = TrimSpace b
                 in ((case err of
                        Some e \<Rightarrow> Some (DErr (''failed to read response body: '' @ e))
                      | None \<Rightarrow>
                          if val = ''True'' then None
                          else if val = ''False'' then Some NotStaged
                          else if val = ''This is an ephemeral devserver provided by Tast.''
                          then Some (DErr ''tast command is old; please run ./update_chroot'')
                          else Some (DErr (''got response '' @ Quote val))), w3)
               else if code = StatusInternalServerError then
                 let ((out', err), w2) = w_ReadAll W (Body res) w1
                 in (Some (DErr (''got status '' @ show_int code @ '': '' @ scrapeInternalError out')), w_Close W (Body res) w2)
               else (Some (DErr (''got status '' @ show_int code)), w_Close W (Body res) w1)))"

fun staged_servers :: "('r, 'w) web \<Rightarrow> RealClient \<Rightarrow> string \<Rightarrow> string \<Rightarrow> string list \<Rightarrow> 'w \<Rightarrow> string list \<times> 'w" where
  "staged_servers W c bucket path [] w = ([], w)"
| "staged_servers W c bucket path (dsURL # dsURLs) w =
     (let (err, w1) = checkStaged W c dsURL bucket path w; (found, w2) = staged_servers W c bucket path dsURLs w1
      in (if err = None \<and> dsURL \<noteq> [] then dsURL # found else found, w2))"

definition findStaged :: "('r, 'w) web \<Rightarrow> RealClient \<Rightarrow> string \<Rightarrow> string \<Rightarrow> 'w \<Rightarrow> (dserr + string) \<times> 'w" where
  "findStaged W c bucket path w =
     (let (found, w1) = staged_servers W c bucket path (UpServerURLs c) w in
      if found = [] then (Inl NotStaged, w1)
      else let (k, w2) = w_Intn W (length found) w1 in (Inr (found ! k), w2))"

text \<open>The server with the least score; which one of several with the same score is first depends on the
  sorting algorithm, here it is the first of the list.\<close>

definition chooseServer :: "RealClient \<Rightarrow> string \<Rightarrow> string" where
  "chooseServer c gsURL = hd (sort_by (\<lambda>u. ChecksumIEEE (u @ [CHR 0x00] @ gsURL)) (UpServerURLs c))"

definition sendStageRequest :: "('r, 'w) web \<Rightarrow> request \<Rightarrow> 'w \<Rightarrow> (bool \<times> dserr option) \<times> 'w" where
  "sendStageRequest W req w =
     (case w_Do W req w of
        (Inl e, w1) \<Rightarrow> ((True, Some (DErr e)), w1)
      | (Inr res, w1) \<Rightarrow>
          let code = StatusCode res in
          if code = StatusOK then ((False, None), w_Close W (Body res) w1)
          else if code = StatusInternalServerError then
            let ((out', err), w2) = w_ReadAll W (Body res) w1; w3 = w_Close W (Body res) w2; s = scrapeInternalError out'
            in if ContainsStr s ''Could not find'' \<or> ContainsStr s ''file not found'' then ((False, Some NotExist), w3)
               else ((True, Some (DErr (''got status '' @ show_int code @ '': '' @ s))), w3)
          else ((True, Some (DErr (''got status '' @ show_int code))), w_Close W (Body res) w1))"

fun stage_loop :: "('r, 'w) web \<Rightarrow> request \<Rightarrow> int list \<Rightarrow> 'w \<Rightarrow> dserr option \<times> 'w" where
  "stage_loop W req waits w =
     (let (start, w0) = w_Now W w; ((retryable, err), w1) = sendStageRequest W req w0 in
      if err = None \<or> \<not> retryable then (err, w1)
      else case waits of
        [] \<Rightarrow> (err, w1)
      | d # ds \<Rightarrow>
          let (t, w2) = w_Now W w1; remaining = d - (t - start) in
          if remaining > 0 then
            (case w_Sleep W remaining w2 of
               (Some e, w3) \<Rightarrow> (Some (DErr e), w3)
             | (None, w3) \<Rightarrow> stage_loop W req ds w3)
          else stage_loop W req ds w2)"

declare stage_loop.simps [simp del]

definition stage :: "('r, 'w) web \<Rightarrow> RealClient \<Rightarrow> string \<Rightarrow> string \<Rightarrow> string \<Rightarrow> 'w \<Rightarrow> dserr option \<times> 'w" where
  "stage W c dsURL bucket gsPath w =
     (let stageURL = buildRequestURL W (dsURL @ ''/stage'') bucket gsPath in
      case w_NewRequest W stageURL of
        Some e \<Rightarrow> (Some (DErr e), w)
      | None \<Rightarrow> stage_loop W \<lparr>q_URL = stageURL, q_Header = id_headers c\<rparr> (rc_stageRetryWaits c) w)"

definition staticURL :: "('r, 'w) web \<Rightarrow> string \<Rightarrow> string \<Rightarrow> string \<Rightarrow> dserr + URL" where
  "staticURL W dsURL bucket path =
     (case w_Parse W dsURL of
        Inl e \<Rightarrow> Inl (DErr e)
      | Inr u \<Rightarrow> Inr (u\<lparr>u_Path := u_Path u @ ''/static/'' @ path, u_RawQuery := w_Encode W [(''gs_bucket'', bucket)]\<rparr>))"

definition stage_from :: "('r, 'w) web \<Rightarrow> string \<Rightarrow> string \<Rightarrow> string \<Rightarrow> dserr + URL" where
  "stage_from W dsURL bucket path =
     (case staticURL W dsURL bucket path of
        Inl e \<Rightarrow> Inl (DErr (''failed to stage from '' @ dsURL @ '': '' @ derr_msg e))
      | Inr u \<Rightarrow> Inr u)"

definition RealClient_Stage :: "('r, 'w) web \<Rightarrow> RealClient \<Rightarrow> string \<Rightarrow> 'w \<Rightarrow> (dserr + URL) \<times> 'w" where
  "RealClient_Stage W c gsURL w =
     (case ParseGSURL W gsURL of
        Inl e \<Rightarrow> (Inl e, w)
      | Inr (bucket, path) \<Rightarrow>
          if UpServerURLs c = [] then (Inl (DErr ''no devserver is up''), w)
          else case findStaged W c bucket path w of
            (Inr dsURL, w1) \<Rightarrow> (stage_from W dsURL bucket path, w1)
          | (Inl e, w1) \<Rightarrow>
              if e \<noteq> NotStaged then (Inl (DErr (''failed to find a staged file: '' @ derr_msg e)), w1)
              else
                let dsURL = chooseServer c gsURL; failed = (\<lambda>e. DErr (''failed to stage on '' @ dsURL @ '': '' @ derr_msg e)) in
                case stage W c dsURL bucket path w1 of
                  (Some e, w2) \<Rightarrow> (Inl (if e = NotExist then e else failed e), w2)
                | (None, w2) \<Rightarrow>
                    (case checkStaged W c dsURL bucket path w2 of
                       (Some e, w3) \<Rightarrow> (Inl (failed e), w3)
                     | (None, w3) \<Rightarrow> (stage_from W dsURL bucket path, w3)))"

subsection \<open>Reading a staged file\<close>

text \<open>The function \<open>open\<close> of \<open>openStaged\<close>.\<close>

definition range_header :: "nat \<Rightarrow> (string \<times> string) list" where
  "range_header off = (if off > 0 then [(''Range'', ''bytes='' @ show_nat off @ ''-'')] else [])"

definition open_static :: "('r, 'w) web \<Rightarrow> RealClient \<Rightarrow> URL \<Rightarrow> nat \<Rightarrow> 'w \<Rightarrow> (dserr + 'r) \<times> 'w" where
  "open_static W c url off w =
     (case w_NewRequest W (w_String W url) of
        Some e \<Rightarrow> (Inl (DErr e), w)
      | None \<Rightarrow>
          (case w_Do W \<lparr>q_URL = w_String W url, q_Header = id_headers c @ [(''Negotiate'', ''vlist'')] @ range_header off\<rparr> w of
             (Inl e, w1) \<Rightarrow> (Inl (DErr e), w1)
           | (Inr res, w1) \<Rightarrow>
               let code = StatusCode res in
               if code = StatusOK \<or> code = StatusPartialContent then (Inr (Body res), w1)
               else if code = StatusInternalServerError then
                 let ((out', err), w2) = w_ReadAll W (Body res) w1
                 in (Inl (DErr (''got status '' @ show_int code @ '': '' @ scrapeInternalError out')), w_Close W (Body res) w2)
               else if code = StatusNotFound then
                 (Inl (DWrap (''got status '' @ show_int code @ '': '') NotExist), w_Close W (Body res) w1)
               else (Inl (DErr (''got status '' @ show_int code)), w_Close W (Body res) w1)))"

record 'r resumingReader =
  rr_url :: URL
  rr_reader :: 'r
  rr_pos :: nat
  rr_err :: "rerr option"

definition isResumable :: "rerr \<Rightarrow> bool" where
  "isResumable e \<longleftrightarrow> e = RUnexpectedEOF"

definition newResumingReader :: "('r, 'w) web \<Rightarrow> RealClient \<Rightarrow> URL \<Rightarrow> 'w \<Rightarrow> (dserr + 'r resumingReader) \<times> 'w" where
  "newResumingReader W c url w =
     (case open_static W c url 0 w of
        (Inl e, w1) \<Rightarrow> (Inl e, w1)
      | (Inr r, w1) \<Rightarrow> (Inr \<lparr>rr_url = url, rr_reader = r, rr_pos = 0, rr_err = None\<rparr>, w1))"

text \<open>The loop of \<open>Read\<close> with a buffer of \<open>n\<close> bytes; it runs at most twice.\<close>

type_synonym ('r, 'w) read_result = "(string \<times> rerr option) \<times> 'r resumingReader \<times> 'w"

function rr_loop :: "('r, 'w) web \<Rightarrow> RealClient \<Rightarrow> bool \<Rightarrow> nat \<Rightarrow> 'r resumingReader \<Rightarrow> 'w \<Rightarrow> ('r, 'w) read_result" where
  "rr_loop W c reopened n r w =
     (case w_Read W n (rr_reader r) w of ((p, err), rd, w1) \<Rightarrow>
        let r1 = r\<lparr>rr_reader := rd, rr_pos := rr_pos r + length p\<rparr> in
        case err of
          None \<Rightarrow> ((p, None), r1, w1)
        | Some e \<Rightarrow>
            if \<not> isResumable e \<or> reopened \<and> p = [] then ((p, Some e), r1\<lparr>rr_err := Some e\<rparr>, w1)
            else case open_static W c (rr_url r) (rr_pos r1) w1 of
              (Inl e', w2) \<Rightarrow> ((p, Some (ROther e')), r1\<lparr>rr_err := Some (ROther e')\<rparr>, w2)
            | (Inr rd', w2) \<Rightarrow>
                let w3 = w_Close W rd w2; r2 = r1\<lparr>rr_reader := rd'\<rparr>
                in if p \<noteq> [] then ((p, None), r2, w3) else rr_loop W c True n r2 w3)"
  by pat_completeness auto
termination
  by (relation "measure (\<lambda>(W, c, reopened, n, r, w). if reopened then 0 else 1)") auto

declare rr_loop.simps [simp del]

definition rr_Read :: "('r, 'w) web \<Rightarrow> RealClient \<Rightarrow> nat \<Rightarrow> 'r resumingReader \<Rightarrow> 'w \<Rightarrow> ('r, 'w) read_result" where
  "rr_Read W c n r w =
     (case rr_err r of Some e \<Rightarrow> (([], Some e), r, w) | None \<Rightarrow> rr_loop W c False n r w)"

definition rr_Close :: "('r, 'w) web \<Rightarrow> 'r resumingReader \<Rightarrow> 'w \<Rightarrow> 'w" where
  "rr_Close W r w = w_Close W (rr_reader r) w"

definition RealClient_Open :: "('r, 'w) web \<Rightarrow> RealClient \<Rightarrow> string \<Rightarrow> 'w \<Rightarrow> (dserr + 'r resumingReader) \<times> 'w" where
  "RealClient_Open W c gsURL w =
     (case RealClient_Stage W c gsURL w of
        (Inl e, w1) \<Rightarrow> (Inl e, w1)
      | (Inr url, w1) \<Rightarrow>
          (case newResumingReader W c url w1 of
             (Inl e, w2) \<Rightarrow> (Inl (DWrap (''failed to download from '' @ w_String W url @ '': '') e), w2)
           | (Inr r, w2) \<Rightarrow> (Inr r, w2)))"

subsection \<open>The pseudo client and the choice of a client\<close>

definition PseudoClient_Stage :: "('r, 'w) web \<Rightarrow> string \<Rightarrow> string \<Rightarrow> (dserr + URL) go" where
  "PseudoClient_Stage W baseURL gsURL =
     (case ParseGSURL W gsURL of
        Inl e \<Rightarrow> Ret (Inl e)
      | Inr (bucket, path) \<Rightarrow>
          (case w_Parse W baseURL of
             Inl e \<Rightarrow> Panic nil_deref
           | Inr dlURL \<Rightarrow> Ret (Inr (dlURL\<lparr>u_Path := ''/'' @ bucket @ ''/'' @ path\<rparr>))))"

definition PseudoClient_Open :: "('r, 'w) web \<Rightarrow> string \<Rightarrow> string \<Rightarrow> 'w \<Rightarrow> ((dserr + 'r) \<times> 'w) go" where
  "PseudoClient_Open W baseURL gsURL w =
     (case PseudoClient_Stage W baseURL gsURL of
        Panic m \<Rightarrow> Panic m
      | Ret (Inl e) \<Rightarrow> Ret (Inl e, w)
      | Ret (Inr dlURL) \<Rightarrow>
          (case w_NewRequest W (w_String W dlURL) of
             Some e \<Rightarrow> Ret (Inl (DErr e), w)
           | None \<Rightarrow>
               (case w_Do W \<lparr>q_URL = w_String W dlURL, q_Header = []\<rparr> w of
                  (Inl e, w1) \<Rightarrow> Ret (Inl (DErr e), w1)
                | (Inr res, w1) \<Rightarrow>
                    if StatusCode res = StatusOK then Ret (Inr (Body res), w1)
                    else
                      let w2 = w_Close W (Body res) w1 in
                      if StatusCode res = StatusNotFound then Ret (Inl NotExist, w2)
                      else Ret (Inl (DErr (''got status '' @ show_int (StatusCode res))), w2))))"

definition gsDownloadURL :: string where
  "gsDownloadURL = ''https://storage.googleapis.com''"

text \<open>The clients of a DUT server and of TLW are parameters: the results of connecting to them.\<close>

datatype ('d, 't) Client = DUTServiceClient 'd | TLWClient 't | PseudoClient string | RealClient RealClient

definition devserver_NewClient ::
  "('r, 'w) web \<Rightarrow> (string \<Rightarrow> dserr + 'd) \<Rightarrow> (string \<Rightarrow> string \<Rightarrow> dserr + 't) \<Rightarrow> string list \<Rightarrow> string \<Rightarrow> string \<Rightarrow> string \<Rightarrow>
     string \<Rightarrow> string \<Rightarrow> 'w \<Rightarrow> (dserr + ('d, 't) Client) \<times> 'w" where
  "devserver_NewClient W newDUT newTLW devservers tlwServer dutName dutServer swarmingTaskID buildBucketID w =
     (let show_list = ''['' @ Join devservers '' '' @ '']'' in
      if dutServer \<noteq> [] then
        (if devservers \<noteq> [] then
           (Inl (DErr (''both dutServer ('' @ Quote dutServer @ '') and devservers ('' @ show_list @ '') are set'')), w)
         else case newDUT dutServer of Inl e \<Rightarrow> (Inl e, w) | Inr cl \<Rightarrow> (Inr (DUTServiceClient cl), w))
      else if tlwServer \<noteq> [] then
        (if devservers \<noteq> [] then
           (Inl (DErr (''both tlwServer ('' @ Quote tlwServer @ '') and devservers ('' @ show_list @ '') are set'')), w)
         else case newTLW tlwServer dutName of Inl e \<Rightarrow> (Inl e, w) | Inr cl \<Rightarrow> (Inr (TLWClient cl), w))
      else if devservers = [] then (Inr (PseudoClient gsDownloadURL), w)
      else
        let (cl, w1) = NewRealClient W devservers
              (Some \<lparr>ro_StageRetryWaits = None, ro_SwarmingTaskID = swarmingTaskID, ro_BuildBucketID = buildBucketID\<rparr>) w
        in (Inr (RealClient cl), w1))"

subsection \<open>What is delivered\<close>

text \<open>\<open>S content off r\<close>: the body \<open>r\<close> delivers \<open>content\<close> from \<open>off\<close> on.  A read gives the next bytes, and the end of
  file only at the end of the content; other errors may come at any time.\<close>

definition body_laws :: "('r, 'w) web \<Rightarrow> (string \<Rightarrow> nat \<Rightarrow> 'r \<Rightarrow> bool) \<Rightarrow> bool" where
  "body_laws W S \<longleftrightarrow>
     (\<forall>content off r n w p e r' w'. S content off r \<longrightarrow> w_Read W n r w = ((p, e), r', w') \<longrightarrow>
        prefix p (drop off content) \<and> S content (off + length p) r' \<and>
        (e = Some REOF \<longrightarrow> p = drop off content))"

text \<open>A successful response has the file from the beginning, or from the offset of the \<open>Range\<close> header.\<close>

definition server_laws :: "('r, 'w) web \<Rightarrow> (string \<Rightarrow> nat \<Rightarrow> 'r \<Rightarrow> bool) \<Rightarrow> (string \<Rightarrow> string) \<Rightarrow> bool" where
  "server_laws W S file' \<longleftrightarrow>
     (\<forall>url hs off w res w'. w_Do W \<lparr>q_URL = url, q_Header = hs @ range_header off\<rparr> w = (Inr res, w') \<longrightarrow>
        ''Range'' \<notin> fst ` set hs \<longrightarrow> StatusCode res \<in> {StatusOK, StatusPartialContent} \<longrightarrow> S (file' url) off (Body res)) \<and>
     (\<forall>n w. n > 0 \<longrightarrow> fst (w_Intn W n w) < n)"

text \<open>Reads with buffers of the given sizes, one after the other.\<close>

fun rr_reads ::
  "('r, 'w) web \<Rightarrow> RealClient \<Rightarrow> nat list \<Rightarrow> 'r resumingReader \<Rightarrow> 'w \<Rightarrow>
     (string \<times> rerr option) list \<times> 'r resumingReader \<times> 'w" where
  "rr_reads W c [] r w = ([], r, w)"
| "rr_reads W c (n # ns) r w =
     (let (o', r1, w1) = rr_Read W c n r w; (os, r2, w2) = rr_reads W c ns r1 w1 in (o' # os, r2, w2))"

text \<open>The state of a reader that has delivered \<open>D\<close> of a file.\<close>

definition rr_inv :: "(string \<Rightarrow> nat \<Rightarrow> 'r \<Rightarrow> bool) \<Rightarrow> string \<Rightarrow> string \<Rightarrow> 'r resumingReader \<Rightarrow> bool" where
  "rr_inv S F D r \<longleftrightarrow> rr_pos r = length D \<and> prefix D F \<and> (rr_err r = None \<longrightarrow> S F (length D) (rr_reader r)) \<and>
     (rr_err r = Some REOF \<longrightarrow> D = F)"

lemma open_static_serves:
  assumes "server_laws W S file'" and "open_static W c url off w = (Inr r, w')"
  shows "S (file' (w_String W url)) off r"
proof -
  let ?hs = "id_headers c @ [(''Negotiate'', ''vlist'')]"
  obtain res where "w_Do W \<lparr>q_URL = w_String W url, q_Header = ?hs @ range_header off\<rparr> w = (Inr res, w')"
    "StatusCode res \<in> {StatusOK, StatusPartialContent}" "r = Body res"
    using assms(2) by (auto simp: open_static_def Let_def split: option.splits sum.splits prod.splits if_splits)
  moreover have "''Range'' \<notin> fst ` set ?hs" by (simp add: id_headers_def)
  ultimately show ?thesis using assms(1) unfolding server_laws_def by blast
qed

lemma read_extends:
  assumes "body_laws W S" and "S F (length D) rd" and "prefix D F" and "w_Read W n rd w = ((p, e), rd', w')"
  shows "prefix (D @ p) F \<and> S F (length (D @ p)) rd' \<and> (e = Some REOF \<longrightarrow> D @ p = F)"
proof -
  have "prefix p (drop (length D) F)" "S F (length D + length p) rd'" "e = Some REOF \<longrightarrow> p = drop (length D) F"
    using assms(1,2,4) unfolding body_laws_def by blast+
  moreover obtain z where "F = D @ z" using assms(3) by (auto simp: prefix_def)
  ultimately show ?thesis by auto
qed

text \<open>One round of the loop returns or, only in the first round, goes on without having delivered anything.\<close>

definition rr_post :: "(string \<Rightarrow> nat \<Rightarrow> 'r \<Rightarrow> bool) \<Rightarrow> string \<Rightarrow> string \<Rightarrow> 'r resumingReader \<Rightarrow> string \<Rightarrow> rerr option \<Rightarrow> 'r resumingReader \<Rightarrow> bool" where
  "rr_post S F D r p e r' \<longleftrightarrow> rr_inv S F (D @ p) r' \<and> rr_url r' = rr_url r \<and> (e = Some REOF \<longrightarrow> rr_err r' = Some REOF)"

lemma rr_round:
  assumes "body_laws W S" and "server_laws W S file'" and F: "F = file' (w_String W (rr_url r))"
    and inv: "rr_inv S F D r" "rr_err r = None" and loop: "rr_loop W c b n r w = ((p, e), r', w')"
  shows "rr_post S F D r p e r' \<or>
    \<not> b \<and> (\<exists>r2 w2. rr_url r2 = rr_url r \<and> rr_inv S F D r2 \<and> rr_err r2 = None \<and> rr_loop W c True n r2 w2 = ((p, e), r', w'))"
proof -
  obtain p1 err rd w1 where rd: "w_Read W n (rr_reader r) w = ((p1, err), rd, w1)" by (metis prod_cases3 surj_pair)
  let ?r1 = "r\<lparr>rr_reader := rd, rr_pos := rr_pos r + length p1\<rparr>"
  have ext: "prefix (D @ p1) F" "S F (length (D @ p1)) rd" "err = Some REOF \<longrightarrow> D @ p1 = F"
    using read_extends [OF assms(1) _ _ rd, of F D] inv by (auto simp: rr_inv_def)
  have pos: "rr_pos ?r1 = length (D @ p1)" using inv by (simp add: rr_inv_def)
  note loop = loop [unfolded rr_loop.simps [of W c b n r w] rd, simplified]
  obtain o' w2 where op: "open_static W c (rr_url r) (rr_pos ?r1) w1 = (o', w2)" by fastforce
  consider "err = None" | e1 where "err = Some e1" "\<not> isResumable e1 \<or> b \<and> p1 = []"
    | e1 e2 where "err = Some e1" "isResumable e1" "\<not> (b \<and> p1 = [])" "o' = Inl e2"
    | e1 rd' where "err = Some e1" "isResumable e1" "\<not> (b \<and> p1 = [])" "o' = Inr rd'"
    by (cases err; cases o') auto
  then show ?thesis
  proof cases
    case 1
    then show ?thesis using loop ext pos inv(2) by (auto simp: rr_inv_def rr_post_def)
  next
    case (2 e1)
    then show ?thesis using loop ext pos by (auto simp: rr_inv_def rr_post_def)
  next
    case (3 e1 e2)
    then show ?thesis using loop ext pos op by (auto simp: rr_inv_def rr_post_def)
  next
    case (4 e1 rd')
    let ?r2 = "?r1\<lparr>rr_reader := rd'\<rparr>"
    have "S F (length (D @ p1)) rd'" using open_static_serves [OF assms(2)] op 4(4) pos F by metis
    then have i2: "rr_inv S F (D @ p1) ?r2" "rr_err ?r2 = None" "rr_url ?r2 = rr_url r"
      using ext(1) pos inv(2) by (simp_all add: rr_inv_def)
    show ?thesis
    proof (cases "p1 = []")
      case True
      then have "\<not> b \<and> rr_loop W c True n ?r2 (w_Close W rd w2) = ((p, e), r', w')" using loop 4 op by (auto simp: Let_def)
      then show ?thesis using i2 True by (metis append_Nil2)
    next
      case False
      then have "p = p1 \<and> e = None \<and> r' = ?r2" using loop 4 op by (auto simp: Let_def)
      then show ?thesis using i2 by (simp add: rr_post_def)
    qed
  qed
qed

lemma rr_Read_inv:
  assumes "body_laws W S" and "server_laws W S file'" and "F = file' (w_String W (rr_url r))" and "rr_inv S F D r"
    and "rr_Read W c n r w = ((p, e), r', w')"
  shows "rr_post S F D r p e r'"
proof (cases "rr_err r")
  case None
  then have l: "rr_loop W c False n r w = ((p, e), r', w')" using assms(5) by (simp add: rr_Read_def)
  from rr_round [OF assms(1-4) None l] show ?thesis
  proof
    assume "\<not> False \<and> (\<exists>r2 w2. rr_url r2 = rr_url r \<and> rr_inv S F D r2 \<and> rr_err r2 = None \<and> rr_loop W c True n r2 w2 = ((p, e), r', w'))"
    then obtain r2 w2 where r2: "rr_url r2 = rr_url r" "rr_inv S F D r2" "rr_err r2 = None"
      "rr_loop W c True n r2 w2 = ((p, e), r', w')" by blast
    have "F = file' (w_String W (rr_url r2))" using assms(3) r2(1) by simp
    from rr_round [OF assms(1,2) this r2(2-4)] show ?thesis using r2(1) by (simp add: rr_post_def)
  qed
next
  case (Some x)
  then show ?thesis using assms(4,5) by (auto simp: rr_Read_def rr_post_def)
qed

lemma rr_reads_inv:
  assumes "body_laws W S" and "server_laws W S file'" and "F = file' (w_String W (rr_url r))" and "rr_inv S F D r"
    and "rr_reads W c ns r w = (os, r', w')"
  shows "rr_inv S F (D @ concat (map fst os)) r' \<and> (Some REOF \<in> snd ` set os \<longrightarrow> rr_err r' = Some REOF) \<and>
    (rr_err r \<noteq> None \<longrightarrow> rr_err r' = rr_err r)"
  using assms(3-5)
proof (induction ns arbitrary: r w D os)
  case (Cons n ns)
  obtain p e r1 w1 where rd: "rr_Read W c n r w = ((p, e), r1, w1)" by (metis prod_cases3 surj_pair)
  obtain os' where os: "os = (p, e) # os'" and rest: "rr_reads W c ns r1 w1 = (os', r', w')"
    using Cons.prems(3) rd by (auto split: prod.splits)
  have post: "rr_post S F D r p e r1" by (rule rr_Read_inv [OF assms(1,2) Cons.prems(1,2) rd])
  have st: "rr_err r \<noteq> None \<longrightarrow> rr_err r1 = rr_err r" using rd by (auto simp: rr_Read_def)
  have "rr_inv S F (D @ p) r1" "F = file' (w_String W (rr_url r1))" using post Cons.prems(1) by (simp_all add: rr_post_def)
  from Cons.IH [OF this(2,1) rest] show ?case using post st by (auto simp: os rr_post_def)
qed simp

text \<open>The server a file is read from is up and has said that it has the file.\<close>

definition has_staged :: "('r, 'w) web \<Rightarrow> RealClient \<Rightarrow> string \<Rightarrow> string \<Rightarrow> string \<Rightarrow> bool" where
  "has_staged W c bucket path dsURL \<longleftrightarrow> dsURL \<in> set (UpServerURLs c) \<and> (\<exists>w w'. checkStaged W c dsURL bucket path w = (None, w'))"

lemma staged_servers_ok:
  "staged_servers W c bucket path dsURLs w = (found, w') \<Longrightarrow> u \<in> set found \<Longrightarrow>
     u \<in> set dsURLs \<and> (\<exists>w w'. checkStaged W c u bucket path w = (None, w'))"
  by (induction dsURLs arbitrary: found w) (simp, fastforce split: prod.splits if_splits)

lemma findStaged_ok:
  assumes "server_laws W S file'" and "findStaged W c bucket path w = (Inr u, w')"
  shows "has_staged W c bucket path u"
proof -
  obtain found w1 where f: "staged_servers W c bucket path (UpServerURLs c) w = (found, w1)" by fastforce
  have "found \<noteq> []" and u: "u = found ! fst (w_Intn W (length found) w1)"
    using assms(2) f by (auto simp: findStaged_def split: prod.splits if_splits)
  then have "u \<in> set found" using assms(1) by (simp add: server_laws_def)
  then show ?thesis using staged_servers_ok [OF f] by (simp add: has_staged_def)
qed

lemma chooseServer_up: "UpServerURLs c \<noteq> [] \<Longrightarrow> chooseServer c gsURL \<in> set (UpServerURLs c)"
  unfolding chooseServer_def using hd_in_set length_sort_by set_sort_by by (metis length_0_conv)

lemma stage_from_static: "stage_from W u bucket path = Inr url \<Longrightarrow> staticURL W u bucket path = Inr url"
  by (simp add: stage_from_def split: sum.splits)

lemma Stage_ok:
  assumes "server_laws W S file'" and "RealClient_Stage W c gsURL w = (Inr url, w')"
  shows "\<exists>bucket path dsURL. ParseGSURL W gsURL = Inr (bucket, path) \<and> has_staged W c bucket path dsURL \<and>
    staticURL W dsURL bucket path = Inr url"
proof -
  obtain bucket path where ps: "ParseGSURL W gsURL = Inr (bucket, path)" and up: "UpServerURLs c \<noteq> []"
    using assms(2) by (auto simp: RealClient_Stage_def split: sum.splits if_splits)
  obtain f w1 where fs: "findStaged W c bucket path w = (f, w1)" by fastforce
  show ?thesis
  proof (cases f)
    case (Inr u)
    then show ?thesis using assms fs ps up findStaged_ok stage_from_static by (fastforce simp: RealClient_Stage_def)
  next
    case (Inl e)
    let ?u = "chooseServer c gsURL"
    obtain x w2 where st: "stage W c ?u bucket path w1 = (x, w2)" by fastforce
    obtain y w3 where ch: "checkStaged W c ?u bucket path w2 = (y, w3)" by fastforce
    have "x = None" "y = None" "stage_from W ?u bucket path = Inr url"
      using assms(2) fs ps up Inl st ch by (auto simp: RealClient_Stage_def Let_def split: if_splits option.splits)
    then show ?thesis using ps ch up chooseServer_up stage_from_static unfolding has_staged_def by blast
  qed
qed


text \<open>A devserver that has every file and breaks the first connection after five bytes.\<close>

definition parse_nat :: "string \<Rightarrow> nat" where
  "parse_nat s = foldl (\<lambda>a c. 10 * a + (of_char c - 48)) 0 s"

lemma parse_show: "parse_nat (show_nat n) = n"
proof (induction n rule: show_nat.induct)
  case (1 n)
  have d: "of_char (digit_char m) - 48 = m" if "m < 10" for m
    using that by (simp add: digit_char_def)
  show ?case
  proof (cases "n < 10")
    case True
    then show ?thesis using d [of n] by (simp add: parse_nat_def show_nat.simps [of n])
  next
    case False
    have "parse_nat (show_nat n) = 10 * parse_nat (show_nat (n div 10)) + (of_char (digit_char (n mod 10)) - 48)"
      using False by (simp add: parse_nat_def show_nat.simps [of n])
    then show ?thesis using 1 [OF False] d [of "n mod 10"] by simp
  qed
qed

type_synonym ex_body = "string \<times> nat option"

definition ex_file :: "string \<Rightarrow> string" where
  "ex_file url = (if ContainsStr url ''is_staged'' then ''True'' else ''hello world'')"

definition ex_range :: "(string \<times> string) list \<Rightarrow> nat" where
  "ex_range hs = (case map_of hs ''Range'' of None \<Rightarrow> 0 | Some v \<Rightarrow> parse_nat (drop 6 (butlast v)))"

definition ex_Do :: "request \<Rightarrow> unit \<Rightarrow> (string + ex_body response) \<times> unit" where
  "ex_Do req w =
     (let off = ex_range (q_Header req); content = ex_file (q_URL req)
      in (Inr (if off > length content then \<lparr>StatusCode = 416, Body = ([], None)\<rparr>
               else \<lparr>StatusCode = 200, Body = (drop off content, if off = 0 then Some 5 else None)\<rparr>), w))"

fun ex_Read :: "nat \<Rightarrow> ex_body \<Rightarrow> unit \<Rightarrow> (string \<times> rerr option) \<times> ex_body \<times> unit" where
  "ex_Read n (s, brk) w =
     (if brk = Some 0 then (([], Some RUnexpectedEOF), (s, brk), w)
      else if s = [] then (([], Some REOF), (s, brk), w)
      else
        let m = min (length s) (case brk of None \<Rightarrow> n | Some k \<Rightarrow> min n k)
        in ((take m s, None), (drop m s, map_option (\<lambda>k. k - m) brk), w))"

definition ex_web :: "(ex_body, unit) web" where
  "ex_web =
     \<lparr>w_NewRequest = (\<lambda>u. None), w_Do = ex_Do, w_Read = ex_Read, w_ReadAll = (\<lambda>r w. ((fst r, None), w)),
      w_Close = (\<lambda>r w. w),
      w_Parse = (\<lambda>s. Inr (if HasPrefix s ''gs:'' then \<lparr>u_Scheme = ''gs'', u_Host = ''b'', u_Path = ''/f'', u_RawQuery = [], u_other = []\<rparr>
                           else \<lparr>u_Scheme = ''http'', u_Host = ''d'', u_Path = [], u_RawQuery = [], u_other = []\<rparr>)),
      w_String = (\<lambda>u. u_Scheme u @ ''://'' @ u_Host u @ u_Path u @ ''?'' @ u_RawQuery u),
      w_PathUnescape = Inr, w_Encode = (\<lambda>kvs. Join (map (\<lambda>(k, v). k @ ''='' @ v) kvs) ''&''),
      w_Intn = (\<lambda>n w. (0, w)), w_Now = (\<lambda>w. (0, w)), w_Sleep = (\<lambda>d w. (None, w))\<rparr>"

definition ex_client :: RealClient where
  "ex_client =
     \<lparr>rc_servers = [\<lparr>sv_url = ''http://d'', sv_err = None\<rparr>], rc_stageRetryWaits = [], rc_swarmingTaskID = ''none'', rc_buildBucketID = ''none''\<rparr>"

definition ex_serves :: "string \<Rightarrow> nat \<Rightarrow> ex_body \<Rightarrow> bool" where
  "ex_serves content off r \<longleftrightarrow> off \<le> length content \<and> fst r = drop off content"

lemma ex_body_laws: "body_laws ex_web ex_serves"
  by (auto simp: body_laws_def ex_web_def ex_serves_def Let_def take_is_prefix min_def add.commute split: if_splits option.splits)

lemma ex_server_laws: "server_laws ex_web ex_serves ex_file"
proof -
  have "ex_range (hs @ range_header off) = off" if "''Range'' \<notin> fst ` set hs" for hs off
  proof -
    have "map_of hs ''Range'' = None" using that by (simp add: map_of_eq_None_iff)
    then show ?thesis by (simp add: ex_range_def range_header_def map_add_def butlast_append parse_show)
  qed
  then show ?thesis
    by (auto simp: server_laws_def ex_web_def ex_Do_def ex_serves_def Let_def StatusOK_def StatusPartialContent_def split: if_splits)
qed

definition ex_reader :: "ex_body resumingReader" where
  "ex_reader =
     \<lparr>rr_url = \<lparr>u_Scheme = ''http'', u_Host = ''d'', u_Path = ''/static/f'', u_RawQuery = ''gs_bucket=b'', u_other = []\<rparr>,
      rr_reader = (''hello world'', Some 5), rr_pos = 0, rr_err = None\<rparr>"

lemma ex_open: "RealClient_Open ex_web ex_client ''gs://b/f'' () = (Inr ex_reader, ())"
  by code_simp

lemma ex_reads:
  "fst (rr_reads ex_web ex_client [4, 4, 4, 20, 20] ex_reader ()) =
     [(''hell'', None), (''o'', None), ('' wor'', None), (''ld'', None), ([], Some REOF)]"
  by code_simp


end
