(* ===== verification/Minidump.thy ===== *)
theory Minidump
  imports Prelude "HOL-Library.Word"
begin

text \<open>
  Release information of crash dumps, \<open>cmd/tast/internal/symbolize/breakpad/minidump.go\<close>: the stream
  directory of a minidump file, the copy of \<open>/etc/lsb-release\<close> and the annotations of Crashpad.  An open
  file is its bytes with the position of the next read; \<open>f_Seek\<close> is the error of seeking to an offset.
  Sizes and offsets are 32-bit words as in the source, so that the sum of an offset wraps around.

  The code seeks and reads step by step; the last theorem says that it computes what a description of the
  format by absolute positions says, \<open>ref_info\<close>.
\<close>

subsection \<open>Files\<close>

type_synonym byte = "8 word"

record mdfile =
  f_data :: "byte list"
  f_pos :: nat
  f_Seek :: "nat \<Rightarrow> string option"

definition md_Seek :: "nat \<Rightarrow> mdfile \<Rightarrow> goerr option \<times> mdfile" where
  "md_Seek off f =
     (case f_Seek f off of Some e \<Rightarrow> (Some (Errorf e), f) | None \<Rightarrow> (None, f\<lparr>f_pos := off\<rparr>))"

text \<open>\<open>io.ReadFull\<close> and \<open>binary.Read\<close>.\<close>

definition ReadFull :: "nat \<Rightarrow> mdfile \<Rightarrow> byte list res \<times> mdfile" where
  "ReadFull n f =
     (let avail = drop (f_pos f) (f_data f) in
      if n \<le> length avail then (Inr (take n avail), f\<lparr>f_pos := f_pos f + n\<rparr>)
      else (Inl (Errorf (if avail = [] then ''EOF'' else ''unexpected EOF'')), f\<lparr>f_pos := f_pos f + length avail\<rparr>))"

fun le_nat :: "byte list \<Rightarrow> nat" where
  "le_nat [] = 0"
| "le_nat (b # bs) = unat b + 256 * le_nat bs"

definition le32 :: "byte list \<Rightarrow> 32 word" where
  "le32 bs = of_nat (le_nat bs)"

definition Read_uint32 :: "mdfile \<Rightarrow> 32 word res \<times> mdfile" where
  "Read_uint32 f = (case ReadFull 4 f of (Inl e, f') \<Rightarrow> (Inl e, f') | (Inr bs, f') \<Rightarrow> (Inr (le32 bs), f'))"

text \<open>A step that goes on if there is no error.\<close>

definition md_bind :: "'a res \<times> mdfile \<Rightarrow> ('a \<Rightarrow> mdfile \<Rightarrow> 'b res \<times> mdfile) \<Rightarrow> 'b res \<times> mdfile" where
  "md_bind m k = (case m of (Inl e, f) \<Rightarrow> (Inl e, f) | (Inr x, f) \<Rightarrow> k x f)"

definition at_offset :: "nat \<Rightarrow> (mdfile \<Rightarrow> 'b res \<times> mdfile) \<Rightarrow> mdfile \<Rightarrow> 'b res \<times> mdfile" where
  "at_offset off k f = (case md_Seek off f of (Some e, f') \<Rightarrow> (Inl e, f') | (None, f') \<Rightarrow> k f')"

subsection \<open>Streams\<close>

definition mdMagic :: "byte list" where
  "mdMagic = [0x4d, 0x44, 0x4d, 0x50]"

definition mdMaxStreams :: nat where
  "mdMaxStreams = 32"

definition mdReleaseStreamType :: "32 word" where
  "mdReleaseStreamType = 0x47670005"

definition mdCrashpadStreamType :: "32 word" where
  "mdCrashpadStreamType = 0x43500001"

text \<open>A file shorter than the magic leaves zeros in the buffer.\<close>

definition IsMinidump :: "mdfile \<Rightarrow> bool" where
  "IsMinidump f = (take 4 (drop (f_pos f) (f_data f) @ [0, 0, 0, 0]) = mdMagic)"

record mdStreamInfo =
  streamType :: "32 word"
  si_offset :: "32 word"
  si_size :: "32 word"

fun read_infos :: "nat \<Rightarrow> mdfile \<Rightarrow> mdStreamInfo list res \<times> mdfile" where
  "read_infos 0 f = (Inr [], f)"
| "read_infos (Suc n) f =
     md_bind (ReadFull 12 f) (\<lambda>b f1.
       md_bind (read_infos n f1) (\<lambda>infos f2.
         (Inr (\<lparr>streamType = le32 (take 4 b), si_offset = le32 (take 4 (drop 8 b)), si_size = le32 (take 4 (drop 4 b))\<rparr> # infos), f2)))"

definition readMinidumpStreamInfo :: "mdfile \<Rightarrow> mdStreamInfo list res \<times> mdfile" where
  "readMinidumpStreamInfo f =
     at_offset 0x8 (\<lambda>f1. md_bind (Read_uint32 f1) (\<lambda>numStreams f2.
       if unat numStreams > mdMaxStreams then (Inl (Errorf (''too many streams ('' @ show_nat (unat numStreams) @ '')'')), f2)
       else at_offset 0x20 (read_infos (unat numStreams)) f2)) f"

subsection \<open>Crashpad annotations\<close>

definition readMinidumpUTF8String :: "32 word \<Rightarrow> mdfile \<Rightarrow> byte list res \<times> mdfile" where
  "readMinidumpUTF8String off f =
     at_offset (unat off) (\<lambda>f1. md_bind (Read_uint32 f1) (\<lambda>len f2. ReadFull (unat len) f2)) f"

fun read_pairs :: "nat \<Rightarrow> mdfile \<Rightarrow> (32 word \<times> 32 word) list res \<times> mdfile" where
  "read_pairs 0 f = (Inr [], f)"
| "read_pairs (Suc n) f =
     md_bind (Read_uint32 f) (\<lambda>k f1. md_bind (Read_uint32 f1) (\<lambda>v f2.
       md_bind (read_pairs n f2) (\<lambda>kvs f3. (Inr ((k, v) # kvs), f3))))"

fun read_strings ::
  "(32 word \<times> 32 word) list \<Rightarrow> (byte list \<rightharpoonup> byte list) \<Rightarrow> mdfile \<Rightarrow> (byte list \<rightharpoonup> byte list) res \<times> mdfile" where
  "read_strings [] annotations f = (Inr annotations, f)"
| "read_strings ((ko, vo) # kvs) annotations f =
     md_bind (readMinidumpUTF8String ko f) (\<lambda>k f1. md_bind (readMinidumpUTF8String vo f1) (\<lambda>v f2.
       read_strings kvs (annotations(k \<mapsto> v)) f2))"

definition read_dictionary :: "32 word \<Rightarrow> mdfile \<Rightarrow> (byte list \<rightharpoonup> byte list) res \<times> mdfile" where
  "read_dictionary dictionaryOffset f =
     at_offset (unat dictionaryOffset) (\<lambda>f1. md_bind (Read_uint32 f1) (\<lambda>count f2.
       md_bind (read_pairs (unat count) f2) (\<lambda>kvs f3. read_strings kvs Map.empty f3))) f"

definition readCrashpadAnnotations :: "mdStreamInfo \<Rightarrow> mdfile \<Rightarrow> (byte list \<rightharpoonup> byte list) res \<times> mdfile" where
  "readCrashpadAnnotations crashpadInfo f =
     at_offset (unat (si_offset crashpadInfo + 0x28)) (\<lambda>f1. md_bind (Read_uint32 f1) read_dictionary) f"

subsection \<open>Release information\<close>

record MinidumpReleaseInfo =
  EtcLsbRelease :: "byte list"
  CrashpadAnnotations :: "(byte list \<rightharpoonup> byte list) option"

text \<open>The last stream of a type counts.\<close>

fun last_of_type :: "32 word \<Rightarrow> mdStreamInfo list \<Rightarrow> mdStreamInfo option \<Rightarrow> mdStreamInfo option" where
  "last_of_type t [] acc = acc"
| "last_of_type t (i # is) acc = last_of_type t is (if streamType i = t then Some i else acc)"

definition read_annotations :: "mdStreamInfo list \<Rightarrow> mdfile \<Rightarrow> (byte list \<rightharpoonup> byte list) option res \<times> mdfile" where
  "read_annotations infos f =
     (case last_of_type mdCrashpadStreamType infos None of
        None \<Rightarrow> (Inr None, f)
      | Some crashpadInfo \<Rightarrow> md_bind (readCrashpadAnnotations crashpadInfo f) (\<lambda>m f1. (Inr (Some m), f1)))"

definition read_release :: "mdStreamInfo list \<Rightarrow> mdfile \<Rightarrow> byte list res \<times> mdfile" where
  "read_release infos f =
     (case last_of_type mdReleaseStreamType infos None of
        None \<Rightarrow> (Inr [], f)
      | Some releaseInfo \<Rightarrow> at_offset (unat (si_offset releaseInfo)) (ReadFull (unat (si_size releaseInfo))) f)"

definition GetMinidumpReleaseInfo :: "mdfile \<Rightarrow> MinidumpReleaseInfo res \<times> mdfile" where
  "GetMinidumpReleaseInfo f =
     md_bind (readMinidumpStreamInfo f) (\<lambda>infos f1.
       md_bind (read_annotations infos f1) (\<lambda>annotations f2.
         md_bind (read_release infos f2) (\<lambda>lsb f3.
           (Inr \<lparr>EtcLsbRelease = lsb, CrashpadAnnotations = annotations\<rparr>, f3))))"

subsection \<open>The format by absolute positions\<close>

definition bytes_at :: "byte list \<Rightarrow> nat \<Rightarrow> nat \<Rightarrow> byte list option" where
  "bytes_at d off n = (if n \<le> length d - off then Some (take n (drop off d)) else None)"

definition u32_at :: "byte list \<Rightarrow> nat \<Rightarrow> 32 word option" where
  "u32_at d off = map_option le32 (bytes_at d off 4)"

definition both :: "'a option \<Rightarrow> 'b option \<Rightarrow> ('a \<times> 'b) option" where
  "both a b = Option.bind a (\<lambda>x. map_option (Pair x) b)"

definition info_at :: "byte list \<Rightarrow> nat \<Rightarrow> mdStreamInfo option" where
  "info_at d off =
     map_option (\<lambda>(t, sz, o'). \<lparr>streamType = t, si_offset = o', si_size = sz\<rparr>)
       (both (u32_at d off) (both (u32_at d (off + 4)) (u32_at d (off + 8))))"

definition ref_infos :: "byte list \<Rightarrow> mdStreamInfo list option" where
  "ref_infos d =
     Option.bind (u32_at d 0x8) (\<lambda>n.
       if unat n > 32 then None else those (map (\<lambda>i. info_at d (0x20 + 12 * i)) [0..<unat n]))"

definition string_at :: "byte list \<Rightarrow> 32 word \<Rightarrow> byte list option" where
  "string_at d off = Option.bind (u32_at d (unat off)) (\<lambda>n. bytes_at d (unat off + 4) (unat n))"

definition pair_at :: "byte list \<Rightarrow> nat \<Rightarrow> (32 word \<times> 32 word) option" where
  "pair_at d off = both (u32_at d off) (u32_at d (off + 4))"

definition strings_at :: "byte list \<Rightarrow> (32 word \<times> 32 word) list \<Rightarrow> (byte list \<times> byte list) list option" where
  "strings_at d kvs = those (map (\<lambda>(k, v). both (string_at d k) (string_at d v)) kvs)"

definition dictionary_at :: "byte list \<Rightarrow> nat \<Rightarrow> (byte list \<rightharpoonup> byte list) option" where
  "dictionary_at d off =
     Option.bind (u32_at d off) (\<lambda>count.
       Option.bind (those (map (\<lambda>i. pair_at d (off + 4 + 8 * i)) [0..<unat count])) (\<lambda>kvs.
         map_option (\<lambda>ss. map_of (rev ss)) (strings_at d kvs)))"

definition ref_annotations :: "byte list \<Rightarrow> nat \<Rightarrow> (byte list \<rightharpoonup> byte list) option" where
  "ref_annotations d off = Option.bind (u32_at d (off + 0x28)) (\<lambda>dict. dictionary_at d (unat dict))"

definition last_stream :: "32 word \<Rightarrow> mdStreamInfo list \<Rightarrow> mdStreamInfo option" where
  "last_stream t infos = (let is = filter (\<lambda>i. streamType i = t) infos in if is = [] then None else Some (last is))"

definition ref_info :: "byte list \<Rightarrow> MinidumpReleaseInfo option" where
  "ref_info d =
     Option.bind (ref_infos d) (\<lambda>infos.
       Option.bind (case last_stream mdCrashpadStreamType infos of
                      None \<Rightarrow> Some None | Some i \<Rightarrow> map_option Some (ref_annotations d (unat (si_offset i)))) (\<lambda>a.
         map_option (\<lambda>lsb. \<lparr>EtcLsbRelease = lsb, CrashpadAnnotations = a\<rparr>)
           (case last_stream mdReleaseStreamType infos of
              None \<Rightarrow> Some [] | Some i \<Rightarrow> bytes_at d (unat (si_offset i)) (unat (si_size i)))))"

subsection \<open>Reading step by step\<close>

text \<open>A run \<open>m\<close> on the file \<open>f\<close> gives the result \<open>r\<close> and ends at its position, or fails if \<open>r\<close> is none.\<close>

definition sim :: "mdfile \<Rightarrow> 'a res \<times> mdfile \<Rightarrow> ('a \<times> nat) option \<Rightarrow> bool" where
  "sim f m r =
     (case r of None \<Rightarrow> \<exists>e p. m = (Inl e, f\<lparr>f_pos := p\<rparr>) | Some (x, p) \<Rightarrow> m = (Inr x, f\<lparr>f_pos := p\<rparr>))"

abbreviation moved :: "mdfile \<Rightarrow> nat \<Rightarrow> mdfile" where
  "moved f p \<equiv> f\<lparr>f_pos := p\<rparr>"

definition seekable :: "mdfile \<Rightarrow> bool" where
  "seekable f \<longleftrightarrow> (\<forall>off. f_Seek f off = None)"

lemma seekable_moved [simp]: "seekable (moved f p) = seekable f"
  by (simp add: seekable_def)

lemma f_pos_moved: "moved (moved f p) q = moved f q"
  by simp

lemma sim_moved [simp]: "sim (moved f q) m r = sim f m r"
  by (simp add: sim_def split: option.split)

lemma sim_return: "sim f (Inr x, moved f p) (Some (x, p))"
  by (simp add: sim_def)

lemma at_offset_seekable: "seekable f \<Longrightarrow> at_offset off k f = k (moved f off)"
  by (simp add: at_offset_def md_Seek_def seekable_def)

lemma sim_bind:
  assumes "sim f m r" and "\<And>x p. r = Some (x, p) \<Longrightarrow> sim f (k x (moved f p)) (g x p)"
  shows "sim f (md_bind m k) (Option.bind r (\<lambda>(x, p). g x p))"
proof (cases r)
  case None
  then show ?thesis using assms(1) by (auto simp: sim_def md_bind_def)
next
  case (Some y)
  then obtain x p where r: "r = Some (x, p)" by (cases y) auto
  then have "m = (Inr x, moved f p)" using assms(1) by (simp add: sim_def)
  then show ?thesis using assms(2) [OF r] by (simp add: r md_bind_def)
qed

lemma sim_ReadFull: "sim f (ReadFull n (moved f p)) (map_option (\<lambda>bs. (bs, p + n)) (bytes_at (f_data f) p n))"
  by (auto simp: sim_def ReadFull_def bytes_at_def Let_def)

lemma sim_uint32: "sim f (Read_uint32 (moved f p)) (map_option (\<lambda>v. (v, p + 4)) (u32_at (f_data f) p))"
  using sim_ReadFull [of f 4 p] by (auto simp: Read_uint32_def u32_at_def sim_def split: option.splits)

lemma info_bytes:
  "info_at d off = map_option (\<lambda>b. \<lparr>streamType = le32 (take 4 b), si_offset = le32 (take 4 (drop 8 b)), si_size = le32 (take 4 (drop 4 b))\<rparr>)
     (bytes_at d off 12)"
  by (auto simp: info_at_def u32_at_def bytes_at_def both_def take_drop add.commute min_def)

lemma those_upt_Suc:
  "those (map h [0..<Suc n]) = Option.bind (h 0) (\<lambda>x. map_option ((#) x) (those (map (\<lambda>i. h (Suc i)) [0..<n])))"
proof -
  have "map h [0..<Suc n] = h 0 # map (\<lambda>i. h (Suc i)) [0..<n]"
    by (simp add: upt_conv_Cons map_Suc_upt [symmetric] del: upt_Suc)
  then show ?thesis by (simp add: map_option_case split: option.split)
qed

lemma sim_read_infos:
  "sim f (read_infos n (moved f p))
     (map_option (\<lambda>xs. (xs, p + 12 * n)) (those (map (\<lambda>i. info_at (f_data f) (p + 12 * i)) [0..<n])))"
proof (induction n arbitrary: p)
  case (Suc n)
  let ?d = "f_data f"
  show ?case
  proof (cases "bytes_at ?d p 12")
    case None
    then have "those (map (\<lambda>i. info_at ?d (p + 12 * i)) [0..<Suc n]) = None"
      by (simp add: those_upt_Suc info_bytes del: upt_Suc)
    then show ?thesis using sim_ReadFull [of f 12 p] None by (auto simp: sim_def md_bind_def)
  next
    case (Some b)
    have r: "ReadFull 12 (moved f p) = (Inr b, moved f (p + 12))"
      using sim_ReadFull [of f 12 p] Some by (simp add: sim_def)
    show ?thesis using Suc.IH [of "p + 12"] Some
      by (auto simp: r sim_def md_bind_def those_upt_Suc info_bytes add.assoc simp del: upt_Suc split: option.splits)
  qed
qed (simp add: sim_def)

text \<open>The result of a run without its position.\<close>

definition outcome :: "'a res \<times> mdfile \<Rightarrow> 'a option" where
  "outcome m = (case fst m of Inl e \<Rightarrow> None | Inr x \<Rightarrow> Some x)"

definition same_file :: "mdfile \<Rightarrow> 'a res \<times> mdfile \<Rightarrow> bool" where
  "same_file f m \<longleftrightarrow> (\<exists>p. snd m = moved f p)"

lemma sim_result: "sim f m (map_option (\<lambda>x. (x, g x)) r) \<Longrightarrow> outcome m = r \<and> same_file f m"
  by (cases r) (auto simp: sim_def outcome_def same_file_def)

lemma bind_result:
  assumes "same_file f m" and "\<And>x p. same_file f (k x (moved f p)) \<and> outcome (k x (moved f p)) = g x"
  shows "same_file f (md_bind m k) \<and> outcome (md_bind m k) = Option.bind (outcome m) g"
proof -
  obtain p where "snd m = moved f p" using assms(1) by (auto simp: same_file_def)
  then show ?thesis using assms(2) [of _ p]
    by (cases m; cases "fst m") (auto simp: md_bind_def outcome_def same_file_def)
qed

lemma bind_return:
  assumes "same_file f m"
  shows "same_file f (md_bind m (\<lambda>x f'. (Inr (h x), f'))) \<and> outcome (md_bind m (\<lambda>x f'. (Inr (h x), f'))) = map_option h (outcome m)"
  using assms by (cases m; cases "fst m") (auto simp: md_bind_def outcome_def same_file_def)

lemma bind_sim:
  assumes "sim f m (map_option (\<lambda>x. (x, h x)) r)"
    and "\<And>x. same_file f (k x (moved f (h x))) \<and> outcome (k x (moved f (h x))) = g x"
  shows "same_file f (md_bind m k) \<and> outcome (md_bind m k) = Option.bind r g"
  using assms(1) assms(2) by (cases r) (auto simp: sim_def md_bind_def outcome_def same_file_def)

lemma read_pairs_sim:
  "sim f (read_pairs n (moved f p))
     (map_option (\<lambda>xs. (xs, p + 8 * n)) (those (map (\<lambda>i. pair_at (f_data f) (p + 8 * i)) [0..<n])))"
proof (induction n arbitrary: p)
  case (Suc n)
  let ?d = "f_data f"
  have k: "Read_uint32 (moved f q) = (case u32_at ?d q of Some v \<Rightarrow> (Inr v, moved f (q + 4)) | None \<Rightarrow> Read_uint32 (moved f q))" for q
    using sim_uint32 [of f q] by (auto simp: sim_def split: option.splits)
  have e: "\<exists>x r. Read_uint32 (moved f q) = (Inl x, moved f r)" if "u32_at ?d q = None" for q
    using sim_uint32 [of f q] that by (simp add: sim_def)
  show ?case
  proof (cases "pair_at ?d p")
    case None
    then have n: "those (map (\<lambda>i. pair_at ?d (p + 8 * i)) [0..<Suc n]) = None" by (simp add: those_upt_Suc del: upt_Suc)
    have "\<exists>x r. read_pairs (Suc n) (moved f p) = (Inl x, moved f r)"
    proof (cases "u32_at ?d p")
      case None
      then show ?thesis using e [of p] by (auto simp: md_bind_def)
    next
      case (Some a)
      then have "u32_at ?d (p + 4) = None" using None by (auto simp: pair_at_def both_def)
      then show ?thesis using e [of "p + 4"] k [of p] Some by (auto simp: md_bind_def)
    qed
    then show ?thesis unfolding n by (simp add: sim_def)
  next
    case (Some kv)
    then obtain a b where ab: "u32_at ?d p = Some a" "u32_at ?d (p + 4) = Some b" "kv = (a, b)"
      by (auto simp: pair_at_def both_def split: option.splits bind_splits)
    have r: "Read_uint32 (moved f p) = (Inr a, moved f (p + 4))" "Read_uint32 (moved f (p + 4)) = (Inr b, moved f (p + 8))"
      using k [of p] k [of "p + 4"] ab by simp_all
    show ?thesis using Suc.IH [of "p + 8"] Some ab(3)
      by (auto simp: r sim_def md_bind_def those_upt_Suc add.assoc simp del: upt_Suc split: option.splits)
  qed
qed (simp add: sim_def)

lemma string_result:
  assumes "seekable f"
  shows "same_file f (readMinidumpUTF8String off (moved f q)) \<and>
    outcome (readMinidumpUTF8String off (moved f q)) = string_at (f_data f) off"
  unfolding readMinidumpUTF8String_def at_offset_seekable [OF seekable_moved [THEN iffD2, OF assms]] string_at_def
  using bind_sim [OF sim_uint32 [of f "unat off"], of "\<lambda>len f2. ReadFull (unat len) f2" "\<lambda>n. bytes_at (f_data f) (unat off + 4) (unat n)"]
    sim_result [OF sim_ReadFull] by simp

lemma string_bind:
  assumes "seekable f" and "\<And>x p. same_file f (k x (moved f p)) \<and> outcome (k x (moved f p)) = g x"
  shows "same_file f (md_bind (readMinidumpUTF8String off (moved f q)) k) \<and>
    outcome (md_bind (readMinidumpUTF8String off (moved f q)) k) = Option.bind (string_at (f_data f) off) g"
  using bind_result [of f "readMinidumpUTF8String off (moved f q)" k g] string_result [OF assms(1), of off q] assms(2) by simp

lemma strings_result:
  assumes "seekable f"
  shows "same_file f (read_strings kvs m (moved f p)) \<and>
    outcome (read_strings kvs m (moved f p)) = map_option (\<lambda>ss. m ++ map_of (rev ss)) (strings_at (f_data f) kvs)"
proof (induction kvs arbitrary: m p)
  case Nil
  then show ?case by (auto simp: strings_at_def outcome_def same_file_def)
next
  case (Cons kv kvs)
  obtain ko vo where kv: "kv = (ko, vo)" by fastforce
  let ?g = "\<lambda>k v. map_option (\<lambda>ss. m(k \<mapsto> v) ++ map_of (rev ss)) (strings_at (f_data f) kvs)"
  have "same_file f (read_strings (kv # kvs) m (moved f p)) \<and> outcome (read_strings (kv # kvs) m (moved f p)) =
      Option.bind (string_at (f_data f) ko) (\<lambda>k. Option.bind (string_at (f_data f) vo) (?g k))"
    unfolding kv read_strings.simps by (intro string_bind [OF assms] Cons.IH)
  moreover have "strings_at (f_data f) (kv # kvs) = Option.bind (string_at (f_data f) ko) (\<lambda>k.
      Option.bind (string_at (f_data f) vo) (\<lambda>v. map_option ((#) (k, v)) (strings_at (f_data f) kvs)))"
    by (cases "string_at (f_data f) ko"; cases "string_at (f_data f) vo") (simp_all add: strings_at_def kv both_def)
  ultimately show ?case
    by (cases "string_at (f_data f) ko"; cases "string_at (f_data f) vo"; cases "strings_at (f_data f) kvs") simp_all
qed

lemma dictionary_result:
  assumes "seekable f"
  shows "same_file f (read_dictionary dict (moved f q)) \<and>
    outcome (read_dictionary dict (moved f q)) = dictionary_at (f_data f) (unat dict)"
proof -
  have sk: "seekable (moved f q)" using assms by simp
  have st: "same_file f (read_strings kvs Map.empty (moved f p)) \<and>
      outcome (read_strings kvs Map.empty (moved f p)) = map_option (\<lambda>ss. map_of (rev ss)) (strings_at (f_data f) kvs)" for kvs p
    using strings_result [OF assms, of kvs Map.empty p] by simp
  show ?thesis
    unfolding read_dictionary_def dictionary_at_def at_offset_seekable [OF sk] f_pos_moved
    by (rule bind_sim [OF sim_uint32], rule bind_sim [OF read_pairs_sim], rule st)
qed

lemma annotations_result:
  assumes "seekable f" and "unat (si_offset i) + 0x28 < 2 ^ 32"
  shows "same_file f (readCrashpadAnnotations i (moved f q)) \<and>
    outcome (readCrashpadAnnotations i (moved f q)) = ref_annotations (f_data f) (unat (si_offset i))"
proof -
  have sk: "seekable (moved f q)" using assms(1) by simp
  have w: "unat (si_offset i + 0x28) = unat (si_offset i) + 0x28"
    using assms(2) by (subst unat_add_lem [THEN iffD1]) simp_all
  show ?thesis
    unfolding readCrashpadAnnotations_def ref_annotations_def at_offset_seekable [OF sk] f_pos_moved w
    by (rule bind_sim [OF sim_uint32], rule dictionary_result [OF assms(1)])
qed

lemma infos_result:
  assumes "seekable f"
  shows "same_file f (readMinidumpStreamInfo f) \<and> outcome (readMinidumpStreamInfo f) = ref_infos (f_data f)"
proof -
  have sk: "seekable (moved f p)" for p using assms by simp
  show ?thesis
    unfolding readMinidumpStreamInfo_def ref_infos_def at_offset_seekable [OF assms]
  proof (rule bind_sim [OF sim_uint32])
    fix n :: "32 word"
    show "same_file f (if mdMaxStreams < unat n then (Inl (Errorf (''too many streams ('' @ show_nat (unat n) @ '')'')), moved f (8 + 4))
        else at_offset 0x20 (read_infos (unat n)) (moved f (8 + 4))) \<and>
      outcome (if mdMaxStreams < unat n then (Inl (Errorf (''too many streams ('' @ show_nat (unat n) @ '')'')), moved f (8 + 4))
        else at_offset 0x20 (read_infos (unat n)) (moved f (8 + 4))) =
      (if 32 < unat n then None else those (map (\<lambda>i. info_at (f_data f) (0x20 + 12 * i)) [0..<unat n]))"
      using sim_result [OF sim_read_infos [of f "unat n" "0x20"]]
      by (auto simp: at_offset_seekable [OF sk] mdMaxStreams_def outcome_def same_file_def)
  qed
qed

lemma last_of_type_find: "last_of_type t is acc = (case last_stream t is of None \<Rightarrow> acc | Some i \<Rightarrow> Some i)"
  by (induction "is" arbitrary: acc) (auto simp: last_stream_def Let_def)

definition offsets_fit :: "byte list \<Rightarrow> bool" where
  "offsets_fit d \<longleftrightarrow>
     (\<forall>i \<in> set (case ref_infos d of None \<Rightarrow> [] | Some infos \<Rightarrow> infos).
        streamType i = mdCrashpadStreamType \<longrightarrow> unat (si_offset i) + 0x28 < 2 ^ 32)"

lemma read_annotations_result:
  assumes "seekable f" and "\<forall>i \<in> set infos. streamType i = mdCrashpadStreamType \<longrightarrow> unat (si_offset i) + 0x28 < 2 ^ 32"
  shows "same_file f (read_annotations infos (moved f q)) \<and> outcome (read_annotations infos (moved f q)) =
    (case last_stream mdCrashpadStreamType infos of
       None \<Rightarrow> Some None | Some i \<Rightarrow> map_option Some (ref_annotations (f_data f) (unat (si_offset i))))"
proof (cases "last_stream mdCrashpadStreamType infos")
  case None
  then show ?thesis by (auto simp: read_annotations_def last_of_type_find outcome_def same_file_def)
next
  case (Some i)
  then have "i \<in> set (filter (\<lambda>i. streamType i = mdCrashpadStreamType) infos)"
    by (auto simp: last_stream_def Let_def simp del: set_filter split: if_splits)
  then have "unat (si_offset i) + 0x28 < 2 ^ 32" using assms(2) by simp
  from annotations_result [OF assms(1) this, of q]
  show ?thesis using Some bind_return [of f "readCrashpadAnnotations i (moved f q)" Some]
    by (simp add: read_annotations_def last_of_type_find)
qed

lemma read_release_result:
  assumes "seekable f"
  shows "same_file f (read_release infos (moved f q)) \<and> outcome (read_release infos (moved f q)) =
    (case last_stream mdReleaseStreamType infos of
       None \<Rightarrow> Some [] | Some i \<Rightarrow> bytes_at (f_data f) (unat (si_offset i)) (unat (si_size i)))"
proof -
  have sk: "seekable (moved f q)" using assms by simp
  show ?thesis
    using sim_result [OF sim_ReadFull]
    by (auto simp: read_release_def last_of_type_find at_offset_seekable [OF sk] outcome_def same_file_def split: option.split)
qed

text \<open>C27: reading the release information of a crash dump seeks and reads exactly the positions that the format
  describes, for any contents of the file.  It fails if and only if a stream, a dictionary entry or a string is not
  completely in the file or there are more than 32 streams; otherwise it returns the text of the last release stream and
  the annotations of the last Crashpad stream, where the last of several values of a key counts.  The Crashpad
  stream must not begin in the last 40 bytes of the 32-bit address space, where the sum that finds its dictionary
  wraps around.\<close>

theorem minidump_by_positions:
  assumes "seekable f" and "offsets_fit (f_data f)"
  shows "outcome (GetMinidumpReleaseInfo f) = ref_info (f_data f)"
proof -
  let ?m = "readMinidumpStreamInfo f"
  obtain p where p: "snd ?m = moved f p" using infos_result [OF assms(1)] by (auto simp: same_file_def)
  have r: "outcome ?m = ref_infos (f_data f)" using infos_result [OF assms(1)] by simp
  show ?thesis
  proof (cases "ref_infos (f_data f)")
    case None
    then show ?thesis using r by (auto simp: GetMinidumpReleaseInfo_def ref_info_def md_bind_def outcome_def split: sum.splits prod.splits)
  next
    case (Some infos)
    then have fit: "\<forall>i \<in> set infos. streamType i = mdCrashpadStreamType \<longrightarrow> unat (si_offset i) + 0x28 < 2 ^ 32"
      using assms(2) by (simp add: offsets_fit_def)
    have m: "?m = (Inr infos, moved f p)" using r Some p by (cases ?m; cases "fst ?m") (auto simp: outcome_def)
    let ?a = "read_annotations infos (moved f p)"
    let ?k = "\<lambda>annotations f2. md_bind (read_release infos f2) (\<lambda>lsb f3. (Inr \<lparr>EtcLsbRelease = lsb, CrashpadAnnotations = annotations\<rparr>, f3))"
    have k: "same_file f (?k a (moved f q)) \<and> outcome (?k a (moved f q)) =
        map_option (\<lambda>lsb. \<lparr>EtcLsbRelease = lsb, CrashpadAnnotations = a\<rparr>) (outcome (read_release infos (moved f q)))" for a q
      using read_release_result [OF assms(1), of infos q] by (intro bind_return) simp
    have "outcome (md_bind ?a ?k) = Option.bind (outcome ?a) (\<lambda>a.
        map_option (\<lambda>lsb. \<lparr>EtcLsbRelease = lsb, CrashpadAnnotations = a\<rparr>)
           (case last_stream mdReleaseStreamType infos of
              None \<Rightarrow> Some [] | Some i \<Rightarrow> bytes_at (f_data f) (unat (si_offset i)) (unat (si_size i))))"
      by (rule bind_result [THEN conjunct2]) (use read_annotations_result [OF assms(1) fit] k read_release_result [OF assms(1)] in auto)
    then show ?thesis
      using read_annotations_result [OF assms(1) fit, of p] m Some by (simp add: GetMinidumpReleaseInfo_def md_bind_def ref_info_def)
  qed
qed

text \<open>A dump with a release stream of three bytes and one annotation.\<close>

definition ex_dump :: mdfile where
  "ex_dump = \<lparr>f_data =
     [77, 68, 77, 80, 0, 0, 0, 0, 2, 0, 0, 0, 0, 0, 0, 0, 0, 0, 0, 0, 0, 0, 0, 0, 0, 0, 0, 0, 0, 0, 0, 0, 5, 0, 103,
      71, 3, 0, 0, 0, 56, 0, 0, 0, 1, 0, 80, 67, 44, 0, 0, 0, 59, 0, 0, 0, 97, 61, 98, 0, 0, 0, 0, 0, 0, 0, 0, 0, 0,
      0, 0, 0, 0, 0, 0, 0, 0, 0, 0, 0, 0, 0, 0, 0, 0, 0, 0, 0, 0, 0, 0, 0, 0, 0, 0, 0, 0, 0, 0, 103, 0, 0, 0, 1, 0,
      0, 0, 115, 0, 0, 0, 120, 0, 0, 0, 1, 0, 0, 0, 107, 1, 0, 0, 0, 118],
    f_pos = 0, f_Seek = (\<lambda>off. None)\<rparr>"

lemma ex_dump_bytes:
  "length (f_data ex_dump) = 125"
  "take 3 (drop 56 (f_data ex_dump)) = [0x61, 0x3d, 0x62]"
  "drop 119 (f_data ex_dump) = [0x6b, 1, 0, 0, 0, 0x76]"
  "drop 124 (f_data ex_dump) = [0x76]"
  "take 4 (drop 8 (f_data ex_dump)) = [2, 0, 0, 0]"
  "take 4 (drop 32 (f_data ex_dump)) = [5, 0, 103, 71]"
  "take 4 (drop 36 (f_data ex_dump)) = [3, 0, 0, 0]"
  "take 4 (drop 40 (f_data ex_dump)) = [56, 0, 0, 0]"
  "take 4 (drop 44 (f_data ex_dump)) = [1, 0, 80, 67]"
  "take 4 (drop 48 (f_data ex_dump)) = [44, 0, 0, 0]"
  "take 4 (drop 52 (f_data ex_dump)) = [59, 0, 0, 0]"
  "take 4 (drop 99 (f_data ex_dump)) = [103, 0, 0, 0]"
  "take 4 (drop 103 (f_data ex_dump)) = [1, 0, 0, 0]"
  "take 4 (drop 107 (f_data ex_dump)) = [115, 0, 0, 0]"
  "take 4 (drop 111 (f_data ex_dump)) = [120, 0, 0, 0]"
  "take 4 (drop 115 (f_data ex_dump)) = [1, 0, 0, 0]"
  "take 4 (drop 120 (f_data ex_dump)) = [1, 0, 0, 0]"
  by (simp_all add: ex_dump_def)

lemma ex_dump_words:
  "u32_at (f_data ex_dump) 8 = Some 2"
  "u32_at (f_data ex_dump) 32 = Some 1197932549"
  "u32_at (f_data ex_dump) 36 = Some 3"
  "u32_at (f_data ex_dump) 40 = Some 56"
  "u32_at (f_data ex_dump) 44 = Some 1129316353"
  "u32_at (f_data ex_dump) 48 = Some 44"
  "u32_at (f_data ex_dump) 52 = Some 59"
  "u32_at (f_data ex_dump) 99 = Some 103"
  "u32_at (f_data ex_dump) 103 = Some 1"
  "u32_at (f_data ex_dump) 107 = Some 115"
  "u32_at (f_data ex_dump) 111 = Some 120"
  "u32_at (f_data ex_dump) 115 = Some 1"
  "u32_at (f_data ex_dump) 120 = Some 1"
  by (simp_all add: u32_at_def bytes_at_def ex_dump_bytes le32_def)

lemma ex_dump_infos:
  "ref_infos (f_data ex_dump) =
     Some [\<lparr>streamType = mdReleaseStreamType, si_offset = 56, si_size = 3\<rparr>,
           \<lparr>streamType = mdCrashpadStreamType, si_offset = 59, si_size = 44\<rparr>]"
  by (simp add: ref_infos_def info_at_def both_def ex_dump_words upt_rec mdReleaseStreamType_def mdCrashpadStreamType_def)

lemma ex_dump_strings:
  "string_at (f_data ex_dump) 115 = Some [0x6b]" "string_at (f_data ex_dump) 120 = Some [0x76]"
  by (simp_all add: string_at_def ex_dump_words bytes_at_def ex_dump_bytes)

lemma ex_dump_info:
  "ref_info (f_data ex_dump) = Some \<lparr>EtcLsbRelease = [0x61, 0x3d, 0x62], CrashpadAnnotations = Some [[0x6b] \<mapsto> [0x76]]\<rparr>"
  by (simp add: ref_info_def ex_dump_infos last_stream_def mdReleaseStreamType_def mdCrashpadStreamType_def ref_annotations_def
      dictionary_at_def ex_dump_words pair_at_def both_def strings_at_def ex_dump_strings bytes_at_def ex_dump_bytes upt_rec)

theorem minidump_by_positions_witness:
  "seekable ex_dump \<and> offsets_fit (f_data ex_dump) \<and>
   outcome (GetMinidumpReleaseInfo ex_dump) =
     Some \<lparr>EtcLsbRelease = [0x61, 0x3d, 0x62], CrashpadAnnotations = Some [[0x6b] \<mapsto> [0x76]]\<rparr>"
proof -
  have s: "seekable ex_dump" by (simp add: seekable_def ex_dump_def)
  have o: "offsets_fit (f_data ex_dump)"
    by (simp add: offsets_fit_def ex_dump_infos)
  show ?thesis using s o ex_dump_info unfolding minidump_by_positions [OF s o] by blast
qed

end
