(* ===== verification/Selection.thy ===== *)
theory Selection
  imports Logging Deps
begin

text \<open>
  Selecting tests by name patterns and attribute expressions, \<open>internal/testing/matcher.go\<close> and
  \<open>internal/expr\<close>, and the software features of a device, \<open>internal/crosbundle/software.go\<close>, whose
  definitions are such expressions.  The parser of Go expressions, the unquoting of literals and the
  tables of Unicode are the parameter \<open>goSyntax\<close>; an autotest capability is paired with whether its state is
  \<open>Yes\<close>.

  Patterns become regular expressions by replacing text; \<open>re_compile\<close> and \<open>re_match\<close> are the fragment of
  \<open>regexp\<close> that these replacements produce: anchored sequences of characters and \<open>.*\<close>, which does not match a
  newline.  Names and attributes are texts in UTF-8.  The theorem compares the matcher with \<open>glob_matches\<close>,
  which says what a wildcard means.
\<close>

subsection \<open>Regular expressions\<close>

datatype re_item = Lit char | AnyStar

definition meta_chars :: string where
  "meta_chars = [CHR 0x5C] @ ''.+*?()|[]{}^$''"

definition QuoteMeta :: "string \<Rightarrow> string" where
  "QuoteMeta s = concat (map (\<lambda>c. if c \<in> set meta_chars then [CHR 0x5C, c] else [c]) s)"

text \<open>\<open>strings.Replace\<close> of all occurrences of one character.\<close>

definition ReplaceChar :: "char \<Rightarrow> string \<Rightarrow> string \<Rightarrow> string" where
  "ReplaceChar old new s = concat (map (\<lambda>c. if c = old then new else [c]) s)"

fun re_items :: "string \<Rightarrow> re_item list option" where
  "re_items [] = Some []"
| "re_items (c # s) =
     (if c = CHR 0x5C then (case s of [] \<Rightarrow> None | d # s' \<Rightarrow> map_option ((#) (Lit d)) (re_items s'))
      else if c = CHR ''.'' then
        (case s of d # s' \<Rightarrow> if d = CHR ''*'' then map_option ((#) AnyStar) (re_items s') else None | [] \<Rightarrow> None)
      else if c \<in> set meta_chars then None
      else map_option ((#) (Lit c)) (re_items s))"

definition re_compile :: "string \<Rightarrow> re_item list option" where
  "re_compile s = (if HasPrefix s ''^'' \<and> HasSuffix s ''$'' then re_items (tl (butlast s)) else None)"

function re_match :: "re_item list \<Rightarrow> string \<Rightarrow> bool" where
  "re_match [] s = (s = [])"
| "re_match (Lit c # r) s = (case s of [] \<Rightarrow> False | d # s' \<Rightarrow> c = d \<and> re_match r s')"
| "re_match (AnyStar # r) s =
     (re_match r s \<or> (case s of [] \<Rightarrow> False | d # s' \<Rightarrow> d \<noteq> CHR 0x0A \<and> re_match (AnyStar # r) s'))"
  by pat_completeness auto
termination
  by (relation "measure (\<lambda>(r, s). length r + length s)") auto

subsection \<open>Attribute expressions\<close>

datatype op = LAND | LOR | NOT | OtherOp string

datatype lit_kind = STRING | OtherKind

datatype ast =
    BinaryExpr op ast ast
  | ParenExpr ast
  | UnaryExpr op ast
  | Ident string
  | BasicLit lit_kind string
  | OtherNode string

record goSyntax =
  x_Parse :: "string \<Rightarrow> string + ast"
  x_Unquote :: "string \<Rightarrow> string option"
  x_letter :: "string \<Rightarrow> bool"

fun op_String :: "op \<Rightarrow> string" where
  "op_String LAND = ''&&''"
| "op_String LOR = ''||''"
| "op_String NOT = ''!''"
| "op_String (OtherOp s) = s"

text \<open>The error that walking the tree with the validator leaves: the first one in preorder.\<close>

fun visit_err :: "ast \<Rightarrow> string option" where
  "visit_err (BinaryExpr o' x y) =
     (if o' \<noteq> LAND \<and> o' \<noteq> LOR then Some (''invalid binary operator '' @ Quote (op_String o'))
      else case visit_err x of Some e \<Rightarrow> Some e | None \<Rightarrow> visit_err y)"
| "visit_err (ParenExpr x) = visit_err x"
| "visit_err (UnaryExpr o' x) =
     (if o' \<noteq> NOT then Some (''invalid unary operator '' @ Quote (op_String o')) else visit_err x)"
| "visit_err (Ident n) = None"
| "visit_err (BasicLit k v) = (if k \<noteq> STRING then Some (''non-string literal '' @ Quote v) else None)"
| "visit_err (OtherNode t) = Some (''invalid node of type '' @ t)"

definition expr_New :: "goSyntax \<Rightarrow> string \<Rightarrow> string + ast" where
  "expr_New X s =
     (case x_Parse X s of
        Inl e \<Rightarrow> Inl e
      | Inr root \<Rightarrow> (case visit_err root of Some e \<Rightarrow> Inl e | None \<Rightarrow> Inr root))"

text \<open>The quoting only adds ASCII characters, so that the expression does not compile exactly if the wanted
  attribute is not valid UTF-8.\<close>

definition hasAttr :: "string list \<Rightarrow> string \<Rightarrow> bool" where
  "hasAttr attrs want =
     (if \<not> ContainsStr want ''*'' then want \<in> set attrs
      else
        let w1 = ReplaceChar (CHR ''*'') [CHR 0x00] want;
            w2 = QuoteMeta w1;
            w3 = ReplaceChar (CHR 0x00) ''.*'' w2
        in case (if valid_utf8 want then re_compile (''^'' @ w3 @ ''$'') else None) of
             None \<Rightarrow> False
           | Some re \<Rightarrow> list_ex (re_match re) attrs)"

fun exprTrue :: "goSyntax \<Rightarrow> ast \<Rightarrow> string list \<Rightarrow> bool" where
  "exprTrue X (BinaryExpr o' x y) attrs =
     (case o' of
        LAND \<Rightarrow> exprTrue X x attrs \<and> exprTrue X y attrs
      | LOR \<Rightarrow> exprTrue X x attrs \<or> exprTrue X y attrs
      | _ \<Rightarrow> False)"
| "exprTrue X (ParenExpr x) attrs = exprTrue X x attrs"
| "exprTrue X (UnaryExpr o' x) attrs = (case o' of NOT \<Rightarrow> \<not> exprTrue X x attrs | _ \<Rightarrow> False)"
| "exprTrue X (Ident n) attrs = hasAttr attrs n"
| "exprTrue X (BasicLit k v) attrs =
     (case k of STRING \<Rightarrow> (case x_Unquote X v of None \<Rightarrow> False | Some str \<Rightarrow> hasAttr attrs str) | _ \<Rightarrow> False)"
| "exprTrue X (OtherNode t) attrs = False"

definition expr_Matches :: "goSyntax \<Rightarrow> ast \<Rightarrow> string list \<Rightarrow> bool" where
  "expr_Matches X e attrs = exprTrue X e attrs"

subsection \<open>Matchers\<close>

record Matcher =
  m_names :: "string list"
  m_globs :: "(string \<times> re_item list) list"
  m_exprs :: "ast list"

text \<open>\<open>%q\<close> of a printable character; a byte that starts none is read as the replacement character.\<close>

definition QuoteRune :: "string \<Rightarrow> string" where
  "QuoteRune ch =
     CHR 0x27 # (if ch = [] then [CHR 0xEF, CHR 0xBF, CHR 0xBD]
                 else if ch = [CHR 0x27] \<or> ch = [CHR 0x5C] then CHR 0x5C # ch else ch) @ [CHR 0x27]"

text \<open>The loop over the characters of a pattern, with the flag for wildcards.\<close>

function validate_loop :: "goSyntax \<Rightarrow> string \<Rightarrow> string \<Rightarrow> bool \<Rightarrow> string + bool" where
  "validate_loop X glob [] hasWildcard = Inr hasWildcard"
| "validate_loop X glob (c # s) hasWildcard =
     (let n = utf8_len (c # s); ch = take n (c # s) in
      if c = CHR ''*'' then validate_loop X glob s True
      else if n > 0 \<and> x_letter X ch \<or> c = CHR ''.'' \<or> c = CHR ''_'' then validate_loop X glob (drop (max 1 n) (c # s)) hasWildcard
      else Inl (''invalid character '' @ QuoteRune ch @ '' in pattern '' @ Quote glob))"
  by pat_completeness auto
termination
  by (relation "measure (\<lambda>(X, glob, s, w). length s)") auto

declare validate_loop.simps(2) [simp del]

definition ValidateGlob :: "goSyntax \<Rightarrow> string \<Rightarrow> string + bool" where
  "ValidateGlob X glob = validate_loop X glob glob False"

definition compileGlob :: "string \<Rightarrow> re_item list option" where
  "compileGlob glob =
     (let g1 = ReplaceChar (CHR ''.'') [CHR 0x5C, CHR ''.''] glob;
          g2 = ReplaceChar (CHR ''*'') ''.*'' g1
      in re_compile (''^'' @ g2 @ ''$''))"

definition NewTestGlobRegexp :: "goSyntax \<Rightarrow> string \<Rightarrow> string + re_item list" where
  "NewTestGlobRegexp X glob =
     (case ValidateGlob X glob of
        Inl e \<Rightarrow> Inl e
      | Inr w \<Rightarrow> (case compileGlob glob of None \<Rightarrow> Inl ''error parsing regexp'' | Some re \<Rightarrow> Inr re))"

fun compile_pats :: "goSyntax \<Rightarrow> string list \<Rightarrow> Matcher \<Rightarrow> string + Matcher" where
  "compile_pats X [] m = Inr m"
| "compile_pats X (pat # pats) m =
     (case ValidateGlob X pat of
        Inl e \<Rightarrow> Inl e
      | Inr hasWildcard \<Rightarrow>
          if hasWildcard then
            (case compileGlob pat of
               None \<Rightarrow> Inl ''error parsing regexp''
             | Some glob \<Rightarrow> compile_pats X pats (m\<lparr>m_globs := (pat, glob) # filter (\<lambda>(p, g). p \<noteq> pat) (m_globs m)\<rparr>))
          else compile_pats X pats (m\<lparr>m_names := List.insert pat (m_names m)\<rparr>))"

definition compileGlobs :: "goSyntax \<Rightarrow> string list \<Rightarrow> string + Matcher" where
  "compileGlobs X pats =
     (let pats' = (if pats = [] then [''*''] else pats) in
      if length pats' = 1 \<and> (ContainsStr (hd pats') ''&&'' \<or> ContainsStr (hd pats') ''||'')
      then Inl (''attr expr '' @ Quote (hd pats') @ '' must be within parentheses'')
      else compile_pats X pats' \<lparr>m_names = [], m_globs = [], m_exprs = []\<rparr>)"

definition compileExpr :: "goSyntax \<Rightarrow> string \<Rightarrow> string + Matcher" where
  "compileExpr X s =
     (case expr_New X s of
        Inl e \<Rightarrow> Inl (''bad expr: '' @ e)
      | Inr e \<Rightarrow> Inr \<lparr>m_names = [], m_globs = [], m_exprs = [e]\<rparr>)"

definition is_attr_expr :: "string list \<Rightarrow> bool" where
  "is_attr_expr pats \<longleftrightarrow> length pats = 1 \<and> HasPrefix (hd pats) ''('' \<and> HasSuffix (hd pats) '')''"

definition NewMatcher :: "goSyntax \<Rightarrow> string list \<Rightarrow> string + Matcher" where
  "NewMatcher X pats = (if is_attr_expr pats then compileExpr X (tl (butlast (hd pats))) else compileGlobs X pats)"

definition Matcher_Match :: "goSyntax \<Rightarrow> Matcher \<Rightarrow> string \<Rightarrow> string list \<Rightarrow> bool" where
  "Matcher_Match X m name attrs \<longleftrightarrow>
     name \<in> set (m_names m) \<or> list_ex (\<lambda>(p, g). re_match g name) (m_globs m) \<or> list_ex (\<lambda>e. expr_Matches X e attrs) (m_exprs m)"

definition UnmatchedPatterns :: "Matcher \<Rightarrow> string list \<Rightarrow> string list" where
  "UnmatchedPatterns m tests =
     (if m_exprs m \<noteq> [] then []
      else
        let matched = map fst (filter (\<lambda>(k, g). list_ex (re_match g) tests) (m_globs m)) @ filter (\<lambda>t. t \<in> set (m_names m)) tests
        in sort (filter (\<lambda>k. k \<notin> set matched) (map fst (m_globs m)) @ filter (\<lambda>n. n \<notin> set matched) (m_names m)))"

subsection \<open>Software features\<close>

definition autotestCapPrefix :: string where
  "autotestCapPrefix = ''autotest-capability:''"

fun feature_defs ::
  "goSyntax \<Rightarrow> string list \<Rightarrow> (string \<times> string) list \<Rightarrow> string list \<times> string list \<Rightarrow> string + string list \<times> string list" where
  "feature_defs X useFlags [] r = Inr r"
| "feature_defs X useFlags ((ft, es) # defs) (av, un) =
     (if HasPrefix ft autotestCapPrefix
      then Inl (''feature '' @ Quote ft @ '' has reserved prefix '' @ Quote autotestCapPrefix)
      else case expr_New X es of
        Inl e \<Rightarrow> Inl (''failed to parse '' @ Quote ft @ '' feature expression '' @ Quote es @ '': '' @ e)
      | Inr ex \<Rightarrow>
          feature_defs X useFlags defs
            (if expr_Matches X ex useFlags then (av @ [ft], un) else (av, un @ [ft])))"

definition determineSoftwareFeatures ::
  "goSyntax \<Rightarrow> (string \<times> string) list \<Rightarrow> string list \<Rightarrow> (string \<times> bool) list \<Rightarrow> string + SoftwareFeatures" where
  "determineSoftwareFeatures X definitions useFlags autotestCaps =
     (case feature_defs X useFlags definitions ([], []) of
        Inl e \<Rightarrow> Inl e
      | Inr (av, un) \<Rightarrow>
          Inr \<lparr>Available = sort (av @ map (\<lambda>(n, yes). autotestCapPrefix @ n) (filter snd autotestCaps)),
               Unavailable = sort (un @ map (\<lambda>(n, yes). autotestCapPrefix @ n) (filter (\<lambda>c. \<not> snd c) autotestCaps))\<rparr>)"

subsection \<open>What a pattern means\<close>

inductive glob_matches :: "string \<Rightarrow> string \<Rightarrow> bool" where
  "glob_matches [] []"
| "c \<noteq> CHR ''*'' \<Longrightarrow> glob_matches p s \<Longrightarrow> glob_matches (c # p) (c # s)"
| "CHR 0x0A \<notin> set u \<Longrightarrow> glob_matches p s \<Longrightarrow> glob_matches (CHR ''*'' # p) (u @ s)"

inductive_cases glob_NilE: "glob_matches [] s"
inductive_cases glob_ConsE: "glob_matches (c # p) s"

text \<open>An attribute pattern with a zero byte: the source uses this byte for the wildcard while it quotes.\<close>

definition attr_matches :: "string \<Rightarrow> string \<Rightarrow> bool" where
  "attr_matches want x \<longleftrightarrow>
     (if CHR ''*'' \<notin> set want then x = want
      else valid_utf8 want \<and> glob_matches (map (\<lambda>c. if c = CHR 0x00 then CHR ''*'' else c) want) x)"

fun holds :: "goSyntax \<Rightarrow> string set \<Rightarrow> ast \<Rightarrow> bool" where
  "holds X A (BinaryExpr LAND x y) \<longleftrightarrow> holds X A x \<and> holds X A y"
| "holds X A (BinaryExpr LOR x y) \<longleftrightarrow> holds X A x \<or> holds X A y"
| "holds X A (UnaryExpr NOT x) \<longleftrightarrow> \<not> holds X A x"
| "holds X A (ParenExpr x) \<longleftrightarrow> holds X A x"
| "holds X A (Ident n) \<longleftrightarrow> (\<exists>x\<in>A. attr_matches n x)"
| "holds X A (BasicLit STRING v) \<longleftrightarrow> (\<exists>n. x_Unquote X v = Some n \<and> (\<exists>x\<in>A. attr_matches n x))"
| "holds X A e \<longleftrightarrow> False"

definition selected :: "goSyntax \<Rightarrow> string list \<Rightarrow> string \<Rightarrow> string list \<Rightarrow> bool" where
  "selected X pats name attrs \<longleftrightarrow>
     (if is_attr_expr pats then \<exists>e. x_Parse X (tl (butlast (hd pats))) = Inr e \<and> holds X (set attrs) e
      else \<exists>pat\<in>set (if pats = [] then [''*''] else pats). glob_matches pat name)"

subsection \<open>Compiled patterns\<close>

definition item_of :: "char \<Rightarrow> re_item" where
  "item_of c = (if c = CHR ''*'' then AnyStar else Lit c)"

lemma re_match_star: "re_match (AnyStar # r) s \<longleftrightarrow> (\<exists>u v. s = u @ v \<and> CHR 0x0A \<notin> set u \<and> re_match r v)"
proof (induction s)
  case (Cons d s)
  show ?case
  proof
    assume "re_match (AnyStar # r) (d # s)"
    then consider "re_match r (d # s)" | "d \<noteq> CHR 0x0A" "re_match (AnyStar # r) s" by auto
    then show "\<exists>u v. d # s = u @ v \<and> CHR 0x0A \<notin> set u \<and> re_match r v"
    proof cases
      case 1
      then show ?thesis by (intro exI [of _ "[]"] exI [of _ "d # s"]) simp
    next
      case 2
      then obtain u v where "s = u @ v" "CHR 0x0A \<notin> set u" "re_match r v" using Cons.IH by blast
      then show ?thesis using 2(1) by (intro exI [of _ "d # u"] exI [of _ v]) simp
    qed
  next
    assume "\<exists>u v. d # s = u @ v \<and> CHR 0x0A \<notin> set u \<and> re_match r v"
    then obtain u v where u: "d # s = u @ v" "CHR 0x0A \<notin> set u" "re_match r v" by blast
    show "re_match (AnyStar # r) (d # s)"
    proof (cases u)
      case (Cons e u')
      then have "re_match (AnyStar # r) s" "d \<noteq> CHR 0x0A" using u Cons.IH by auto
      then show ?thesis by simp
    qed (use u in simp)
  qed
qed simp

lemma re_match_glob: "re_match (map item_of p) s \<longleftrightarrow> glob_matches p s"
proof (induction p arbitrary: s)
  case Nil
  then show ?case by (auto intro: glob_matches.intros elim: glob_NilE)
next
  case (Cons c p)
  show ?case
  proof (cases "c = CHR ''*''")
    case True
    then show ?thesis
      using Cons.IH by (simp add: item_of_def re_match_star del: re_match.simps(3)) (auto intro: glob_matches.intros elim!: glob_ConsE)
  next
    case False
    then show ?thesis using Cons.IH
      by (auto simp: item_of_def intro: glob_matches.intros elim!: glob_ConsE split: list.splits)
  qed
qed

text \<open>A quoted text is parsed one character at a time.\<close>

definition quotes :: "string \<Rightarrow> re_item \<Rightarrow> bool" where
  "quotes q i \<longleftrightarrow> q = ''.*'' \<and> i = AnyStar \<or> (\<exists>c. i = Lit c \<and> (q = [CHR 0x5C, c] \<or> q = [c] \<and> c \<notin> set meta_chars))"

lemma re_items_append: "quotes q i \<Longrightarrow> re_items (q @ s) = map_option ((#) i) (re_items s)"
  by (auto simp: quotes_def meta_chars_def)

lemma re_items_map: "\<forall>c\<in>set s. quotes (f c) (g c) \<Longrightarrow> re_items (concat (map f s)) = Some (map g s)"
proof (induction s)
  case (Cons c s)
  then show ?case using re_items_append [of "f c" "g c" "concat (map f s)"] by simp
qed simp

lemma ReplaceChar_concat: "ReplaceChar old new (concat (map f s)) = concat (map (\<lambda>c. ReplaceChar old new (f c)) s)"
  by (induction s) (simp_all add: ReplaceChar_def)

lemma QuoteMeta_concat: "QuoteMeta (concat (map f s)) = concat (map (\<lambda>c. QuoteMeta (f c)) s)"
  by (induction s) (simp_all add: QuoteMeta_def)

lemma ReplaceChar_map: "ReplaceChar old new s = concat (map (\<lambda>c. ReplaceChar old new [c]) s)"
  by (simp add: ReplaceChar_def)

lemma re_compile_anchored: "re_compile (''^'' @ s @ ''$'') = re_items s"
  by (simp add: re_compile_def HasPrefix_def HasSuffix_def butlast_append)

lemma ContainsStr_char: "ContainsStr s [c] \<longleftrightarrow> c \<in> set s"
  by (induction s) (auto simp: HasPrefix_def)

lemma compileGlob_items:
  assumes "\<forall>c\<in>set glob. c \<in> {CHR ''.'', CHR ''*''} \<or> c \<notin> set meta_chars"
  shows "compileGlob glob = Some (map item_of glob)"
proof -
  let ?f = "\<lambda>c. ReplaceChar (CHR ''*'') ''.*'' (ReplaceChar (CHR ''.'') [CHR 0x5C, CHR ''.''] [c])"
  have "quotes (?f c) (item_of c)" if c: "c \<in> set glob" for c
  proof (cases "c \<in> {CHR ''.'', CHR ''*''}")
    case False
    then have "c \<notin> set meta_chars" using assms c by blast
    then show ?thesis using False by (simp add: quotes_def item_of_def ReplaceChar_def)
  qed (auto simp: quotes_def item_of_def ReplaceChar_def)
  then have "re_items (concat (map ?f glob)) = Some (map item_of glob)" by (intro re_items_map) blast
  then show ?thesis
    unfolding compileGlob_def Let_def re_compile_anchored ReplaceChar_map [of "CHR ''.''" _ glob] ReplaceChar_concat by simp
qed

lemma hasAttr_matches: "hasAttr attrs want \<longleftrightarrow> (\<exists>x\<in>set attrs. attr_matches want x)"
proof (cases "CHR ''*'' \<in> set want")
  case True
  let ?z = "\<lambda>c. if c = CHR 0x00 then CHR ''*'' else c"
  let ?f = "\<lambda>c. ReplaceChar (CHR 0x00) ''.*'' (QuoteMeta (ReplaceChar (CHR ''*'') [CHR 0x00] [c]))"
  have "quotes (?f c) (item_of (?z c))" for c
    by (auto simp: quotes_def item_of_def ReplaceChar_def QuoteMeta_def meta_chars_def)
  then have "re_items (concat (map ?f want)) = Some (map item_of (map ?z want))" by (simp add: re_items_map)
  then have "re_compile (''^'' @ ReplaceChar (CHR 0x00) ''.*'' (QuoteMeta (ReplaceChar (CHR ''*'') [CHR 0x00] want)) @ ''$'') =
      Some (map item_of (map ?z want))"
    unfolding re_compile_anchored ReplaceChar_map [of "CHR ''*''" _ want] ReplaceChar_concat QuoteMeta_concat .
  then have "hasAttr attrs want \<longleftrightarrow> valid_utf8 want \<and> list_ex (re_match (map item_of (map ?z want))) attrs"
    unfolding hasAttr_def Let_def ContainsStr_char using True by (cases "valid_utf8 want") (simp_all only: simp_thms if_True if_False option.case)
  then show ?thesis using True
    unfolding attr_matches_def re_match_glob list_ex_iff by simp
qed (auto simp: hasAttr_def ContainsStr_char attr_matches_def)

lemma exprTrue_holds: "exprTrue X e attrs \<longleftrightarrow> holds X (set attrs) e"
proof (induction e)
  case (BinaryExpr o' x y)
  then show ?case by (cases o') simp_all
next
  case (UnaryExpr o' x)
  then show ?case by (cases o') simp_all
next
  case (BasicLit k v)
  then show ?case by (cases k) (auto simp: hasAttr_matches split: option.splits)
qed (simp_all add: hasAttr_matches)


subsection \<open>Validated patterns\<close>

text \<open>Among the characters of one byte, the letters and digits are those of ASCII.\<close>

definition alnum :: string where
  "alnum = ''ABCDEFGHIJKLMNOPQRSTUVWXYZabcdefghijklmnopqrstuvwxyz0123456789''"

definition letter_laws :: "goSyntax \<Rightarrow> bool" where
  "letter_laws X \<longleftrightarrow> (\<forall>c. byte c < 128 \<longrightarrow> x_letter X [c] = (c \<in> set alnum))"

definition pat_char :: "char \<Rightarrow> bool" where
  "pat_char c \<longleftrightarrow> c \<in> {CHR ''.'', CHR ''*''} \<or> c \<notin> set meta_chars"

lemma alnum_not_meta: "c \<in> set alnum \<Longrightarrow> c \<notin> set meta_chars"
proof -
  have "list_all (\<lambda>c. c \<notin> set meta_chars) alnum" by code_simp
  then show "c \<in> set alnum \<Longrightarrow> c \<notin> set meta_chars" by (simp add: list_all_iff)
qed

lemma meta_ascii: "c \<in> set meta_chars \<Longrightarrow> byte c < 128"
proof -
  have "list_all (\<lambda>c. byte c < 128) meta_chars" by code_simp
  then show "c \<in> set meta_chars \<Longrightarrow> byte c < 128" by (simp add: list_all_iff)
qed

lemma lead_wide: "lead b = (n, lo, hi) \<Longrightarrow> 1 < n \<Longrightarrow> 128 \<le> b \<and> 128 \<le> lo"
  by (auto simp: lead_def split: if_splits)

lemma utf8_one: "utf8_len (c # s) = 1 \<Longrightarrow> byte c < 128"
  by (auto simp: utf8_len.simps lead_def split: if_splits)

lemma utf8_wide:
  assumes "1 < utf8_len (c # s)" and "d \<in> set (take (utf8_len (c # s)) (c # s))"
  shows "128 \<le> byte d"
proof -
  obtain n lo hi where l: "lead (byte c) = (n, lo, hi)" by (metis prod_cases3)
  have n: "utf8_len (c # s) = n" "1 < n" and ok: "n - 1 \<le> length s" "cont lo hi (hd s)" "list_all (cont 128 191) (take (n - 2) (tl s))"
    using assms(1) l by (auto simp: utf8_len.simps split: if_splits)
  then obtain e t where s: "s = e # t" by (cases s) auto
  obtain k where k: "n = Suc (Suc k)" using n(2) by (metis less_imp_Suc_add add_Suc_right plus_1_eq_Suc)
  have "d \<in> {c, e} \<union> set (take k t)" using assms(2) [unfolded n(1) k] s by auto
  then show ?thesis using lead_wide [OF l n(2)] ok unfolding s k by (auto simp: cont_def list_all_iff)
qed

lemma first_char:
  assumes "letter_laws X" and "0 < utf8_len (c # s)" and "x_letter X (take (utf8_len (c # s)) (c # s))"
    and "d \<in> set (take (utf8_len (c # s)) (c # s))"
  shows "d \<notin> set meta_chars"
proof (cases "utf8_len (c # s) = 1")
  case True
  then have "c \<in> set alnum" using assms utf8_one [OF True] by (simp add: letter_laws_def)
  then show ?thesis using assms(4) True alnum_not_meta by simp
next
  case False
  then have "1 < utf8_len (c # s)" using assms(2) by simp
  then show ?thesis using utf8_wide [OF _ assms(4)] meta_ascii by fastforce
qed

lemma validate_loop_ok:
  "validate_loop X glob s w = Inr w' \<Longrightarrow> letter_laws X \<Longrightarrow> list_all pat_char s \<and> w' = (w \<or> CHR ''*'' \<in> set s)"
proof (induction X glob s w rule: validate_loop.induct)
  case (2 X glob c s w)
  define n where "n = utf8_len (c # s)"
  consider "c = CHR ''*''"
    | "c \<noteq> CHR ''*''" "n > 0 \<and> x_letter X (take n (c # s)) \<or> c = CHR ''.'' \<or> c = CHR ''_''"
    using "2.prems"(1) by (auto simp: validate_loop.simps(2) Let_def n_def split: if_splits)
  then show ?case
  proof cases
    case 1
    then have "list_all pat_char s \<and> w' = (True \<or> CHR ''*'' \<in> set s)"
      using "2.prems" by (intro "2.IH"(1) [OF refl refl]) (simp_all add: validate_loop.simps(2))
    then show ?thesis using 1 pat_char_def [of c] by simp
  next
    case 2
    have rest: "list_all pat_char (drop (max 1 n) (c # s)) \<and> w' = (w \<or> CHR ''*'' \<in> set (drop (max 1 n) (c # s)))"
      using "2.prems" 2 unfolding n_def
      by (intro "2.IH"(2) [OF refl refl]) (simp_all add: validate_loop.simps(2) Let_def)
    have "pat_char d \<and> d \<noteq> CHR ''*''" if d: "d \<in> set (take (max 1 n) (c # s))" for d
    proof (cases "n > 0 \<and> x_letter X (take n (c # s))")
      case True
      then have "d \<notin> set meta_chars" using first_char [OF "2.prems"(2), of c s d] d unfolding n_def by (simp add: max_def)
      then show ?thesis by (auto simp: pat_char_def meta_chars_def)
    next
      case False
      then have c: "c = CHR ''.'' \<or> c = CHR ''_''" using 2 by blast
      then have "n = 1" unfolding n_def by (auto simp: utf8_len.simps lead_def byte_def)
      then have "d = c" using d by simp
      then show ?thesis using c by (auto simp: pat_char_def meta_chars_def)
    qed
    then have "list_all pat_char (take (max 1 n) (c # s))" "CHR ''*'' \<notin> set (take (max 1 n) (c # s))"
      unfolding list_all_iff by blast+
    then have "list_all pat_char (take (max 1 n) (c # s) @ drop (max 1 n) (c # s)) \<and>
        w' = (w \<or> CHR ''*'' \<in> set (take (max 1 n) (c # s) @ drop (max 1 n) (c # s)))"
      using rest unfolding list_all_append set_append by blast
    then show ?thesis unfolding append_take_drop_id .
  qed
qed simp

lemma ValidateGlob_ok:
  assumes "ValidateGlob X pat = Inr w" and "letter_laws X"
  shows "compileGlob pat = Some (map item_of pat)" and "w \<longleftrightarrow> CHR ''*'' \<in> set pat"
proof -
  have "list_all pat_char pat \<and> w = (False \<or> CHR ''*'' \<in> set pat)"
    using assms unfolding ValidateGlob_def by (rule validate_loop_ok)
  then show "compileGlob pat = Some (map item_of pat)" "w \<longleftrightarrow> CHR ''*'' \<in> set pat"
    by (simp_all add: compileGlob_items list_all_iff pat_char_def)
qed

subsection \<open>Matchers of name patterns\<close>

lemma glob_literal: "CHR ''*'' \<notin> set p \<Longrightarrow> glob_matches p s \<longleftrightarrow> s = p"
proof (induction p arbitrary: s)
  case Nil
  then show ?case by (auto intro: glob_matches.intros elim: glob_NilE)
next
  case (Cons c p)
  then show ?case by (auto intro: glob_matches.intros elim!: glob_ConsE)
qed

text \<open>A matcher for a set of patterns: the literal ones by name, the others compiled, each once.\<close>

definition matcher_for :: "string set \<Rightarrow> Matcher \<Rightarrow> bool" where
  "matcher_for P m \<longleftrightarrow>
     distinct (m_names m) \<and> set (m_names m) = {p \<in> P. CHR ''*'' \<notin> set p} \<and>
     distinct (map fst (m_globs m)) \<and> set (m_globs m) = (\<lambda>p. (p, map item_of p)) ` {p \<in> P. CHR ''*'' \<in> set p} \<and>
     m_exprs m = []"

lemma matcher_for_name:
  "matcher_for P m \<Longrightarrow> CHR ''*'' \<notin> set pat \<Longrightarrow> matcher_for (insert pat P) (m\<lparr>m_names := List.insert pat (m_names m)\<rparr>)"
  by (auto simp: matcher_for_def)

lemma matcher_for_glob:
  assumes "matcher_for P m" and "CHR ''*'' \<in> set pat"
  shows "matcher_for (insert pat P) (m\<lparr>m_globs := (pat, map item_of pat) # filter (\<lambda>(p, g). p \<noteq> pat) (m_globs m)\<rparr>)"
proof -
  have "distinct (map fst (filter (\<lambda>(p, g). p \<noteq> pat) (m_globs m)))"
    using assms(1) by (simp add: matcher_for_def distinct_map_filter)
  then show ?thesis using assms by (auto simp: matcher_for_def)
qed

lemma compile_pats_ok:
  "compile_pats X pats m = Inr m' \<Longrightarrow> letter_laws X \<Longrightarrow> matcher_for P m \<Longrightarrow> matcher_for (P \<union> set pats) m'"
proof (induction pats arbitrary: P m)
  case (Cons pat pats)
  obtain w where w: "ValidateGlob X pat = Inr w" using Cons.prems(1) by (auto split: sum.splits)
  note v = ValidateGlob_ok [OF w Cons.prems(2)]
  show ?case
  proof (cases w)
    case True
    then have "matcher_for (insert pat P \<union> set pats) m'"
      using Cons.prems v w by (intro Cons.IH [OF _ _ matcher_for_glob [OF Cons.prems(3)]]) simp_all
    then show ?thesis by simp
  next
    case False
    then have "matcher_for (insert pat P \<union> set pats) m'"
      using Cons.prems v w by (intro Cons.IH [OF _ _ matcher_for_name [OF Cons.prems(3)]]) simp_all
    then show ?thesis by simp
  qed
qed simp

lemma matcher_for_Match:
  assumes "matcher_for P m"
  shows "Matcher_Match X m name attrs \<longleftrightarrow> (\<exists>p\<in>P. glob_matches p name)"
proof -
  have names: "name \<in> set (m_names m) \<longleftrightarrow> (\<exists>p\<in>P. CHR ''*'' \<notin> set p \<and> glob_matches p name)"
    using assms glob_literal by (auto simp: matcher_for_def)
  have globs: "list_ex (\<lambda>(p, g). re_match g name) (m_globs m) \<longleftrightarrow> (\<exists>p\<in>P. CHR ''*'' \<in> set p \<and> glob_matches p name)"
    using assms by (auto simp: matcher_for_def list_ex_iff re_match_glob)
  have "m_exprs m = []" using assms by (simp add: matcher_for_def)
  then show ?thesis unfolding Matcher_Match_def names globs by auto
qed

lemma matcher_for_Unmatched:
  assumes "matcher_for P m"
  shows "UnmatchedPatterns m tests = sorted_list_of_set {p \<in> P. \<forall>t\<in>set tests. \<not> glob_matches p t}"
proof -
  define matched where
    "matched = set (map fst (filter (\<lambda>(k, g). list_ex (re_match g) tests) (m_globs m)) @ filter (\<lambda>t. t \<in> set (m_names m)) tests)"
  define r where "r = filter (\<lambda>k. k \<notin> matched) (map fst (m_globs m)) @ filter (\<lambda>n. n \<notin> matched) (m_names m)"
  have keys: "set (map fst (m_globs m)) = {p \<in> P. CHR ''*'' \<in> set p}" and names: "set (m_names m) = {p \<in> P. CHR ''*'' \<notin> set p}"
    using assms by (auto simp: matcher_for_def image_iff)
  have glob: "g = map item_of k" if "(k, g) \<in> set (m_globs m)" for k g
    using assms that by (auto simp: matcher_for_def)
  have "p \<in> matched \<longleftrightarrow> (\<exists>t\<in>set tests. glob_matches p t)" if "p \<in> P" for p
  proof (cases "CHR ''*'' \<in> set p")
    case True
    then have "(p, map item_of p) \<in> set (m_globs m)" using that assms by (auto simp: matcher_for_def)
    moreover have "p \<in> matched \<longleftrightarrow> (\<exists>g. (p, g) \<in> set (m_globs m) \<and> list_ex (re_match g) tests)"
      using True names by (auto simp: matched_def image_iff)
    ultimately have "p \<in> matched \<longleftrightarrow> list_ex (re_match (map item_of p)) tests" using glob by blast
    then show ?thesis by (simp add: list_ex_iff re_match_glob)
  next
    case False
    then have "p \<in> set (m_names m)" "p \<notin> set (map fst (m_globs m))" using that names keys by auto
    then show ?thesis using False by (auto simp: matched_def glob_literal)
  qed
  then have "set r = {p \<in> P. \<forall>t\<in>set tests. \<not> glob_matches p t}"
    unfolding r_def set_append set_filter keys names by blast
  moreover have "distinct r"
    using assms keys names unfolding r_def by (auto simp: matcher_for_def)
  ultimately have "sort r = sorted_list_of_set {p \<in> P. \<forall>t\<in>set tests. \<not> glob_matches p t}"
    by (metis sorted_list_of_set_sort_remdups distinct_remdups_id)
  moreover have "m_exprs m = []" using assms by (simp add: matcher_for_def)
  ultimately show ?thesis by (simp add: UnmatchedPatterns_def Let_def r_def matched_def)
qed

lemma expr_New_ok: "expr_New X s = Inr e \<Longrightarrow> x_Parse X s = Inr e"
  by (auto simp: expr_New_def split: sum.splits option.splits)

lemma NewMatcher_globs:
  assumes "NewMatcher X pats = Inr m" and "letter_laws X" and "\<not> is_attr_expr pats"
  shows "matcher_for (set (if pats = [] then [''*''] else pats)) m"
proof -
  have "compile_pats X (if pats = [] then [''*''] else pats) \<lparr>m_names = [], m_globs = [], m_exprs = []\<rparr> = Inr m"
    using assms(1,3) by (auto simp: NewMatcher_def compileGlobs_def Let_def split: if_splits)
  then show ?thesis using compile_pats_ok [OF _ assms(2), where P = "{}"] by (force simp: matcher_for_def)
qed

text \<open>C28: whatever patterns \<open>NewMatcher\<close> accepts, the matcher selects exactly the tests that the patterns mean: a
  single pattern in parentheses selects the tests whose attributes satisfy the expression, and other patterns
  those whose name one of them matches, where a wildcard stands for any text without a newline and every other
  character for itself.  \<open>UnmatchedPatterns\<close> lists, in order and once each, exactly the name patterns that match
  none of the tests.\<close>

theorem matcher_selects:
  assumes "letter_laws X" and "NewMatcher X pats = Inr m"
  shows "Matcher_Match X m name attrs = selected X pats name attrs \<and>
    UnmatchedPatterns m tests =
      (if is_attr_expr pats then []
       else sorted_list_of_set {p \<in> set (if pats = [] then [''*''] else pats). \<forall>t\<in>set tests. \<not> glob_matches p t})"
proof (cases "is_attr_expr pats")
  case True
  then obtain e where "expr_New X (tl (butlast (hd pats))) = Inr e" "m = \<lparr>m_names = [], m_globs = [], m_exprs = [e]\<rparr>"
    using assms(2) by (auto simp: NewMatcher_def compileExpr_def split: sum.splits)
  then show ?thesis
    using True expr_New_ok by (simp add: selected_def Matcher_Match_def UnmatchedPatterns_def expr_Matches_def exprTrue_holds)
next
  case False
  then show ?thesis
    using matcher_for_Match [OF NewMatcher_globs [OF assms(2,1) False]]
      matcher_for_Unmatched [OF NewMatcher_globs [OF assms(2,1) False]]
    by (simp add: selected_def)
qed

definition ex_syntax :: goSyntax where
  "ex_syntax = \<lparr>x_Parse = \<lambda>s. Inr (Ident s), x_Unquote = \<lambda>s. Some s, x_letter = \<lambda>ch. ch \<in> set (map (\<lambda>c. [c]) alnum)\<rparr>"

lemma ex_letter_laws: "letter_laws ex_syntax"
  by (auto simp: letter_laws_def ex_syntax_def)

lemma ex_matcher:
  "NewMatcher ex_syntax [''ui.*'', ''arc.Boot''] =
     Inr \<lparr>m_names = [''arc.Boot''], m_globs = [(''ui.*'', map item_of ''ui.*'')], m_exprs = []\<rparr>"
  by code_simp

theorem matcher_selects_witness:
  "selected ex_syntax [''ui.*'', ''arc.Boot''] ''ui.Login'' [] \<and>
   \<not> selected ex_syntax [''ui.*'', ''arc.Boot''] ''uiLogin'' []"
proof -
  let ?m = "\<lparr>m_names = [''arc.Boot''], m_globs = [(''ui.*'', map item_of ''ui.*'')], m_exprs = []\<rparr>"
  have "Matcher_Match ex_syntax ?m ''ui.Login'' []" "\<not> Matcher_Match ex_syntax ?m ''uiLogin'' []" by code_simp+
  then show ?thesis
    using matcher_selects [OF ex_letter_laws ex_matcher, where attrs = "[]"] by blast
qed

subsection \<open>Software features of a device\<close>

text \<open>A feature is available if its definition holds for the USE flags.\<close>

definition feature_holds :: "goSyntax \<Rightarrow> string list \<Rightarrow> string \<Rightarrow> bool" where
  "feature_holds X useFlags es \<longleftrightarrow> (\<exists>e. x_Parse X es = Inr e \<and> holds X (set useFlags) e)"

lemma feature_defs_ok:
  "feature_defs X useFlags defs (av, un) = Inr r \<Longrightarrow>
   r = (av @ map fst (filter (\<lambda>d. feature_holds X useFlags (snd d)) defs),
        un @ map fst (filter (\<lambda>d. \<not> feature_holds X useFlags (snd d)) defs))"
proof (induction defs arbitrary: av un)
  case (Cons d defs)
  obtain ft es where d: "d = (ft, es)" by (cases d)
  obtain e where e: "expr_New X es = Inr e" using Cons.prems by (auto simp: d split: if_splits sum.splits)
  have h: "expr_Matches X e useFlags \<longleftrightarrow> feature_holds X useFlags es"
    using expr_New_ok [OF e] by (simp add: feature_holds_def expr_Matches_def exprTrue_holds)
  show ?case
  proof (cases "feature_holds X useFlags es")
    case True
    then have "feature_defs X useFlags defs (av @ [ft], un) = Inr r" using Cons.prems e h by (simp add: d split: if_splits)
    from Cons.IH [OF this] show ?thesis using True by (simp add: d)
  next
    case False
    then have "feature_defs X useFlags defs (av, un @ [ft]) = Inr r" using Cons.prems e h by (simp add: d split: if_splits)
    from Cons.IH [OF this] show ?thesis using False by (simp add: d)
  qed
qed simp

lemma mset_halves: "image_mset g M = image_mset g (filter_mset P M) + image_mset g (filter_mset (\<lambda>x. \<not> P x) M)"
  by (induction M) simp_all

text \<open>Every feature of the definitions and every capability is reported once, sorted, among the available ones
  if and only if its definition holds for the USE flags or the capability is there.\<close>

theorem determineSoftwareFeatures_partition:
  assumes "determineSoftwareFeatures X definitions useFlags autotestCaps = Inr f"
  shows "sorted (Available f) \<and> sorted (Unavailable f) \<and>
    mset (Available f) =
      image_mset fst (filter_mset (\<lambda>d. feature_holds X useFlags (snd d)) (mset definitions)) +
      image_mset (\<lambda>c. autotestCapPrefix @ fst c) (filter_mset snd (mset autotestCaps)) \<and>
    mset (Available f) + mset (Unavailable f) =
      image_mset fst (mset definitions) + image_mset (\<lambda>c. autotestCapPrefix @ fst c) (mset autotestCaps)"
proof -
  obtain r where r: "feature_defs X useFlags definitions ([], []) = Inr r"
    using assms by (auto simp: determineSoftwareFeatures_def split: sum.splits)
  have f: "f = \<lparr>Available = sort (fst r @ map (\<lambda>(n, yes). autotestCapPrefix @ n) (filter snd autotestCaps)),
      Unavailable = sort (snd r @ map (\<lambda>(n, yes). autotestCapPrefix @ n) (filter (\<lambda>c. \<not> snd c) autotestCaps))\<rparr>"
    using assms r by (simp add: determineSoftwareFeatures_def split: prod.splits)
  show ?thesis
    using feature_defs_ok [OF r]
    by (simp add: f case_prod_unfold ac_simps mset_halves [of fst "mset definitions" "\<lambda>d. feature_holds X useFlags (snd d)"]
        mset_halves [of "\<lambda>c. autotestCapPrefix @ fst c" "mset autotestCaps" snd])
qed

definition ex_feature_defs :: "(string \<times> string) list" where
  "ex_feature_defs = [(''chrome'', ''chrome''), (''arc'', ''arc'')]"

theorem determineSoftwareFeatures_partition_witness:
  "mset [''autotest-capability:hw_dec'', ''chrome''] + mset [''arc''] =
   image_mset fst (mset ex_feature_defs) + image_mset (\<lambda>c. autotestCapPrefix @ fst c) (mset [(''hw_dec'', True)])"
proof -
  have "determineSoftwareFeatures ex_syntax ex_feature_defs [''chrome''] [(''hw_dec'', True)] =
      Inr \<lparr>Available = [''autotest-capability:hw_dec'', ''chrome''], Unavailable = [''arc'']\<rparr>"
    by code_simp
  from determineSoftwareFeatures_partition [OF this, THEN conjunct2, THEN conjunct2, THEN conjunct2]
  show ?thesis by (simp only: SoftwareFeatures.select_convs)
qed

end
