(* ===== verification/Spec2Isabelle.thy ===== *)
theory Spec2Isabelle
  imports Sharding PlanSpec ProcLimits Retry Devserver Minidump Selection
begin

text \<open>
  \<^bold>\<open>A model of Tast, the integration test framework of ChromiumOS.\<close>

  Paths below are relative to \<open>src/src/go.chromium.org/tast/core\<close>.

  \<^bold>\<open>The program.\<close>  Tests and fixtures are compiled into bundles.  The command line tool selects tests, divides
  them into shards and drives the run.  A bundle receives a list of tests, plans their order around the
  fixtures they need, and runs them; what happens is sent as a stream of events.  A remote bundle runs the
  tests of a local bundle as external tests.  On the other end of the stream the driver processes the events:
  it writes logs, timing information and results, pulls output files and counts failures, and runs tests again
  if the bundle crashes or retries are asked for.

  \<^bold>\<open>Conventions.\<close>  A struct is a record and an operation on it a function that returns the new record.  Go
  errors are values of \<open>goerr\<close> (\<open>None\<close> is \<open>nil\<close>), and the error \<open>BUG\<close> is one the framework raises about itself;
  a panic is an outcome of its own in the event processor.  Strings are byte sequences.  Code outside the
  repository, user code and the operating system are parameters, fields of a record on an arbitrary type of
  worlds; what the theorems rely on is a named law (\<open>fs_laws\<close>, \<open>pb_laws\<close>, \<open>body_laws\<close>, \<open>server_laws\<close>,
  \<open>letter_laws\<close>), and the witnesses instantiate the parameters by functions that satisfy it.  Go integers are
  of type \<open>int\<close> where the values are lengths and counts, and 32-bit words in the reader of crash dumps, where a
  sum wraps around.

  \<^bold>\<open>Shared theories.\<close>
  \<^item> Prelude: errors, the functions of \<open>strings\<close>, \<open>sort\<close> and \<open>path/filepath\<close> that the code uses, maps of lists.
  \<^item> OS: the system calls, with the laws of a file system.
  \<^item> GoTime: times, their formats, and the messages for them.

  \<^bold>\<open>Running tests in a bundle.\<close>
  \<^item> Output (\<open>internal/planner/internal/output/output.go\<close>): \<open>EntityStream\<close> and its operations.  A stream sends
    exactly the operations up to the first \<open>End\<close>.
  \<^item> Usercode (\<open>internal/usercode/usercode.go\<close>): \<open>SafeCall\<close>, as a function and as the race of its two
    goroutines.  In every interleaving, success means that the user code ended; the function is an outcome of
    the race.
  \<^item> FixtStack (\<open>internal_stack.go\<close> and \<open>stack.go\<close> of \<open>internal/planner/internal/fixture\<close>, and
    \<open>internal/planner/internal/entity/entity.go\<close>): set-up, reset, hooks and tear-down of fixtures.  The
    documented invariants on the colours of a stack hold after every sequence of operations.
  \<^item> Combined (\<open>external_stack.go\<close>, \<open>combined_stack.go\<close>, \<open>stack_server.go\<close> of the same package, and
    \<open>internal/planner/stack.go\<close>): stacks that span two bundles.  What the client caches is the state of the
    stack behind the server, while resets succeed.
  \<^item> Extdata (\<open>internal/extdata/extdata.go\<close>, \<open>internal/planner/downloader.go\<close>): external data files.  Reference
    counts are exact, nothing stale is left, and a successful download leaves verified contents.
  \<^item> Deps (\<open>internal/dep\<close>): \<open>Check\<close> lets a test run exactly if its dependencies are satisfied, whatever the
    iteration order of maps.
  \<^item> Plan (first half of \<open>internal/planner/run.go\<close>): \<open>buildPlan\<close> gives each requested test exactly one place, and
    plans only those to run that pass their checks.
  \<^item> PlanRun (second half, and \<open>internal/planner/external.go\<close>): \<open>runTest\<close>, \<open>runFixtTree\<close>, \<open>RunTests\<close>.  \<open>RunTests\<close>
    terminates, whatever fixtures, tests and local bundles do.
  \<^item> PlanSpec: the locale \<open>planner_stack\<close> is the contract between the loops over fixture trees and the stack,
    interpreted on the internal stack.  \<open>RunTests\<close> has no internal error, and on success starts each
    requested test as often as requested and ends everything it started.

  \<^bold>\<open>Processing the events of a run.\<close>
  \<^item> Timing (\<open>internal/timing\<close>): the tree of stages, its invariant, and its round trip through messages.
  \<^item> Logging (\<open>internal/logging\<close>): loggers that can be added and removed; logged text is valid UTF-8.
  \<^item> Report (\<open>internal/run/resultsjson\<close>, \<open>internal/run/reporting\<close>, \<open>internal/minidriver/failfast\<close>): results, and the
    streamed results file, which refines a list of records that are appended or replaced.
  \<^item> Handlers (\<open>internal/minidriver/processor/handler*.go\<close>): one constructor of \<open>handler\<close> per Go type.
  \<^item> Processor (\<open>preprocessor.go\<close>, \<open>processor.go\<close> of the same package, and
    \<open>internal/minidriver/bundleclient/run_tests.go\<close>): the stack of running entities and the event loop.
  \<^item> ProcSpec and ProcResults: the locale \<open>handler_protocol\<close> states what a handler needs and keeps, the locale
    \<open>call_invariant\<close> what a property of handlers needs to hold at the end of a run.  Whatever a bundle sends
    and wherever its stream breaks, a run returns, no handler panics, every handler sees a consistent
    sequence of calls, and every test that started has exactly one result, a failure if it did not finish.
  \<^item> ProcLimits: what happens without the hypotheses of these theorems.
  \<^item> Retry (\<open>internal/minidriver/run_tests.go\<close>): attempts and retries.  The locale \<open>attempts\<close> is what the loop needs
    of one attempt, interpreted on \<open>runLocalTestsOnce\<close>.  The loop ends, and on success every requested test
    has exactly one result, that of its last run.

  \<^bold>\<open>Around a run.\<close>
  \<^item> Selection (\<open>internal/testing/matcher.go\<close>, \<open>internal/expr/expr.go\<close>, \<open>internal/crosbundle/software.go\<close>): patterns and
    attribute expressions are compiled and matched; a matcher selects exactly the tests that the patterns mean.
    The software features of a device are divided into available and unavailable ones by their definitions.
  \<^item> Sharding (\<open>cmd/tast/internal/run/sharding/sharding.go\<close>): the locale \<open>sharder\<close>, interpreted on both methods;
    shards partition the tests.
  \<^item> Devserver (\<open>internal/devserver\<close>): a file that is opened comes from a server that has it staged, and reading
    it delivers its contents without gaps or repetitions across broken connections.
  \<^item> Minidump (\<open>cmd/tast/internal/symbolize/breakpad/minidump.go\<close>): reading a crash dump step by step gives what a
    description of the format by absolute positions says.

  \<^bold>\<open>Fuel and loops.\<close>  Following the parents of fixtures takes \<open>fixt_fuel\<close>, one more than the number of registered
  fixtures, which is enough on a registry without cycles (\<open>traverse_total\<close>, \<open>newTree_total\<close>).  \<open>runFixtTree\<close> takes
  \<open>tree_fuel\<close>, one more than twice the size of the tree, which is always enough (\<open>tree_fuel_enough\<close>).  The loop
  that ends orphaned entities and the loop over attempts may run forever, so they are partial functions;
  that they return under the stated hypotheses is part of the theorems.

  \<^bold>\<open>Idealisations.\<close>  The goroutines of \<open>SafeCall\<close> are modelled with their interleavings.  Elsewhere work that the code
  does in parallel (downloads, requests to devservers, copying of output files) is done one step after the
  other, and operations under a mutex are atomic.  Contexts and their deadlines appear only where user code
  is abandoned.

  \<^bold>\<open>Not modelled.\<close>
  \<^item> Generated protocol code and the functions that copy fields between messages and structs: messages are
    records of the components that use them.
  \<^item> SSH connections, remote files, gRPC servers and clients, the entry points of bundles and runners, servo:
    input and output, which the components above take as parameters.
  \<^item> The registry of tests and the objects passed to test code: tests and fixtures are parameters with the fields
    that the planner reads.
  \<^item> Hardware conditions and the detection of hardware and USE flags on a device: a condition is a parameter of
    \<open>Check\<close>, the flags an argument of \<open>determineSoftwareFeatures\<close>.
  \<^item> The rest of the command line tool (flags, building and pushing of binaries, JUnit and other result files),
    the linter, which works on the syntax trees of Go's own parser, and code used only by unit tests.
  \<^item> Within modelled components: console output, JSON encodings, syslog and function loggers, timestamps and
    log levels of the output stream of a bundle, the forwarding of precondition logs, the functions that run
    \<open>dump_syms\<close> and \<open>minidump_stackwalk\<close>, and \<open>newConfigsForLocalTests\<close>.
\<close>

end
